(* ===== verification/Py_Prelude.thy ===== *)
theory Py_Prelude
  imports Complex_Main "HOL-Library.AList" "HOL-Library.Char_ord" "HOL-Library.List_Lexorder"
begin

text \<open>
  The part of Python that the components share: the values that JSON parsing and the two
  database drivers produce, dictionaries as association lists in insertion order, raising code
  as a sum (\<open>Inl\<close> the exception), and the few string operations the sources call.

  Strings are lists of code points below 256 (\<^typ>\<open>char\<close>).  The tables \<open>is_space\<close>
  and \<open>is_word\<close> are Python's \<open>str.isspace\<close> and the regular expression class
  \<open>\w\<close> on exactly these code points.  User-facing message texts are not values of the model:
  every raise site is a constructor of an error type that keeps the parts computed at run time.
\<close>

named_theorems result_simps \<open>rewrite rules for raising code that returned normally\<close>

subsection \<open>Raising code as a sum\<close>

definition rbind :: "'e + 'a \<Rightarrow> ('a \<Rightarrow> 'e + 'b) \<Rightarrow> 'e + 'b" where
  "rbind m f = (case m of Inl e \<Rightarrow> Inl e | Inr x \<Rightarrow> f x)"

fun rmap :: "('a \<Rightarrow> 'e + 'b) \<Rightarrow> 'a list \<Rightarrow> 'e + 'b list" where
  "rmap f [] = Inr []"
| "rmap f (x # xs) = rbind (f x) (\<lambda>y. rbind (rmap f xs) (\<lambda>ys. Inr (y # ys)))"

fun rfold :: "('a \<Rightarrow> 's \<Rightarrow> 'e + 's) \<Rightarrow> 'a list \<Rightarrow> 's \<Rightarrow> 'e + 's" where
  "rfold f [] s = Inr s"
| "rfold f (x # xs) s = rbind (f x s) (rfold f xs)"

lemma rbind_simps [simp]: "rbind (Inl e) f = Inl e" "rbind (Inr x) f = f x"
  by (simp_all add: rbind_def)

lemma rbind_Inr_iff [result_simps]: "rbind m f = Inr y \<longleftrightarrow> (\<exists>x. m = Inr x \<and> f x = Inr y)"
  by (cases m) auto

lemma if_Inl_Inr_iff [result_simps]:
  "(if c then Inl e else m) = Inr y \<longleftrightarrow> \<not> c \<and> m = Inr y"
  by simp

lemma rbind_assoc: "rbind (rbind m f) g = rbind m (\<lambda>x. rbind (f x) g)"
  by (cases m) auto

lemma rbind_cong [fundef_cong]:
  "m = m' \<Longrightarrow> (\<And>x. m' = Inr x \<Longrightarrow> f x = g x) \<Longrightarrow> rbind m f = rbind m' g"
  by (cases m') auto

lemma rmap_Inr_iff:
  "rmap f xs = Inr ys \<longleftrightarrow> list_all2 (\<lambda>x y. f x = Inr y) xs ys"
proof (induction xs arbitrary: ys)
  case Nil
  then show ?case by auto
next
  case (Cons x xs)
  then show ?case by (cases ys) (auto simp: rbind_Inr_iff)
qed

lemma rmap_all_Inr: "(\<And>x. x \<in> set xs \<Longrightarrow> f x = Inr (g x)) \<Longrightarrow> rmap f xs = Inr (map g xs)"
  by (induction xs) auto

lemma rfold_invariant:
  assumes "rfold f xs s = Inr t" and "P s"
    and "\<And>x s t. x \<in> set xs \<Longrightarrow> P s \<Longrightarrow> f x s = Inr t \<Longrightarrow> P t"
  shows "P t"
  using assms
proof (induction xs arbitrary: s)
  case Nil
  then show ?case by simp
next
  case (Cons x xs)
  from Cons.prems(1) obtain u where u: "f x s = Inr u" "rfold f xs u = Inr t"
    by (auto simp: rbind_Inr_iff)
  from Cons.prems(3)[of x s u] Cons.prems(2) u(1) have "P u" by simp
  then show ?case
    by (rule Cons.IH[OF u(2)]) (rule Cons.prems(3), auto)
qed

lemma rfold_append: "rfold f (xs @ ys) s = rbind (rfold f xs s) (rfold f ys)"
proof (induction xs arbitrary: s)
  case Nil
  then show ?case by simp
next
  case (Cons x xs)
  then show ?case by (cases "f x s") simp_all
qed

subsection \<open>Python values\<close>

text \<open>
  A finite float carries its exact binary value and the coefficient and exponent of its \<open>str\<close>,
  the two readings the code makes of a float (comparison, and \<open>Decimal(str(x))\<close>).  A finite
  \<open>Decimal\<close> is a coefficient and an exponent of ten; zeros carry no sign.  \<open>PObj\<close> is any other
  hashable driver value (dates, times): its class name and its text.
\<close>

datatype pyfloat = FNaN | FInf bool | FFin rat int int

datatype decimal = DNaN | DInf bool | Dec int int

datatype pyval =
    PNone
  | PBool bool
  | PInt int
  | PFloat pyfloat
  | PDec decimal
  | PStr string
  | PObj string string
  | PList "pyval list"
  | PDict "(string \<times> pyval) list"

type_synonym row = "(string \<times> pyval) list"

datatype xnum = XNaN | XInf bool | XNum rat

definition pow10 :: "int \<Rightarrow> rat" where
  "pow10 e = power_int 10 e"

fun dec_value :: "decimal \<Rightarrow> rat" where
  "dec_value (Dec c e) = of_int c * pow10 e"
| "dec_value _ = 0"

fun numeric :: "pyval \<Rightarrow> xnum option" where
  "numeric (PBool b) = Some (XNum (if b then 1 else 0))"
| "numeric (PInt n) = Some (XNum (of_int n))"
| "numeric (PFloat FNaN) = Some XNaN"
| "numeric (PFloat (FInf neg)) = Some (XInf neg)"
| "numeric (PFloat (FFin exact _ _)) = Some (XNum exact)"
| "numeric (PDec DNaN) = Some XNaN"
| "numeric (PDec (DInf neg)) = Some (XInf neg)"
| "numeric (PDec (Dec c e)) = Some (XNum (dec_value (Dec c e)))"
| "numeric _ = None"

text \<open>
  Python's \<open>==\<close>: numbers of different classes compare by value, a NaN equals nothing,
  dictionaries compare as mappings.
\<close>

fun py_eq :: "pyval \<Rightarrow> pyval \<Rightarrow> bool"
and py_eq_list :: "pyval list \<Rightarrow> pyval list \<Rightarrow> bool"
and py_sub_dict :: "(string \<times> pyval) list \<Rightarrow> (string \<times> pyval) list \<Rightarrow> bool"
and py_eq_key :: "pyval \<Rightarrow> string \<Rightarrow> (string \<times> pyval) list \<Rightarrow> bool" where
  "py_eq (PList xs) (PList ys) = py_eq_list xs ys"
| "py_eq (PDict d) (PDict e) = (length d = length e \<and> py_sub_dict d e)"
| "py_eq x y =
     (case (numeric x, numeric y) of
        (Some a, Some b) \<Rightarrow> a \<noteq> XNaN \<and> a = b
      | (None, None) \<Rightarrow> x = y
      | _ \<Rightarrow> False)"
| "py_eq_list [] [] = True"
| "py_eq_list (x # xs) (y # ys) = (py_eq x y \<and> py_eq_list xs ys)"
| "py_eq_list _ _ = False"
| "py_sub_dict [] e = True"
| "py_sub_dict ((k, v) # d) e = (py_eq_key v k e \<and> py_sub_dict d e)"
| "py_eq_key v k [] = False"
| "py_eq_key v k ((k', v') # e) = (if k = k' then py_eq v v' else py_eq_key v k e)"

fun hashable :: "pyval \<Rightarrow> bool" where
  "hashable (PList _) = False"
| "hashable (PDict _) = False"
| "hashable _ = True"

fun is_str :: "pyval \<Rightarrow> bool" where
  "is_str (PStr _) = True"
| "is_str _ = False"

fun str_of :: "pyval \<Rightarrow> string" where
  "str_of (PStr s) = s"
| "str_of _ = []"

text \<open>Truth value testing, as \<open>if x\<close> does it.\<close>

fun py_truthy :: "pyval \<Rightarrow> bool" where
  "py_truthy PNone = False"
| "py_truthy (PBool b) = b"
| "py_truthy (PInt n) = (n \<noteq> 0)"
| "py_truthy (PFloat (FFin v _ _)) = (v \<noteq> 0)"
| "py_truthy (PFloat _) = True"
| "py_truthy (PDec (Dec c _)) = (c \<noteq> 0)"
| "py_truthy (PDec _) = True"
| "py_truthy (PStr s) = (s \<noteq> [])"
| "py_truthy (PObj _ _) = True"
| "py_truthy (PList xs) = (xs \<noteq> [])"
| "py_truthy (PDict d) = (d \<noteq> [])"

lemma is_str_iff: "is_str v \<longleftrightarrow> (\<exists>s. v = PStr s)"
  by (cases v) auto

subsection \<open>Dictionaries in insertion order\<close>

text \<open>\<^const>\<open>AList.update\<close> is Python's item assignment: a new key goes to the end.\<close>

type_synonym ('k, 'v) dict = "('k \<times> 'v) list"

definition dict_keys :: "('k, 'v) dict \<Rightarrow> 'k list" where
  "dict_keys d = map fst d"

definition dict_ok :: "('k, 'v) dict \<Rightarrow> bool" where
  "dict_ok d \<longleftrightarrow> distinct (map fst d)"

definition dict_get :: "('k, 'v) dict \<Rightarrow> 'k \<Rightarrow> 'v \<Rightarrow> 'v" where
  "dict_get d k v0 = (case map_of d k of None \<Rightarrow> v0 | Some v \<Rightarrow> v)"

definition setdefault :: "'k \<Rightarrow> 'v \<Rightarrow> ('k, 'v) dict \<Rightarrow> ('k, 'v) dict" where
  "setdefault k v d = (if map_of d k = None then d @ [(k, v)] else d)"

lemma dict_ok_Nil [simp]: "dict_ok []"
  by (simp add: dict_ok_def)

lemma dict_ok_update [simp]: "dict_ok d \<Longrightarrow> dict_ok (AList.update k v d)"
  by (simp add: dict_ok_def distinct_update)

lemma dict_ok_setdefault [simp]: "dict_ok d \<Longrightarrow> dict_ok (setdefault k v d)"
  by (auto simp: dict_ok_def setdefault_def map_of_eq_None_iff)

lemma setdefault_keys: "fst ` set (setdefault k v d) = insert k (fst ` set d)"
  by (auto simp: setdefault_def map_of_eq_None_iff)

lemma map_of_setdefault:
  "map_of (setdefault k v d) = (if map_of d k = None then (map_of d)(k \<mapsto> v) else map_of d)"
  by (auto simp: setdefault_def fun_eq_iff map_add_def split: option.splits)

subsection \<open>String operations\<close>

definition code :: "char \<Rightarrow> nat" where
  "code c = of_char c"

definition is_space :: "char \<Rightarrow> bool" where
  "is_space c \<longleftrightarrow> (let n = code c in
     (9 \<le> n \<and> n \<le> 13) \<or> (28 \<le> n \<and> n \<le> 32) \<or> n = 133 \<or> n = 160)"

definition is_digit :: "char \<Rightarrow> bool" where
  "is_digit c \<longleftrightarrow> (let n = code c in 48 \<le> n \<and> n \<le> 57)"

definition is_ascii_upper :: "char \<Rightarrow> bool" where
  "is_ascii_upper c \<longleftrightarrow> (let n = code c in 65 \<le> n \<and> n \<le> 90)"

definition is_ascii_lower :: "char \<Rightarrow> bool" where
  "is_ascii_lower c \<longleftrightarrow> (let n = code c in 97 \<le> n \<and> n \<le> 122)"

definition is_letter_or_underscore :: "char \<Rightarrow> bool" where
  "is_letter_or_underscore c \<longleftrightarrow>
     is_ascii_upper c \<or> is_ascii_lower c \<or> c = CHR ''_''"

definition is_word :: "char \<Rightarrow> bool" where
  "is_word c \<longleftrightarrow> is_letter_or_underscore c \<or> is_digit c \<or>
     (let n = code c in n \<in> {170, 178, 179, 181, 185, 186, 188, 189, 190} \<or>
        (192 \<le> n \<and> n \<noteq> 215 \<and> n \<noteq> 247))"

definition ascii_upper :: "char \<Rightarrow> char" where
  "ascii_upper c = (if is_ascii_lower c then char_of (code c - 32) else c)"

definition strip :: "string \<Rightarrow> string" where
  "strip s = rev (dropWhile is_space (rev (dropWhile is_space s)))"

definition blank :: "string \<Rightarrow> bool" where
  "blank s \<longleftrightarrow> strip s = []"

text \<open>\<open>s.split(c, 1)\<close>: \<open>None\<close> when the separator does not occur.\<close>

definition split_once :: "char \<Rightarrow> string \<Rightarrow> (string \<times> string) option" where
  "split_once c s = (case dropWhile (\<lambda>x. x \<noteq> c) s of
     [] \<Rightarrow> None | _ # r \<Rightarrow> Some (takeWhile (\<lambda>x. x \<noteq> c) s, r))"

fun safe_identifier :: "string \<Rightarrow> bool" where
  "safe_identifier [] = False"
| "safe_identifier (c # cs) =
     (is_letter_or_underscore c \<and> list_all (\<lambda>x. is_letter_or_underscore x \<or> is_digit x) cs)"

lemma blank_iff: "blank s \<longleftrightarrow> list_all is_space s"
proof -
  have "(\<forall>x \<in> set (dropWhile is_space s). is_space x) \<longleftrightarrow> (\<forall>x \<in> set s. is_space x)"
    by (induction s) auto
  then show ?thesis by (simp add: blank_def strip_def list_all_iff)
qed

lemma split_once_append:
  "c \<notin> set a \<Longrightarrow> split_once c (a @ c # b) = Some (a, b)"
proof -
  assume c: "c \<notin> set a"
  then have "dropWhile (\<lambda>x. x \<noteq> c) (a @ c # b) = c # b"
    by (induction a) auto
  moreover from c have "takeWhile (\<lambda>x. x \<noteq> c) (a @ c # b) = a"
    by (induction a) auto
  ultimately show ?thesis by (simp add: split_once_def)
qed

lemma split_once_SomeD: "split_once c s = Some (a, b) \<Longrightarrow> s = a @ c # b \<and> c \<notin> set a"
proof (induction s arbitrary: a)
  case Nil
  then show ?case by (simp add: split_once_def)
next
  case (Cons x s)
  then show ?case
    by (cases "x = c") (auto simp: split_once_def split: list.splits)
qed

lemma dot_not_in_safe_identifier: "safe_identifier s \<Longrightarrow> CHR ''.'' \<notin> set s"
  by (cases s) (auto simp: list_all_iff is_letter_or_underscore_def is_ascii_upper_def
      is_ascii_lower_def is_digit_def code_def)

subsection \<open>Lists\<close>

lemma update_key_set: "fst ` set (AList.update k v d) = insert k (fst ` set d)"
  by (induction d) auto

lemma update_new_key: "k \<notin> fst ` set d \<Longrightarrow> AList.update k v d = d @ [(k, v)]"
  by (induction d) auto

lemma list_all2_memberD1: "list_all2 P xs ys \<Longrightarrow> x \<in> set xs \<Longrightarrow> \<exists>y \<in> set ys. P x y"
  by (induction xs ys rule: list_all2_induct) auto

lemma list_all2_memberD2: "list_all2 P xs ys \<Longrightarrow> y \<in> set ys \<Longrightarrow> \<exists>x \<in> set xs. P x y"
  by (induction xs ys rule: list_all2_induct) auto

lemma distinct_short_same: "distinct xs \<Longrightarrow> \<not> 1 < length xs \<Longrightarrow> x \<in> set xs \<Longrightarrow> y \<in> set xs \<Longrightarrow> x = y"
  by (cases xs rule: remdups_adj.cases) auto

lemma distinct_sorted_wrt: "distinct (map f xs) \<Longrightarrow> sorted_wrt (\<lambda>x y. f x \<noteq> f y) xs"
  by (induction xs) (auto simp: image_iff)

lemma sorted_wrt_both:
  "sorted_wrt P xs \<Longrightarrow> sorted_wrt Q xs \<Longrightarrow> sorted_wrt (\<lambda>x y. P x y \<and> Q x y) xs"
  by (induction xs) auto

lemma prod_list_pos: "\<forall>q \<in> set qs. 0 < q \<Longrightarrow> 0 < prod_list qs" for qs :: "int list"
  by (induction qs) auto

primrec somes :: "'a option list \<Rightarrow> 'a list" where
  "somes [] = []"
| "somes (x # xs) = (case x of None \<Rightarrow> somes xs | Some y \<Rightarrow> y # somes xs)"

lemma set_somes:
  "x \<in> set (somes os) \<longleftrightarrow> Some x \<in> set os"
  by (induction os) (auto split: option.splits)

subsection \<open>Checks and first occurrences\<close>

text \<open>A sequence of guarded raises: the first failing one wins.\<close>

definition require :: "bool \<Rightarrow> 'e \<Rightarrow> 'e + unit" where
  "require c e = (if c then Inr () else Inl e)"

fun checks :: "('e + unit) list \<Rightarrow> 'e + unit" where
  "checks [] = Inr ()"
| "checks (c # cs) = rbind c (\<lambda>_. checks cs)"

lemma require_Inr_iff [result_simps]: "require c e = Inr u \<longleftrightarrow> c"
  by (simp add: require_def)

lemma checks_Inr_iff [result_simps]: "checks cs = Inr u \<longleftrightarrow> (\<forall>c \<in> set cs. c = Inr ())"
  by (induction cs) (auto simp: result_simps)

text \<open>\<open>dict.fromkeys\<close>: the values without repetitions, each where it occurs first.\<close>

definition fromkeys :: "'a list \<Rightarrow> 'a list" where
  "fromkeys xs = fold (\<lambda>x acc. if x \<in> set acc then acc else acc @ [x]) xs []"

lemma fold_fromkeys:
  "set (fold (\<lambda>x acc. if x \<in> set acc then acc else acc @ [x]) xs acc) = set acc \<union> set xs"
  "distinct acc \<Longrightarrow> distinct (fold (\<lambda>x acc. if x \<in> set acc then acc else acc @ [x]) xs acc)"
  by (induction xs arbitrary: acc) auto

lemma set_fromkeys [simp]: "set (fromkeys xs) = set xs"
  by (simp add: fromkeys_def fold_fromkeys)

lemma distinct_fromkeys [simp]: "distinct (fromkeys xs)"
  by (simp add: fromkeys_def fold_fromkeys)

lemma fromkeys_distinct: "distinct xs \<Longrightarrow> fromkeys xs = xs"
proof -
  have "distinct (acc @ xs) \<Longrightarrow> fold (\<lambda>x acc. if x \<in> set acc then acc else acc @ [x]) xs acc = acc @ xs" for acc
    by (induction xs arbitrary: acc) auto
  from this[of "[]"] show "distinct xs \<Longrightarrow> fromkeys xs = xs" by (simp add: fromkeys_def)
qed

lemma rmap_unit_iff: "rmap f xs = Inr ys \<longleftrightarrow> (\<forall>x \<in> set xs. f x = Inr ()) \<and> length ys = length xs"
  for f :: "'a \<Rightarrow> 'e + unit"
proof (induction xs arbitrary: ys)
  case (Cons x xs)
  then show ?case by (cases ys) (auto simp: result_simps)
qed auto

lemma rmap_Inl: "rmap f xs = Inl e \<Longrightarrow> \<exists>x \<in> set xs. f x = Inl e"
proof (induction xs)
  case (Cons x xs)
  then show ?case by (cases "f x"; cases "rmap f xs") auto
qed simp

lemma rmap_member: "rmap f xs = Inr ys \<Longrightarrow> y \<in> set ys \<Longrightarrow> \<exists>x \<in> set xs. f x = Inr y"
  unfolding rmap_Inr_iff by (rule list_all2_memberD2)

lemma ex_unit_list: "\<exists>ys :: unit list. length ys = n"
  by (rule exI[of _ "replicate n ()"]) simp

end
