(* ===== verification/Query_Failures.thy ===== *)
theory Query_Failures
  imports Py_Prelude
begin

text \<open>
  The user-safe failure record (\<open>QueryFailure\<close> of \<open>orchestrator/state.py\<close>,
  \<open>orchestrator/query_failures.py\<close>), the guard verdict (\<open>orchestrator/guards/result.py\<close>) and the
  exceptions that the injected functions raise.  The two user-facing texts of a failure are
  determined by its other fields and its raise site and are not kept.
\<close>

datatype failure_kind = UserCorrectable | Infrastructure | Internal

record query_failure =
  qf_code :: string
  qf_stage :: string
  qf_category :: string
  qf_kind :: failure_kind
  qf_retryable :: bool
  qf_failed_tool :: "string option"
  qf_dependent_failure :: bool

definition make_query_failure :: "string \<Rightarrow> string \<Rightarrow> string \<Rightarrow> failure_kind \<Rightarrow> bool
    \<Rightarrow> string option \<Rightarrow> bool \<Rightarrow> query_failure" where
  "make_query_failure failure_code stage category kind retryable failed_tool dependent_failure =
     \<lparr>qf_code = failure_code, qf_stage = stage, qf_category = category, qf_kind = kind,
      qf_retryable = retryable, qf_failed_tool = failed_tool,
      qf_dependent_failure = dependent_failure\<rparr>"

definition entity_not_found_failure :: query_failure where
  "entity_not_found_failure =
     make_query_failure ''ENTITY_NOT_FOUND'' ''entity_resolution'' ''NOT_FOUND'' UserCorrectable False
       None False"

definition query_understanding_failure :: "string \<Rightarrow> query_failure" where
  "query_understanding_failure stage =
     make_query_failure ''QUERY_UNDERSTANDING_FAILED'' stage ''UNSUPPORTED'' UserCorrectable False
       None False"

record guard_result =
  gr_allowed :: bool
  gr_reason_code :: "string option"

text \<open>
  An exception: the names of its class and of the base classes, its text, and its \<open>sqlstate\<close>
  attribute when it has one.
\<close>

record py_exception =
  exc_type :: string
  exc_bases :: "string list"
  exc_text :: string
  exc_sqlstate :: "string option"

definition exc_instance :: "py_exception \<Rightarrow> string list \<Rightarrow> bool" where
  "exc_instance e classes \<longleftrightarrow> list_ex (\<lambda>c. c \<in> set classes) (exc_type e # exc_bases e)"

end
