(* ===== verification/Schema_Models.thy ===== *)
theory Schema_Models
  imports Py_Prelude
begin

text \<open>
  The physical schemas (\<open>agents/sql/schema/models.py\<close>, \<open>agents/cypher/schema/models.py\<close>): the
  data classes that the YAML files are read into and their validators.  Reading YAML and the
  declared field types belong to the schema library; a value of a record here is a value whose
  fields have their declared types, and the \<open>validate\<close> functions are the checks written in the
  classes.  \<open>GraphQueryPolicy.validate_bom_as_of_date\<close> (ISO dates) and node sources are left out.
\<close>

record column_schema =
  col_type :: string
  col_primary_key :: bool
  col_nullable :: bool
  col_aliases :: "string list"

record table_schema =
  tbl_aliases :: "string list"
  tbl_columns :: "(string, column_schema) dict"
  tbl_output_aliases :: "(string, string list) dict"

record join_schema =
  from_column :: string
  to_column :: string

record sql_schema =
  ss_tables :: "(string, table_schema) dict"
  ss_joins :: "join_schema list"

record property_schema =
  prop_type :: string
  prop_required :: bool
  prop_aliases :: "string list"

record node_schema =
  nd_aliases :: "string list"
  nd_properties :: "(string, property_schema) dict"
  nd_unique_key :: "string option"
  nd_output_aliases :: "(string, string list) dict"

record relationship_schema =
  rel_from :: string
  rel_to :: string
  rel_aliases :: "string list"
  rel_properties :: "(string, property_schema) dict"
  rel_output_aliases :: "(string, string list) dict"

record graph_query_policy =
  bom_as_of_date :: string
  bom_max_depth :: int

record graph_schema =
  gs_nodes :: "(string, node_schema) dict"
  gs_relationships :: "(string, relationship_schema) dict"
  gs_query_policy :: "graph_query_policy option"

datatype endpoint = FromEnd | ToEnd

datatype schema_error =
    OutputAliasesUnknown "string list"
  | OutputAliasesNotUnique
  | NoTables
  | NoNodes
  | NonPositiveDepth
  | InvalidJoinEndpoint nat endpoint string
  | UnknownJoinTable nat endpoint string
  | UnknownJoinColumn nat endpoint string
  | UnknownSourceNode string string
  | UnknownTargetNode string string

subsection \<open>Output aliases\<close>

text \<open>The validator that tables, nodes and relationships share.\<close>

definition validate_output_aliases :: "string list \<Rightarrow> (string, string list) dict \<Rightarrow> schema_error + unit" where
  "validate_output_aliases owned output_aliases =
     (let unknown = filter (\<lambda>f. f \<notin> set owned) (dict_keys output_aliases);
          aliases = concat (map snd output_aliases)
      in if unknown \<noteq> [] then Inl (OutputAliasesUnknown (sort unknown))
         else if list_ex blank aliases \<or> \<not> distinct aliases then Inl OutputAliasesNotUnique
         else Inr ())"

definition validate_table :: "table_schema \<Rightarrow> schema_error + unit" where
  "validate_table t = validate_output_aliases (dict_keys (tbl_columns t)) (tbl_output_aliases t)"

definition validate_node :: "node_schema \<Rightarrow> schema_error + unit" where
  "validate_node n = validate_output_aliases (dict_keys (nd_properties n)) (nd_output_aliases n)"

definition validate_relationship :: "relationship_schema \<Rightarrow> schema_error + unit" where
  "validate_relationship r = validate_output_aliases (dict_keys (rel_properties r)) (rel_output_aliases r)"

subsection \<open>References between tables and between nodes\<close>

fun split_on :: "char \<Rightarrow> string \<Rightarrow> string list" where
  "split_on c [] = [[]]"
| "split_on c (x # xs) = (if x = c then [] # split_on c xs
     else (case split_on c xs of [] \<Rightarrow> [[x]] | p # ps \<Rightarrow> (x # p) # ps))"

definition validate_join_endpoint ::
    "(string, table_schema) dict \<Rightarrow> nat \<Rightarrow> endpoint \<Rightarrow> string \<Rightarrow> schema_error + unit" where
  "validate_join_endpoint tables index end_name endpoint = (case split_on CHR ''.'' endpoint of
     [schema, table, column] \<Rightarrow>
       if schema = [] \<or> table = [] \<or> column = [] then Inl (InvalidJoinEndpoint index end_name endpoint)
       else (case map_of tables (schema @ ''.'' @ table) of
           None \<Rightarrow> Inl (UnknownJoinTable index end_name (schema @ ''.'' @ table))
         | Some t \<Rightarrow>
             if column \<notin> set (dict_keys (tbl_columns t))
             then Inl (UnknownJoinColumn index end_name endpoint) else Inr ())
   | _ \<Rightarrow> Inl (InvalidJoinEndpoint index end_name endpoint))"

definition validate_join :: "(string, table_schema) dict \<Rightarrow> nat \<times> join_schema \<Rightarrow> schema_error + unit" where
  "validate_join tables = (\<lambda>(index, join).
     rbind (validate_join_endpoint tables index FromEnd (from_column join)) (\<lambda>_.
       validate_join_endpoint tables index ToEnd (to_column join)))"

definition validate_sql_schema :: "sql_schema \<Rightarrow> schema_error + unit" where
  "validate_sql_schema s =
     rbind (rmap (\<lambda>(_, t). validate_table t) (ss_tables s)) (\<lambda>_.
       if ss_tables s = [] then Inl NoTables
       else rbind (rmap (validate_join (ss_tables s)) (enumerate 0 (ss_joins s))) (\<lambda>_. Inr ()))"

definition validate_relationship_reference ::
    "(string, node_schema) dict \<Rightarrow> string \<times> relationship_schema \<Rightarrow> schema_error + unit" where
  "validate_relationship_reference nodes = (\<lambda>(name, r).
     if rel_from r \<notin> set (dict_keys nodes) then Inl (UnknownSourceNode name (rel_from r))
     else if rel_to r \<notin> set (dict_keys nodes) then Inl (UnknownTargetNode name (rel_to r))
     else Inr ())"

definition validate_graph_schema :: "graph_schema \<Rightarrow> schema_error + unit" where
  "validate_graph_schema g =
     rbind (rmap (\<lambda>(_, n). validate_node n) (gs_nodes g)) (\<lambda>_.
     rbind (rmap (\<lambda>(_, r). validate_relationship r) (gs_relationships g)) (\<lambda>_.
       if gs_nodes g = [] then Inl NoNodes
       else if (case gs_query_policy g of None \<Rightarrow> False | Some p \<Rightarrow> bom_max_depth p \<le> 0) then Inl NonPositiveDepth
       else rbind (rmap (validate_relationship_reference (gs_nodes g)) (gs_relationships g)) (\<lambda>_. Inr ())))"

subsection \<open>What the validators accept\<close>

lemma split_on_not_Nil [simp]: "split_on c s \<noteq> []"
  by (cases s) (auto split: list.splits)

text \<open>\<open>join\<close> is a left inverse of \<open>split\<close>, so an endpoint with three parts is exactly \<open>a.b.c\<close>.\<close>

lemma split_on_append:
  "c \<notin> set a \<Longrightarrow> split_on c (a @ c # b) = a # split_on c b"
  by (induction a) auto

lemma split_on_single: "c \<notin> set a \<Longrightarrow> split_on c a = [a]"
  by (induction a) auto

lemma split_on_Cons: "split_on c s = p # ps \<Longrightarrow> c \<notin> set p \<and> s = (if ps = [] then p else p @ c # concat (map (\<lambda>q. q @ [c]) (butlast ps)) @ last ps)"
proof (induction s arbitrary: p ps)
  case Nil
  then show ?case by simp
next
  case (Cons x s)
  show ?case
  proof (cases "x = c")
    case True
    with Cons.prems have "p = []" "ps = split_on c s" by auto
    moreover obtain q qs where "split_on c s = q # qs" by (cases "split_on c s") auto
    moreover from Cons.IH[OF this] True have "s = (if qs = [] then q else q @ c # concat (map (\<lambda>q. q @ [c]) (butlast qs)) @ last qs)"
      by simp
    ultimately show ?thesis using True by auto
  next
    case False
    obtain q qs where q: "split_on c s = q # qs" by (cases "split_on c s") auto
    with Cons.prems False have "p = x # q" "ps = qs" by auto
    with Cons.IH[OF q] False show ?thesis by auto
  qed
qed

lemma split_on_three_iff:
  "split_on c s = [x, y, z] \<longleftrightarrow> s = x @ c # y @ c # z \<and> c \<notin> set x \<and> c \<notin> set y \<and> c \<notin> set z"
proof
  assume s: "split_on c s = [x, y, z]"
  from split_on_Cons[OF s] have sx: "c \<notin> set x" "s = x @ c # y @ c # z" by auto
  from sx s have "split_on c (y @ c # z) = [y, z]" by (simp add: split_on_append)
  moreover from split_on_Cons[OF this] have "c \<notin> set y" by simp
  ultimately have "split_on c z = [z]" by (simp add: split_on_append)
  from split_on_Cons[OF this] have "c \<notin> set z" by simp
  with sx \<open>c \<notin> set y\<close> show "s = x @ c # y @ c # z \<and> c \<notin> set x \<and> c \<notin> set y \<and> c \<notin> set z" by simp
qed (auto simp: split_on_append split_on_single)

definition column_path :: "(string, table_schema) dict \<Rightarrow> string \<Rightarrow> bool" where
  "column_path tables path \<longleftrightarrow> (\<exists>schema table column t. path = schema @ ''.'' @ table @ ''.'' @ column \<and>
     schema \<noteq> [] \<and> table \<noteq> [] \<and> column \<noteq> [] \<and>
     CHR ''.'' \<notin> set schema \<and> CHR ''.'' \<notin> set table \<and> CHR ''.'' \<notin> set column \<and>
     map_of tables (schema @ ''.'' @ table) = Some t \<and> column \<in> set (dict_keys (tbl_columns t)))"

lemma validate_join_endpoint_iff:
  "validate_join_endpoint tables i e path = Inr () \<longleftrightarrow> column_path tables path"
proof (cases "\<exists>x y z. split_on CHR ''.'' path = [x, y, z]")
  case True
  then obtain x y z where xyz: "split_on CHR ''.'' path = [x, y, z]" by blast
  then have path: "path = x @ CHR ''.'' # y @ CHR ''.'' # z" by (simp add: split_on_three_iff)
  have "column_path tables path \<longleftrightarrow> (\<exists>schema table column t. split_on CHR ''.'' path = [schema, table, column] \<and>
     schema \<noteq> [] \<and> table \<noteq> [] \<and> column \<noteq> [] \<and>
     map_of tables (schema @ ''.'' @ table) = Some t \<and> column \<in> set (dict_keys (tbl_columns t)))"
    by (auto simp: column_path_def split_on_three_iff)
  also have "\<dots> \<longleftrightarrow> validate_join_endpoint tables i e path = Inr ()"
    by (auto simp: validate_join_endpoint_def xyz split: option.splits)
  finally show ?thesis by simp
next
  case False
  then have "validate_join_endpoint tables i e path \<noteq> Inr ()"
    by (auto simp: validate_join_endpoint_def split: list.splits)
  moreover from False have "\<not> column_path tables path"
    by (auto simp: column_path_def split_on_three_iff)
  ultimately show ?thesis by simp
qed

lemma validate_output_aliases_iff:
  "validate_output_aliases owned d = Inr () \<longleftrightarrow>
     set (dict_keys d) \<subseteq> set owned \<and> \<not> list_ex blank (concat (map snd d)) \<and> distinct (concat (map snd d))"
  by (auto simp: validate_output_aliases_def Let_def filter_empty_conv split: if_splits)

lemma enumerate_pairs: "(\<forall>x \<in> set (enumerate n xs). P (snd x)) \<longleftrightarrow> (\<forall>x \<in> set xs. P x)"
  by (induction xs arbitrary: n) auto

lemma validate_join_iff:
  "validate_join tables x = Inr () \<longleftrightarrow>
     column_path tables (from_column (snd x)) \<and> column_path tables (to_column (snd x))"
  by (auto simp: validate_join_def result_simps validate_join_endpoint_iff split: prod.splits)

lemma validate_sql_schema_iff:
  "validate_sql_schema s = Inr () \<longleftrightarrow>
     ss_tables s \<noteq> [] \<and> (\<forall>x \<in> set (ss_tables s). validate_table (snd x) = Inr ()) \<and>
     (\<forall>j \<in> set (ss_joins s). column_path (ss_tables s) (from_column j) \<and> column_path (ss_tables s) (to_column j))"
proof -
  let ?P = "\<lambda>j. column_path (ss_tables s) (from_column j) \<and> column_path (ss_tables s) (to_column j)"
  show ?thesis
    unfolding validate_sql_schema_def enumerate_pairs[of 0 _ ?P, symmetric]
    by (auto simp: result_simps rmap_unit_iff ex_unit_list case_prod_beta' validate_join_iff)
qed

lemma validated_graph_schema:
  assumes "validate_graph_schema g = Inr ()"
  shows "\<forall>(_, n) \<in> set (gs_nodes g). validate_node n = Inr ()"
    and "\<forall>(_, r) \<in> set (gs_relationships g). validate_relationship r = Inr () \<and>
           rel_from r \<in> set (dict_keys (gs_nodes g)) \<and> rel_to r \<in> set (dict_keys (gs_nodes g))"
  using assms
  by (auto simp: validate_graph_schema_def result_simps rmap_unit_iff validate_relationship_reference_def
      split: if_splits)

end
