(* ===== verification/Query_Guards.thy ===== *)
theory Query_Guards
  imports Query_Failures Schema_Models
begin

text \<open>
  The text guards in front of the databases: the masking of literals and comments and the keyword
  sets shared with the evaluation harness (\<open>orchestrator/guards/shared.py\<close>), the Cypher guard
  (\<open>orchestrator/guards/cypher_guard.py\<close>) and the harness's own read-only check
  (\<open>evaluation/safety.py\<close>).  The index loops of the sources are recursions on the remaining text;
  each helper returns what is left after the region it skips.
\<close>

definition SQL_WRITE_KEYWORDS :: "string list" where
  "SQL_WRITE_KEYWORDS = [''ALTER'', ''ANALYZE'', ''CALL'', ''CLUSTER'', ''COMMENT'', ''COPY'', ''CREATE'',
     ''DELETE'', ''DO'', ''DROP'', ''EXECUTE'', ''GRANT'', ''INTO'', ''INSERT'', ''LOCK'', ''MERGE'',
     ''REFRESH'', ''REINDEX'', ''REVOKE'', ''TRUNCATE'', ''UPDATE'', ''VACUUM'']"

definition CYPHER_WRITE_KEYWORDS :: "string list" where
  "CYPHER_WRITE_KEYWORDS = [''CALL'', ''CREATE'', ''DELETE'', ''DETACH'', ''DROP'', ''FOREACH'', ''LOAD'',
     ''MERGE'', ''REMOVE'', ''SET'']"

definition is_newline :: "char \<Rightarrow> bool" where
  "is_newline c \<longleftrightarrow> (let n = code c in n = 10 \<or> n = 13)"

definition is_quote :: "char \<Rightarrow> bool" where
  "is_quote c \<longleftrightarrow> (let n = code c in n = 39 \<or> n = 34 \<or> n = 96)"

definition is_backslash :: "char \<Rightarrow> bool" where
  "is_backslash c \<longleftrightarrow> code c = 92"

definition starts :: "string \<Rightarrow> string \<Rightarrow> bool" where
  "starts p s \<longleftrightarrow> take (length p) s = p"

subsection \<open>Masking\<close>

fun mask_line :: "string \<Rightarrow> string \<times> string" where
  "mask_line [] = ([], [])"
| "mask_line (c # cs) = (if is_newline c then ([], c # cs)
     else case mask_line cs of (out, rest) \<Rightarrow> (CHR '' '' # out, rest))"

fun mask_block :: "string \<Rightarrow> string \<times> string" where
  "mask_block [] = ([], [])"
| "mask_block (c # cs) = (if starts ''*/'' (c # cs) then (''  '', tl cs)
     else case mask_block cs of (out, rest) \<Rightarrow> (CHR '' '' # out, rest))"

fun mask_quoted :: "char \<Rightarrow> string \<Rightarrow> string \<times> string" where
  "mask_quoted q [] = ([], [])"
| "mask_quoted q [c] = ([CHR '' ''], [])"
| "mask_quoted q (c # d # cs) =
     (if c = q
      then if d = q
        then (case mask_quoted q cs of (out, rest) \<Rightarrow> (CHR '' '' # CHR '' '' # out, rest))
        else ([CHR '' ''], d # cs)
      else if is_backslash c
        then (case mask_quoted q cs of (out, rest) \<Rightarrow> (CHR '' '' # CHR '' '' # out, rest))
        else (case mask_quoted q (d # cs) of (out, rest) \<Rightarrow> (CHR '' '' # out, rest)))"

lemma mask_line_rest: "length (snd (mask_line cs)) \<le> length cs"
  by (induction cs) (auto split: prod.splits)

lemma mask_block_rest: "length (snd (mask_block cs)) \<le> length cs"
  by (induction cs) (auto split: prod.splits)

lemma mask_quoted_rest: "length (snd (mask_quoted q cs)) \<le> length cs"
proof (induction q cs rule: mask_quoted.induct)
  case (3 q c d cs)
  then show ?case by (cases "c = q"; cases "d = q"; cases "is_backslash c") (auto split: prod.splits)
qed auto

lemma mask_rest_less:
  "mask_line (tl cs) = (out, rest) \<Longrightarrow> length rest < Suc (length cs)"
  "mask_block (tl cs) = (out, rest) \<Longrightarrow> length rest < Suc (length cs)"
  "mask_quoted q cs = (out, rest) \<Longrightarrow> length rest < Suc (length cs)"
  using mask_line_rest[of "tl cs"] mask_block_rest[of "tl cs"] mask_quoted_rest[of q cs] by (cases cs; simp)+

function mask_query_text :: "string \<Rightarrow> string" where
  "mask_query_text [] = []"
| "mask_query_text (c # cs) =
     (if starts ''--'' (c # cs)
      then (case mask_line (tl cs) of (out, rest) \<Rightarrow> out @ mask_query_text rest)
      else if starts ''//'' (c # cs)
      then (case mask_line (tl cs) of (out, rest) \<Rightarrow> out @ mask_query_text rest)
      else if starts ''/*'' (c # cs)
      then (case mask_block (tl cs) of (out, rest) \<Rightarrow> out @ mask_query_text rest)
      else if is_quote c
      then (case mask_quoted c cs of (out, rest) \<Rightarrow> CHR '' '' # out @ mask_query_text rest)
      else c # mask_query_text cs)"
  by pat_completeness auto
termination by (relation "measure length") (auto dest: mask_rest_less mask_rest_less[OF sym])

text \<open>
  The maximal runs of word characters.  A keyword between two word boundaries is one of them, which
  is what the regular expressions of the guards look for, ignoring case.
\<close>

fun word_runs_from :: "string \<Rightarrow> string \<Rightarrow> string list" where
  "word_runs_from acc [] = (if acc = [] then [] else [rev acc])"
| "word_runs_from acc (c # cs) =
     (if is_word c then word_runs_from (c # acc) cs
      else (if acc = [] then [] else [rev acc]) @ word_runs_from [] cs)"

definition word_runs :: "string \<Rightarrow> string list" where
  "word_runs s = word_runs_from [] s"

definition has_keyword :: "string list \<Rightarrow> string \<Rightarrow> bool" where
  "has_keyword keywords s \<longleftrightarrow> list_ex (\<lambda>w. map ascii_upper w \<in> set keywords) (word_runs s)"

subsection \<open>Label and relationship references\<close>

definition is_label_space :: "char \<Rightarrow> bool" where
  "is_label_space c \<longleftrightarrow> (let n = code c in n = 32 \<or> n = 9 \<or> n = 13 \<or> n = 10)"

definition backtick :: char where "backtick = char_of (96 :: nat)"

text \<open>The text before and after the next backtick.\<close>

definition after_backtick :: "string \<Rightarrow> (string \<times> string) option" where
  "after_backtick s = split_once backtick s"

fun after_block :: "string \<Rightarrow> string" where
  "after_block [] = []"
| "after_block (c # cs) = (if starts ''*/'' (c # cs) then tl cs else after_block cs)"

fun after_string :: "char \<Rightarrow> string \<Rightarrow> string" where
  "after_string q [] = []"
| "after_string q [c] = []"
| "after_string q (c # d # cs) =
     (if c = q then d # cs else if is_backslash c then after_string q cs else after_string q (d # cs))"

definition label_operator :: "char \<Rightarrow> bool" where
  "label_operator c \<longleftrightarrow> c \<in> set ''!%(''"

definition label_joiner :: "char \<Rightarrow> bool" where
  "label_joiner c \<longleftrightarrow> c \<in> set ''|&''"

text \<open>One name of a label expression: \<open>None\<close> when it cannot be read, with the text that is left.\<close>

definition label_name :: "string \<Rightarrow> string option \<times> string" where
  "label_name s = (let r = dropWhile is_label_space s in
     (case r of
        [] \<Rightarrow> (None, [])
      | c # cs \<Rightarrow>
          if c = backtick
          then (case after_backtick cs of None \<Rightarrow> (None, []) | Some (name, rest) \<Rightarrow> (Some name, rest))
          else if label_operator c then (None, r)
          else if is_word c then (Some (takeWhile is_word r), dropWhile is_word r)
          else (None, r)))"

lemma label_name_rest: "label_name s = (Some n, r) \<Longrightarrow> length r < length s \<or> s = []"
proof -
  assume n: "label_name s = (Some n, r)"
  let ?d = "dropWhile is_label_space s"
  have le: "length ?d \<le> length s" by (rule length_dropWhile_le)
  show ?thesis
  proof (cases ?d)
    case Nil
    with n show ?thesis by (simp add: label_name_def Let_def)
  next
    case (Cons c cs)
    have "length r \<le> length cs"
    proof (cases "c = backtick")
      case True
      with n Cons show ?thesis
        by (auto simp: label_name_def Let_def after_backtick_def split: option.splits dest!: split_once_SomeD)
    next
      case False
      with n Cons have "is_word c" "r = dropWhile is_word cs"
        by (auto simp: label_name_def Let_def split: if_splits)
      then show ?thesis by (simp add: length_dropWhile_le)
    qed
    with le Cons show ?thesis by simp
  qed
qed

text \<open>The label expression after a colon: the names, whether it stayed unresolved, what is left.\<close>

function label_expr :: "string \<Rightarrow> string list \<times> bool \<times> string" where
  "label_expr s = (case label_name s of
     (None, rest) \<Rightarrow> ([], True, rest)
   | (Some name, rest) \<Rightarrow>
       (case dropWhile is_label_space rest of
          x # l \<Rightarrow>
            if label_joiner x
            then (case label_expr l of (names, u, r) \<Rightarrow> (name # names, u, r))
            else ([name], False, rest)
        | [] \<Rightarrow> ([name], False, rest)))"
  by auto
termination
proof (relation "measure length", goal_cases)
  case 1
  then show ?case by simp
next
  case (2 s nm rest name x l)
  then have "length (x # l) \<le> length rest" using length_dropWhile_le[of is_label_space rest] by simp
  moreover have "length rest < length s \<or> s = []" using label_name_rest[of s name rest] 2 by simp
  moreover have "s \<noteq> []" using 2 by (auto simp: label_name_def)
  ultimately show ?case by simp
qed

declare label_expr.simps [simp del]

definition SUBQUERY_OPENERS :: "string list" where
  "SUBQUERY_OPENERS = [''EXISTS'', ''COUNT'', ''COLLECT'']"

text \<open>The word in front of a brace; the text before the brace is kept reversed.\<close>

definition opens_subquery :: "string \<Rightarrow> bool" where
  "opens_subquery seen \<longleftrightarrow>
     map ascii_upper (rev (takeWhile is_word (dropWhile is_space seen))) \<in> set SUBQUERY_OPENERS"

definition map_projection_start :: "string \<Rightarrow> bool" where
  "map_projection_start s = (let r = dropWhile is_space s in
     (case r of
        [] \<Rightarrow> False
      | c # cs \<Rightarrow>
          if c = CHR ''.'' then (case cs of d # _ \<Rightarrow> is_word d | [] \<Rightarrow> False)
          else is_word c \<and> (case dropWhile is_space (dropWhile is_word r) of
              d # _ \<Rightarrow> d \<in> set '':,}'' | [] \<Rightarrow> False)))"

definition consumed :: "string \<Rightarrow> string \<Rightarrow> string \<Rightarrow> string" where
  "consumed seen s rest = rev (take (length s - length rest) s) @ seen"

lemma label_name_le: "length (snd (label_name s)) \<le> length s"
proof (cases "fst (label_name s)")
  case None
  then have "snd (label_name s) = [] \<or> snd (label_name s) = dropWhile is_label_space s"
    by (cases "dropWhile is_label_space s")
       (auto simp: label_name_def Let_def split: if_splits option.splits simp del: dropWhile_eq_Nil_conv)
  then show ?thesis by (auto simp: length_dropWhile_le)
next
  case (Some n)
  then have "label_name s = (Some n, snd (label_name s))" by (simp add: prod_eq_iff)
  from label_name_rest[OF this] Some show ?thesis by (auto simp: label_name_def)
qed

lemma label_expr_rest: "length (snd (snd (label_expr s))) \<le> length s"
proof (induction "length s" arbitrary: s rule: less_induct)
  case less
  obtain nm rest where n: "label_name s = (nm, rest)" by (cases "label_name s")
  with label_name_le[of s] have le: "length rest \<le> length s" by simp
  show ?case
  proof (cases "\<exists>name x l. nm = Some name \<and> dropWhile is_label_space rest = x # l \<and> label_joiner x")
    case True
    then obtain name x l where l: "nm = Some name" "dropWhile is_label_space rest = x # l" "label_joiner x"
      by blast
    have "length (x # l) \<le> length rest" using length_dropWhile_le[of is_label_space rest] l(2) by simp
    with le have "length l < length s" by simp
    with less[of l] n l show ?thesis by (auto simp: label_expr.simps[of s] split: prod.splits)
  next
    case False
    with n le show ?thesis by (auto simp: label_expr.simps[of s] split: option.splits list.splits)
  qed
qed

lemma label_expr_le: "label_expr s = (names, u, r) \<Longrightarrow> length r \<le> length s"
  using label_expr_rest[of s] by simp

text \<open>
  \<open>_extract_label_and_type_references\<close>: the text already read (reversed), the rest, and the stack that
  says of each open brace whether it is a map, whose colons are not labels.
\<close>

lemma after_block_le: "length (after_block cs) \<le> length cs"
  by (induction cs) auto

lemma after_string_le: "length (after_string q cs) \<le> length cs"
  by (induction q cs rule: after_string.induct) auto

function scan_references :: "string \<Rightarrow> string \<Rightarrow> bool list \<Rightarrow> string list \<times> bool" where
  "scan_references seen [] stack = ([], False)"
| "scan_references seen (c # cs) stack =
     (if starts ''//'' (c # cs)
      then let r = dropWhile (\<lambda>x. \<not> is_newline x) (tl cs) in
        scan_references (consumed seen (c # cs) r) r stack
      else if starts ''/*'' (c # cs)
      then let r = after_block (tl cs) in scan_references (consumed seen (c # cs) r) r stack
      else if code c = 39 \<or> code c = 34
      then let r = after_string c cs in scan_references (consumed seen (c # cs) r) r stack
      else if c = backtick
      then (case after_backtick cs of
          None \<Rightarrow> ([], True)
        | Some (_, r) \<Rightarrow> scan_references (consumed seen (c # cs) r) r stack)
      else if c = CHR ''{''
      then scan_references (c # seen) cs ((\<not> (opens_subquery seen \<and> \<not> map_projection_start cs)) # stack)
      else if c = CHR ''}'' then scan_references (c # seen) cs (tl stack)
      else if c = CHR '':'' \<and> (stack = [] \<or> \<not> hd stack)
      then (case label_expr cs of (names, u, r) \<Rightarrow>
          (case scan_references (consumed seen (c # cs) r) r stack of (ns, v) \<Rightarrow> (names @ ns, u \<or> v)))
      else scan_references (c # seen) cs stack)"
  by pat_completeness auto
termination
proof (relation "measure (\<lambda>(_, s, _). length s)", goal_cases)
  case (2 seen c cs stack x)
  then show ?case using length_dropWhile_le[of "\<lambda>x. \<not> is_newline x" "tl cs"] by (cases cs) auto
next
  case (3 seen c cs stack x)
  then show ?case using after_block_le[of "tl cs"] by (cases cs) auto
next
  case (4 seen c cs stack x)
  then show ?case using after_string_le[of c cs] by auto
next
  case 8
  then show ?case by (auto dest!: label_expr_le[OF sym])
qed (auto simp: after_backtick_def dest!: split_once_SomeD)

definition extract_label_and_type_references :: "string \<Rightarrow> string list \<times> bool" where
  "extract_label_and_type_references cypher = scan_references [] cypher []"

definition cypher_guard :: "graph_schema \<Rightarrow> string \<Rightarrow> guard_result" where
  "cypher_guard schema cypher =
     (if has_keyword CYPHER_WRITE_KEYWORDS (mask_query_text cypher)
      then \<lparr>gr_allowed = False, gr_reason_code = Some ''WRITE_KEYWORD_DETECTED''\<rparr>
      else (case extract_label_and_type_references cypher of (names, unresolved) \<Rightarrow>
        if unresolved then \<lparr>gr_allowed = False, gr_reason_code = Some ''UNRECOGNIZED_LABEL_SYNTAX''\<rparr>
        else if \<not> set names \<subseteq> set (dict_keys (gs_nodes schema)) \<union> set (dict_keys (gs_relationships schema))
        then \<lparr>gr_allowed = False, gr_reason_code = Some ''UNKNOWN_LABEL_OR_RELATIONSHIP''\<rparr>
        else \<lparr>gr_allowed = True, gr_reason_code = None\<rparr>))"

subsection \<open>The read-only check of the evaluation harness\<close>

datatype safety_error =
    EmptyQuery
  | NulCharacter
  | MultipleStatements
  | NoStatement
  | BadStart
  | ForbiddenKeyword string

text \<open>The runs of ASCII letters and underscores.\<close>

fun letter_runs_from :: "string \<Rightarrow> string \<Rightarrow> string list" where
  "letter_runs_from acc [] = (if acc = [] then [] else [rev acc])"
| "letter_runs_from acc (c # cs) =
     (if is_letter_or_underscore c then letter_runs_from (c # acc) cs
      else (if acc = [] then [] else [rev acc]) @ letter_runs_from [] cs)"

definition rstrip :: "string \<Rightarrow> string" where
  "rstrip s = rev (dropWhile is_space (rev s))"

definition drop_semicolon :: "string \<Rightarrow> string" where
  "drop_semicolon s = (if s \<noteq> [] \<and> last s = CHR '';'' then rstrip (butlast s) else s)"

text \<open>\<open>str.upper\<close> as far as ASCII letters can come out of it: only the sharp s expands to some.\<close>

definition upper_text :: "string \<Rightarrow> string" where
  "upper_text s = concat (map (\<lambda>c. if code c = 223 then ''SS'' else [ascii_upper c]) s)"

definition validate_single_statement :: "string \<Rightarrow> safety_error + (string \<times> string list)" where
  "validate_single_statement query =
     (if blank query then Inl EmptyQuery
      else if CHR 0x00 \<in> set query then Inl NulCharacter
      else let masked = drop_semicolon (strip (mask_query_text query)) in
        if CHR '';'' \<in> set masked then Inl MultipleStatements
        else (case letter_runs_from [] (upper_text masked) of
            [] \<Rightarrow> Inl NoStatement
          | t # ts \<Rightarrow> Inr (t, t # ts)))"

definition validate_read_only :: "string list \<Rightarrow> string list \<Rightarrow> string \<Rightarrow> safety_error + unit" where
  "validate_read_only starts_with forbidden query =
     rbind (validate_single_statement query) (\<lambda>(first, tokens).
       if first \<notin> set starts_with then Inl BadStart
       else (case sort (filter (\<lambda>t. t \<in> set forbidden) tokens) of
           [] \<Rightarrow> Inr ()
         | k # _ \<Rightarrow> Inl (ForbiddenKeyword k)))"

definition validate_read_only_sql :: "string \<Rightarrow> safety_error + unit" where
  "validate_read_only_sql = validate_read_only [''SELECT'', ''WITH''] SQL_WRITE_KEYWORDS"

definition validate_read_only_cypher :: "string \<Rightarrow> safety_error + unit" where
  "validate_read_only_cypher =
     validate_read_only [''MATCH'', ''OPTIONAL'', ''RETURN'', ''UNWIND'', ''WITH''] CYPHER_WRITE_KEYWORDS"

subsection \<open>What masking keeps\<close>

text \<open>
  A query as a sequence of segments: code characters, comments (with their marker), and quoted texts
  whose contents are plain characters, doubled quotes and backslash pairs.
\<close>

datatype quoted_item = Chr char | Doubled | Escaped char

datatype segment =
    CodeChar char
  | LineComment bool string
  | BlockComment string
  | QuotedText char "quoted_item list"

fun item_text :: "char \<Rightarrow> quoted_item \<Rightarrow> string" where
  "item_text q (Chr c) = [c]"
| "item_text q Doubled = [q, q]"
| "item_text q (Escaped c) = [CHR 0x5C, c]"

fun segment_text :: "segment \<Rightarrow> string" where
  "segment_text (CodeChar c) = [c]"
| "segment_text (LineComment dashes body) = (if dashes then ''--'' else ''//'') @ body"
| "segment_text (BlockComment body) = ''/*'' @ body @ ''*/''"
| "segment_text (QuotedText q items) = [q] @ concat (map (item_text q) items) @ [q]"

fun segment_mask :: "segment \<Rightarrow> string" where
  "segment_mask (CodeChar c) = [c]"
| "segment_mask (LineComment dashes body) = replicate (length body) CHR '' ''"
| "segment_mask (BlockComment body) = replicate (length body + 2) CHR '' ''"
| "segment_mask (QuotedText q items) =
     replicate (length (concat (map (item_text q) items)) + 2) CHR '' ''"

fun item_ok :: "char \<Rightarrow> quoted_item \<Rightarrow> bool" where
  "item_ok q (Chr c) \<longleftrightarrow> c \<noteq> q \<and> \<not> is_backslash c"
| "item_ok q Doubled \<longleftrightarrow> True"
| "item_ok q (Escaped c) \<longleftrightarrow> True"

definition segments_text :: "segment list \<Rightarrow> string" where
  "segments_text segs = concat (map segment_text segs)"

fun block_ends :: "string \<Rightarrow> bool" where
  "block_ends [] = True"
| "block_ends (c # cs) = (\<not> starts ''*/'' (c # cs @ ''*/'') \<and> block_ends cs)"

fun segments_ok :: "segment list \<Rightarrow> bool" where
  "segments_ok [] = True"
| "segments_ok (CodeChar c # segs) = (\<not> is_quote c \<and> \<not> starts ''--'' (c # segments_text segs) \<and>
     \<not> starts ''//'' (c # segments_text segs) \<and> \<not> starts ''/*'' (c # segments_text segs) \<and> segments_ok segs)"
| "segments_ok (LineComment dashes body # segs) = (list_all (\<lambda>c. \<not> is_newline c) body \<and>
     (case segments_text segs of [] \<Rightarrow> True | c # _ \<Rightarrow> is_newline c) \<and> segments_ok segs)"
| "segments_ok (BlockComment body # segs) = (block_ends body \<and> segments_ok segs)"
| "segments_ok (QuotedText q items # segs) = (is_quote q \<and> list_all (item_ok q) items \<and>
     (case segments_text segs of [] \<Rightarrow> True | c # _ \<Rightarrow> c \<noteq> q) \<and> segments_ok segs)"

lemma mask_line_body:
  "list_all (\<lambda>c. \<not> is_newline c) body \<Longrightarrow> (case rest of [] \<Rightarrow> True | c # _ \<Rightarrow> is_newline c) \<Longrightarrow>
     mask_line (body @ rest) = (replicate (length body) CHR '' '', rest)"
proof (induction body)
  case Nil
  then show ?case by (cases rest) auto
qed auto

lemma starts_append: "starts ''*/'' (c # cs @ ''*/'' @ rest) \<longleftrightarrow> starts ''*/'' (c # cs @ ''*/'')"
  by (cases cs) (auto simp: starts_def)

lemma mask_block_body:
  "block_ends body \<Longrightarrow> mask_block (body @ ''*/'' @ rest) = (replicate (length body + 2) CHR '' '', rest)"
proof (induction body)
  case Nil
  then show ?case by (simp add: starts_def)
next
  case (Cons c cs)
  have "\<not> starts ''*/'' (c # cs @ ''*/'')" using Cons.prems by simp
  then have "\<not> starts ''*/'' (c # cs @ ''*/'' @ rest)" by (simp only: starts_append not_False_eq_True)
  moreover have "mask_block (cs @ ''*/'' @ rest) = (replicate (length cs + 2) CHR '' '', rest)"
    using Cons by simp
  ultimately show ?case by simp
qed

lemma is_backslash_5C [simp]: "is_backslash CHR 0x5C"
  by (simp add: is_backslash_def code_def)

lemma quote_not_backslash: "is_quote q \<Longrightarrow> \<not> is_backslash q"
  by (auto simp: is_quote_def is_backslash_def Let_def)

lemma mask_quoted_body:
  assumes "is_quote q" and "case rest of [] \<Rightarrow> True | c # _ \<Rightarrow> c \<noteq> q"
  shows "list_all (item_ok q) items \<Longrightarrow> mask_quoted q (concat (map (item_text q) items) @ q # rest) =
     (replicate (length (concat (map (item_text q) items)) + 1) CHR '' '', rest)"
proof (induction items)
  case Nil
  with assms show ?case by (cases rest) auto
next
  case (Cons i items)
  obtain d ds where tail: "concat (map (item_text q) items) @ q # rest = d # ds"
    by (cases "concat (map (item_text q) items) @ q # rest") auto
  have bs: "CHR 0x5C \<noteq> q" using quote_not_backslash[OF assms(1)] by auto
  show ?case
  proof (cases i)
    case (Chr c)
    with Cons tail show ?thesis by (simp del: map_append)
  next
    case Doubled
    with Cons tail show ?thesis by simp
  next
    case (Escaped c)
    with Cons tail bs show ?thesis by simp
  qed
qed

lemma mask_segments:
  "segments_ok segs \<Longrightarrow> mask_query_text (segments_text segs) = concat (map segment_mask segs)"
proof (induction segs rule: segments_ok.induct)
  case 1
  then show ?case by (simp add: segments_text_def)
next
  case (2 c segs)
  then show ?case by (simp add: segments_text_def)
next
  case (3 dashes body segs)
  let ?r = "segments_text segs"
  have "mask_line (body @ ?r) = (replicate (length body) CHR '' '', ?r)"
    using 3(2) by (intro mask_line_body) auto
  with 3 show ?case by (cases dashes) (simp_all add: segments_text_def starts_def)
next
  case (4 body segs)
  with mask_block_body[of body "segments_text segs"] show ?case
    by (simp add: segments_text_def starts_def)
next
  case (5 q items segs)
  have q: "\<not> starts ''--'' (q # x)" "\<not> starts ''//'' (q # x)" "\<not> starts ''/*'' (q # x)" for x
    using 5(2) by (auto simp: starts_def is_quote_def code_def)
  from 5 mask_quoted_body[of q "segments_text segs" items] show ?case
    by (simp add: segments_text_def q)
qed


subsection \<open>No label is overlooked\<close>

text \<open>Texts without literals, comments and braces.\<close>

definition plain_char :: "char \<Rightarrow> bool" where
  "plain_char c \<longleftrightarrow> \<not> is_quote c \<and> c \<noteq> CHR ''/'' \<and> c \<noteq> CHR ''{'' \<and> c \<noteq> CHR ''}''"

lemma backtick_quote: "is_quote backtick"
  by (simp add: is_quote_def backtick_def code_def)

lemma plain_not_backtick: "plain_char c \<Longrightarrow> c \<noteq> backtick"
  using backtick_quote by (auto simp: plain_char_def)

lemma colon_facts [simp]: "\<not> is_word CHR '':''" "\<not> is_label_space CHR '':''" "\<not> label_joiner CHR '':''"
  "plain_char CHR '':''"
  by (simp_all add: is_word_def is_label_space_def label_joiner_def plain_char_def is_quote_def
      code_def is_letter_or_underscore_def is_ascii_upper_def is_ascii_lower_def is_digit_def)

lemma colon_not_backtick [simp]: "CHR '':'' \<noteq> backtick"
  using plain_not_backtick[of "CHR '':''"] by simp

lemma word_not_space: "is_word c \<Longrightarrow> \<not> is_label_space c"
  by (auto simp: is_word_def is_label_space_def is_letter_or_underscore_def is_ascii_upper_def
      is_ascii_lower_def is_digit_def code_def Let_def)

lemma word_not_operator: "is_word c \<Longrightarrow> \<not> label_operator c"
  by (auto simp: is_word_def label_operator_def is_letter_or_underscore_def is_ascii_upper_def
      is_ascii_lower_def is_digit_def code_def Let_def)

lemma takeWhile_no_colon:
  "CHR '':'' \<notin> set (takeWhile is_word s)" "CHR '':'' \<notin> set (takeWhile is_label_space s)"
  using set_takeWhileD by fastforce+

lemma label_name_plain:
  assumes "list_all plain_char s" and "label_name s = (Some n, r)"
  shows "\<exists>pre. s = pre @ r \<and> CHR '':'' \<notin> set pre"
proof -
  let ?d = "dropWhile is_label_space s"
  have split: "s = takeWhile is_label_space s @ ?d" by simp
  have "set ?d \<subseteq> set s" by (meson set_dropWhileD subsetI)
  with assms(1) have "\<forall>c \<in> set ?d. c \<noteq> backtick" by (auto simp: list_all_iff dest: plain_not_backtick)
  then have "r = dropWhile is_word ?d"
    using assms(2) by (cases ?d) (auto simp: label_name_def Let_def split: if_splits simp del: dropWhile_eq_Nil_conv)
  then have "?d = takeWhile is_word ?d @ r" by simp
  with split have "s = (takeWhile is_label_space s @ takeWhile is_word ?d) @ r" by (metis append.assoc)
  then show ?thesis
    using takeWhile_no_colon by (intro exI[of _ "takeWhile is_label_space s @ takeWhile is_word ?d"]) auto
qed

lemma label_expr_plain:
  "list_all plain_char s \<Longrightarrow> label_expr s = (names, False, r) \<Longrightarrow> \<exists>pre. s = pre @ r \<and> CHR '':'' \<notin> set pre"
proof (induction "length s" arbitrary: s names r rule: less_induct)
  case less
  obtain n rest where n: "label_name s = (Some n, rest)"
    using less.prems(2) by (cases "label_name s") (auto simp: label_expr.simps[of s] split: option.splits)
  from label_name_plain[OF less.prems(1) n] obtain pre where pre: "s = pre @ rest" "CHR '':'' \<notin> set pre" by blast
  show ?case
  proof (cases "\<exists>x l. dropWhile is_label_space rest = x # l \<and> label_joiner x")
    case True
    then obtain x l where x: "dropWhile is_label_space rest = x # l" "label_joiner x" by blast
    let ?t = "takeWhile is_label_space rest"
    have rest: "rest = ?t @ x # l" using x(1) takeWhile_dropWhile_id[of is_label_space rest] by simp
    from n x less.prems(2) obtain names' where l: "label_expr l = (names', False, r)"
      by (auto simp: label_expr.simps[of s] split: prod.splits)
    have s: "s = pre @ ?t @ x # l" using pre(1) rest by simp
    have "list_all plain_char l" using less.prems(1) by (subst (asm) s) simp
    moreover have "length l < length s" by (subst s) simp
    ultimately obtain pre' where "l = pre' @ r" "CHR '':'' \<notin> set pre'" using less.hyps l by blast
    with pre rest x(2) takeWhile_no_colon(2) show ?thesis
      by (intro exI[of _ "pre @ ?t @ x # pre'"]) auto
  next
    case False
    with n less.prems(2) have "r = rest"
      by (auto simp: label_expr.simps[of s] split: list.splits if_splits)
    with pre show ?thesis by blast
  qed
qed

lemma label_expr_first:
  assumes "w \<noteq> []" and "list_all is_word w" and "case b of [] \<Rightarrow> True | c # _ \<Rightarrow> \<not> is_word c"
    and "list_all plain_char w"
  shows "w \<in> set (fst (label_expr (w @ b)))"
proof -
  obtain c cs where w: "w = c # cs" using assms(1) by (cases w) auto
  then have c: "is_word c" "\<not> is_label_space c" "\<not> label_operator c" "c \<noteq> backtick"
    using assms(2,4) word_not_space word_not_operator plain_not_backtick by auto
  have "takeWhile is_word (w @ b) = w" "dropWhile is_word (w @ b) = b"
    using assms(2,3) by (auto simp: list_all_iff takeWhile_append2 dropWhile_append2 split: list.splits)
  with c w have "label_name (w @ b) = (Some w, b)" by (simp add: label_name_def)
  then show ?thesis by (auto simp: label_expr.simps[of "w @ b"] split: list.splits prod.splits)
qed

lemma suffix_after_colon:
  "a @ CHR '':'' # t = pre @ r \<Longrightarrow> CHR '':'' \<notin> set pre \<Longrightarrow> \<exists>a'. r = a' @ CHR '':'' # t \<and> length a' \<le> length a"
  by (auto simp: append_eq_append_conv2 append_eq_Cons_conv Cons_eq_append_conv)

lemma scan_finds_label:
  assumes w: "w \<noteq> []" "list_all is_word w" "case b of [] \<Rightarrow> True | c # _ \<Rightarrow> \<not> is_word c"
  shows "list_all plain_char (a @ CHR '':'' # w @ b) \<Longrightarrow> scan_references seen (a @ CHR '':'' # w @ b) [] = (ns, u) \<Longrightarrow>
    w \<in> set ns \<or> u"
proof (induction "length a" arbitrary: a seen ns u rule: less_induct)
  case less
  have colon: "scan_references seen (CHR '':'' # t) [] = (case label_expr t of (names, u, r) \<Rightarrow>
      (case scan_references (consumed seen (CHR '':'' # t) r) r [] of (ns, v) \<Rightarrow> (names @ ns, u \<or> v)))" for seen t
    by (simp add: starts_def code_def)
  show ?case
  proof (cases a)
    case Nil
    with less.prems label_expr_first[OF w] show ?thesis
      by (auto simp: colon simp del: scan_references.simps split: prod.splits)
  next
    case (Cons c a')
    let ?s = "a' @ CHR '':'' # w @ b"
    have plain: "plain_char c" "list_all plain_char ?s" using less.prems(1) Cons by simp_all
    show ?thesis
    proof (cases "c = CHR '':''")
      case True
      obtain names u' r where e: "label_expr ?s = (names, u', r)" by (cases "label_expr ?s")
      obtain ns' v where sc: "scan_references (consumed seen (c # ?s) r) r [] = (ns', v)" by fastforce
      have res: "ns = names @ ns'" "u = (u' \<or> v)"
        using less.prems(2) Cons True e sc by (simp_all add: colon del: scan_references.simps)
      show ?thesis
      proof (cases u')
        case False
        with e have "label_expr ?s = (names, False, r)" by simp
        from label_expr_plain[OF plain(2) this] obtain pre where pre: "?s = pre @ r" "CHR '':'' \<notin> set pre"
          by blast
        from suffix_after_colon[OF pre] obtain a2 where
          a2: "r = a2 @ CHR '':'' # w @ b" "length a2 \<le> length a'" by blast
        have "list_all plain_char r" using plain(2) unfolding pre(1) by simp
        with less.hyps[of a2] a2 sc Cons res show ?thesis by auto
      qed (simp add: res)
    next
      case False
      have "scan_references seen (c # ?s) [] = scan_references (c # seen) ?s []"
        using plain(1) False plain_not_backtick[OF plain(1)]
        by (simp add: plain_char_def starts_def is_quote_def Let_def)
      with less.prems(2) have "scan_references (c # seen) ?s [] = (ns, u)"
        by (simp only: Cons append_Cons)
      from less.hyps[OF _ plain(2) this] show ?thesis by (simp add: Cons)
    qed
  qed
qed


subsection \<open>Properties\<close>




definition example_schema :: graph_schema where
  "example_schema = \<lparr>
     gs_nodes = [(''Product'', \<lparr>nd_aliases = [], nd_properties = [], nd_unique_key = None, nd_output_aliases = []\<rparr>)],
     gs_relationships = [(''SUPPLIED_BY'', \<lparr>rel_from = ''Product'', rel_to = ''Product'', rel_aliases = [],
       rel_properties = [], rel_output_aliases = []\<rparr>)],
     gs_query_policy = None\<rparr>"



end
