(* ===== verification/Request_Guard.thy ===== *)
theory Request_Guard
  imports Query_Guards
begin

text \<open>
  The two gates in front of every question (\<open>orchestrator/nodes/guard_request.py\<close>,
  \<open>orchestrator/nodes/classify_topic.py\<close>).  The three Korean patterns of \<open>has_write_intent\<close> need Hangul
  and match no string of the model; the three remaining patterns are written as functions on the
  words of the text.  Audit logging, whose errors the nodes swallow, is left out.
\<close>

subsection \<open>Write intent\<close>

text \<open>The suffixes of a text that begin with a word: \<open>\b\<close> before a word character.\<close>

fun word_starts :: "bool \<Rightarrow> string \<Rightarrow> string list" where
  "word_starts inside [] = []"
| "word_starts inside (c # s) =
     (if is_word c \<and> \<not> inside then [c # s] else []) @ word_starts (is_word c) s"

definition word_of :: "string \<Rightarrow> string" where
  "word_of s = map ascii_upper (takeWhile is_word s)"

text \<open>What follows the first word and at least one white space.\<close>

definition next_word :: "string \<Rightarrow> string option" where
  "next_word s = (case dropWhile is_word s of
     [] \<Rightarrow> None
   | c # r \<Rightarrow> if is_space c then Some (dropWhile is_space r) else None)"

definition followed_by :: "string list \<Rightarrow> string \<Rightarrow> bool" where
  "followed_by ws s = (case next_word s of None \<Rightarrow> False | Some r \<Rightarrow> word_of r \<in> set ws)"

text \<open>\<open>[A-Za-z_][\w.]*\s+set\b\<close>\<close>

definition update_target :: "string \<Rightarrow> bool" where
  "update_target s = (case next_word s of
     None \<Rightarrow> False
   | Some [] \<Rightarrow> False
   | Some (c # r) \<Rightarrow> is_letter_or_underscore c \<and>
       (case dropWhile (\<lambda>x. is_word x \<or> x = CHR ''.'') r of
          [] \<Rightarrow> False
        | d # q \<Rightarrow> is_space d \<and> word_of (dropWhile is_space q) = ''SET''))"

definition sql_write_at :: "string \<Rightarrow> bool" where
  "sql_write_at s = (let w = word_of s in
     (w = ''DELETE'' \<and> followed_by [''FROM''] s) \<or>
     (w = ''UPDATE'' \<and> update_target s) \<or>
     (w = ''INSERT'' \<and> followed_by [''INTO''] s) \<or>
     (w \<in> {''DROP'', ''ALTER'', ''CREATE''} \<and> followed_by [''TABLE'', ''DATABASE'', ''SCHEMA''] s) \<or>
     (w = ''TRUNCATE'' \<and> (case next_word s of Some (c # _) \<Rightarrow> is_word c | _ \<Rightarrow> False)))"

definition sql_write_syntax :: "string \<Rightarrow> bool" where
  "sql_write_syntax query = list_ex sql_write_at (word_starts False query)"

definition shared_write_keyword :: "string \<Rightarrow> bool" where
  "shared_write_keyword query \<longleftrightarrow>
     word_of (dropWhile is_space query) \<in> set SQL_WRITE_KEYWORDS \<union> set CYPHER_WRITE_KEYWORDS"

definition ENGLISH_WRITE_VERBS :: "string list" where
  "ENGLISH_WRITE_VERBS = [''DELETE'', ''REMOVE'', ''UPDATE'', ''INSERT'', ''DROP'', ''TRUNCATE'', ''ALTER'',
     ''MODIFY'', ''CHANGE'', ''ADD'', ''CREATE'', ''RESET'', ''DESTROY'']"

definition english_write_request :: "string \<Rightarrow> bool" where
  "english_write_request query = (let s = dropWhile is_space query; w = word_of s in
     w \<in> set ENGLISH_WRITE_VERBS \<or>
     (w \<in> {''PLEASE'', ''KINDLY''} \<and> followed_by ENGLISH_WRITE_VERBS s) \<or>
     (w \<in> {''CAN'', ''COULD'', ''WOULD'', ''WILL''} \<and>
        (case next_word s of
           Some r \<Rightarrow> word_of r = ''YOU'' \<and> followed_by ENGLISH_WRITE_VERBS r
         | None \<Rightarrow> False)))"

definition has_write_intent :: "string \<Rightarrow> bool" where
  "has_write_intent query \<longleftrightarrow>
     sql_write_syntax query \<or> shared_write_keyword query \<or> english_write_request query"

definition guard_request :: "string \<Rightarrow> query_failure option" where
  "guard_request query = (if has_write_intent query
     then Some (make_query_failure ''REQUEST_POLICY_BLOCKED'' ''validation'' ''POLICY_BLOCKED'' UserCorrectable False None False)
     else None)"

subsection \<open>Topic\<close>

text \<open>The classifier call gives an exception, no content, or the content; only an exact answer blocks.\<close>

definition off_topic_failure :: query_failure where
  "off_topic_failure = make_query_failure ''OFF_TOPIC'' ''validation'' ''OFF_TOPIC'' UserCorrectable False None False"

definition classify_topic :: "(string \<Rightarrow> string + string option) \<Rightarrow> string \<Rightarrow> query_failure option" where
  "classify_topic model query = (case model query of
     Inr (Some content) \<Rightarrow> if strip content = ''OFF_TOPIC'' then Some off_topic_failure else None
   | _ \<Rightarrow> None)"

subsection \<open>What the request guard stops\<close>

lemma takeWhile_word_append:
  assumes "list_all is_word w" and "case rest of [] \<Rightarrow> True | c # _ \<Rightarrow> \<not> is_word c"
  shows "takeWhile is_word (w @ rest) = w" and "dropWhile is_word (w @ rest) = rest"
proof -
  have "takeWhile is_word (w @ rest) = w \<and> dropWhile is_word (w @ rest) = rest"
    using assms by (induction w) (auto split: list.splits)
  then show "takeWhile is_word (w @ rest) = w" "dropWhile is_word (w @ rest) = rest" by auto
qed

lemma word_not_blank: "is_word c \<Longrightarrow> \<not> is_space c"
  by (auto simp: is_word_def is_space_def is_letter_or_underscore_def is_ascii_upper_def is_ascii_lower_def
      is_digit_def Let_def code_def)

lemma dropWhile_spaces:
  assumes "list_all is_space sp" and "case s of [] \<Rightarrow> True | c # _ \<Rightarrow> \<not> is_space c"
  shows "dropWhile is_space (sp @ s) = s"
  using assms by (induction sp) (auto split: list.splits)

lemma word_starts_here:
  assumes "w \<noteq> []" and "list_all is_word w" and "case rev a of [] \<Rightarrow> \<not> inside | c # _ \<Rightarrow> \<not> is_word c"
  shows "w @ rest \<in> set (word_starts inside (a @ w @ rest))"
  using assms
proof (induction a arbitrary: inside)
  case Nil
  then show ?case by (cases w) auto
next
  case (Cons c a)
  have "case rev a of [] \<Rightarrow> \<not> is_word c | d # _ \<Rightarrow> \<not> is_word d"
    using Cons.prems(3) by (cases "rev a") auto
  from Cons.IH[OF Cons.prems(1,2) this] show ?case by simp
qed

text \<open>A write keyword that opens the question is stopped in any letter case and after any white space.\<close>

lemma leading_keyword_blocked:
  assumes "map ascii_upper w \<in> set SQL_WRITE_KEYWORDS \<union> set CYPHER_WRITE_KEYWORDS"
    and "list_all is_word w" and "w \<noteq> []" and "list_all is_space sp"
    and "case rest of [] \<Rightarrow> True | c # _ \<Rightarrow> \<not> is_word c"
  shows "has_write_intent (sp @ w @ rest)"
proof -
  have "case w @ rest of [] \<Rightarrow> True | c # _ \<Rightarrow> \<not> is_space c"
    using assms(2,3) word_not_blank by (cases w) auto
  then have "dropWhile is_space (sp @ w @ rest) = w @ rest" by (rule dropWhile_spaces[OF assms(4)])
  moreover have "word_of (w @ rest) = map ascii_upper w"
    by (simp add: word_of_def takeWhile_word_append(1)[OF assms(2,5)])
  ultimately show ?thesis using assms(1) by (simp add: has_write_intent_def shared_write_keyword_def)
qed

text \<open>\<open>DELETE FROM\<close> and \<open>INSERT INTO\<close> are stopped wherever they stand in the question.\<close>

lemma embedded_statement_blocked:
  assumes "(map ascii_upper v, map ascii_upper w) \<in> {(''DELETE'', ''FROM''), (''INSERT'', ''INTO'')}"
    and "list_all is_word v" "list_all is_word w" and "list_all is_space sp" "sp \<noteq> []"
    and "case rev a of [] \<Rightarrow> True | c # _ \<Rightarrow> \<not> is_word c" and "case rest of [] \<Rightarrow> True | c # _ \<Rightarrow> \<not> is_word c"
  shows "has_write_intent (a @ v @ sp @ w @ rest)"
proof -
  from assms(1) have ne: "v \<noteq> []" "w \<noteq> []" by auto
  from assms(4,5) obtain c sp' where sp: "sp = c # sp'" "is_space c" "list_all is_space sp'" by (cases sp) auto
  with word_not_blank have "\<not> is_word c" by blast
  then have tail: "case sp @ w @ rest of [] \<Rightarrow> True | c # _ \<Rightarrow> \<not> is_word c" by (simp add: sp)
  have "case w @ rest of [] \<Rightarrow> True | c # _ \<Rightarrow> \<not> is_space c"
    using assms(3) ne(2) word_not_blank by (cases w) auto
  from dropWhile_spaces[OF sp(3) this] have nx: "next_word (v @ sp @ w @ rest) = Some (w @ rest)"
    unfolding next_word_def takeWhile_word_append(2)[OF assms(2) tail] by (simp add: sp(1,2))
  have "word_of (v @ sp @ w @ rest) = map ascii_upper v" "word_of (w @ rest) = map ascii_upper w"
    by (simp_all add: word_of_def takeWhile_word_append(1)[OF assms(2) tail] takeWhile_word_append(1)[OF assms(3,7)] del: append.simps)
  with nx assms(1) have "sql_write_at (v @ sp @ w @ rest)"
    by (auto simp: sql_write_at_def followed_by_def Let_def)
  moreover have "v @ sp @ w @ rest \<in> set (word_starts False (a @ v @ sp @ w @ rest))"
    using word_starts_here[OF ne(1) assms(2), where a = a and inside = False and rest = "sp @ w @ rest"] assms(6) by (auto split: list.splits)
  ultimately show ?thesis by (auto simp: has_write_intent_def sql_write_syntax_def list_ex_iff)
qed

subsection \<open>Properties\<close>

text \<open>A question that opens with a write keyword of SQL or Cypher, in any letter case and after any white space,
  is blocked before any model sees it; so is one with \<open>DELETE FROM\<close> or \<open>INSERT INTO\<close> anywhere in it.\<close>

theorem write_statements_are_blocked:
  assumes "list_all is_word v" and "list_all is_word w" and "list_all is_space sp"
    and "case rest of [] \<Rightarrow> True | c # _ \<Rightarrow> \<not> is_word c"
  shows "(w \<noteq> [] \<and> map ascii_upper w \<in> set SQL_WRITE_KEYWORDS \<union> set CYPHER_WRITE_KEYWORDS \<longrightarrow>
      guard_request (sp @ w @ rest) \<noteq> None) \<and>
    (sp \<noteq> [] \<and> (map ascii_upper v, map ascii_upper w) \<in> {(''DELETE'', ''FROM''), (''INSERT'', ''INTO'')} \<and>
      (case rev a of [] \<Rightarrow> True | c # _ \<Rightarrow> \<not> is_word c) \<longrightarrow> guard_request (a @ v @ sp @ w @ rest) \<noteq> None)"
  using leading_keyword_blocked[OF _ assms(2) _ assms(3,4)] embedded_statement_blocked[OF _ assms(1,2,3) _ _ assms(4)]
  by (simp add: guard_request_def)

theorem write_statements_are_blocked_witness:
  "guard_request ''x; Delete from t'' \<noteq> None \<and> guard_request '' from t'' = None"
proof -
  have w: "list_all is_word ''Delete''" "list_all is_word ''from''" "list_all is_space '' ''" by code_simp+
  have r: "case '' t'' of [] \<Rightarrow> True | c # _ \<Rightarrow> \<not> is_word c" by code_simp
  have k: "map ascii_upper ''Delete'' = ''DELETE''" "map ascii_upper ''from'' = ''FROM''" by code_simp+
  have a: "case rev ''x; '' of [] \<Rightarrow> True | c # _ \<Rightarrow> \<not> is_word c" by code_simp
  have "guard_request '' from t'' = None" by code_simp
  with write_statements_are_blocked[OF w r, of "''x; ''"] k a show ?thesis by simp
qed

end
