(* ===== verification/Semantic_Catalog.thy ===== *)
theory Semantic_Catalog
  imports Py_Prelude
begin

text \<open>
  The query semantic catalog (\<open>orchestrator/semantic_catalog.py\<close>): the frozen data classes and
  the methods the planner, the composer and the Cypher agent call.  The catalog is built once
  from the YAML schemas; here it is a record over which every theorem quantifies.
\<close>

datatype tool_name = Sql | Graph

datatype alias_kind = KPhysical | KRole | KAggregate | KDerived | KPath

datatype value_type = VIdentity | VName | VScalar | VPath

datatype semantic_operation =
    RoleProjection | Count | CountDistinct | Sum | Average | Difference | ClampedDifference
  | PathLength | MinimumPathLength | OrderedPathProjection

record typed_predicate =
  pred_field :: string
  pred_operator :: string
  pred_value :: pyval

text \<open>
  \<open>sources\<close> is a frozen set: a list without repetitions, in the fixed order SQL before graph.
  Field \<open>fingerprint\<close> of the catalog, a digest that no decision reads, is left out.
\<close>

record alias_spec =
  as_alias :: string
  as_canonical :: string
  as_canonical_source :: tool_name
  as_sources :: "tool_name list"
  as_kind :: alias_kind
  as_value_type :: value_type
  as_schema_paths :: "string list"
  as_terms :: "string list"
  as_owner_terms :: "string list"
  as_nullable :: bool
  as_grain :: "string list"
  as_operation :: "semantic_operation option"
  as_inputs :: "string list"
  as_predicates :: "typed_predicate list"

record transform_spec =
  transform_id :: string
  output_scale :: int
  ts_required_outputs :: "(tool_name, string list) dict"
  ts_generator_rules :: "(tool_name, string list) dict"

record identity_projection_spec =
  ip_keys :: "string list"
  ip_labels :: "string list"

record entity_role_spec =
  er_role_id :: string
  er_canonical :: string
  er_terms :: "string list"
  er_projections :: "(tool_name, identity_projection_spec) dict"
  er_predicates :: "(tool_name, typed_predicate list) dict"

record result_shape_source_spec =
  rs_display_entities :: "string list"
  rs_required_outputs :: "string list"
  rs_row_grain :: "string list"
  rs_completion_groups :: "string list list"
  rs_result_invariant :: "string option"
  rs_min_hops :: "int option"

record result_shape_spec =
  shape_id :: string
  shape_canonical :: string
  trigger_term_groups :: "string list list"
  shape_sources :: "(tool_name, result_shape_source_spec) dict"

record semantic_catalog =
  ontology_version :: string
  by_tool :: "(tool_name, (string, alias_spec) dict) dict"
  identity_aliases_by_tool :: "(tool_name, string list) dict"
  shared_join_aliases :: "string list"
  entity_roles :: "(string, entity_role_spec) dict"
  result_shapes :: "(string, result_shape_spec) dict"
  transforms :: "(string, transform_spec) dict"

datatype catalog_error =
    UnsupportedSource string
  | MissingSource tool_name
  | UnknownEntityRole string
  | RoleUnavailable string tool_name
  | UnsupportedTransformId string

definition tool_of :: "string \<Rightarrow> catalog_error + tool_name" where
  "tool_of t = (if t = ''sql'' then Inr Sql else if t = ''graph'' then Inr Graph
                else Inl (UnsupportedSource t))"

definition display_aliases :: "identity_projection_spec \<Rightarrow> string list" where
  "display_aliases p = ip_keys p @ ip_labels p"

definition allowed_aliases :: "semantic_catalog \<Rightarrow> string \<Rightarrow> catalog_error + string list" where
  "allowed_aliases cat t = rbind (tool_of t) (\<lambda>source.
     case map_of (by_tool cat) source of
       None \<Rightarrow> Inl (MissingSource source)
     | Some specs \<Rightarrow> Inr (sort (dict_keys specs)))"

definition allowed_entity_roles :: "semantic_catalog \<Rightarrow> string \<Rightarrow> catalog_error + string list" where
  "allowed_entity_roles cat t = rbind (tool_of t) (\<lambda>source.
     Inr (sort [role_id. (role_id, spec) \<leftarrow> entity_roles cat,
                         source \<in> set (dict_keys (er_projections spec))]))"

definition identity_projection ::
    "semantic_catalog \<Rightarrow> string \<Rightarrow> string \<Rightarrow> catalog_error + identity_projection_spec" where
  "identity_projection cat role_id t = rbind (tool_of t) (\<lambda>source.
     case map_of (entity_roles cat) role_id of
       None \<Rightarrow> Inl (UnknownEntityRole role_id)
     | Some role \<Rightarrow>
         (case map_of (er_projections role) source of
            None \<Rightarrow> Inl (RoleUnavailable role_id source)
          | Some p \<Rightarrow> Inr p))"

definition transform :: "semantic_catalog \<Rightarrow> string \<Rightarrow> catalog_error + transform_spec" where
  "transform cat tid = (case map_of (transforms cat) tid of
     None \<Rightarrow> Inl (UnsupportedTransformId tid) | Some s \<Rightarrow> Inr s)"

text \<open>
  \<open>result_invariant_for_outputs\<close>: the pairs of every shape that has the source, an invariant, a
  hop bound and required outputs inside the selection; one distinct pair or nothing.
\<close>

definition shape_contracts ::
    "semantic_catalog \<Rightarrow> tool_name \<Rightarrow> string list \<Rightarrow> (string \<times> int) list" where
  "shape_contracts cat source outputs =
     [(iid, hops). (_, shape) \<leftarrow> result_shapes cat,
        contract \<leftarrow> (case map_of (shape_sources shape) source of None \<Rightarrow> [] | Some c \<Rightarrow> [c]),
        iid \<leftarrow> (case rs_result_invariant contract of None \<Rightarrow> [] | Some i \<Rightarrow> [i]),
        hops \<leftarrow> (case rs_min_hops contract of None \<Rightarrow> [] | Some h \<Rightarrow> [h]),
        set (rs_required_outputs contract) \<subseteq> set outputs]"

definition result_invariant_for_outputs ::
    "semantic_catalog \<Rightarrow> string \<Rightarrow> string list \<Rightarrow> catalog_error + (string \<times> int) option" where
  "result_invariant_for_outputs cat t outputs = rbind (tool_of t) (\<lambda>source.
     Inr (case remdups (shape_contracts cat source outputs) of [c] \<Rightarrow> Some c | _ \<Rightarrow> None))"

text \<open>
  \<open>match_result_shape_sources\<close> on the comparison text: each shape scores its longest matching
  trigger group, each source keeps its best score, and an ambiguous source withdraws every match.
\<close>

fun substring :: "string \<Rightarrow> string \<Rightarrow> bool" where
  "substring p [] = (p = [])"
| "substring p (c # s) = (take (length p) (c # s) = p \<or> substring p s)"

definition group_score :: "string list \<Rightarrow> nat \<times> nat" where
  "group_score g = (sum_list (map length g), length g)"

fun score_less :: "nat \<times> nat \<Rightarrow> nat \<times> nat \<Rightarrow> bool" where
  "score_less (a, b) (c, d) \<longleftrightarrow> a < c \<or> (a = c \<and> b < d)"

text \<open>Python's \<open>max\<close>: the first of the largest elements.\<close>

fun best_score :: "(nat \<times> nat) list \<Rightarrow> (nat \<times> nat) option" where
  "best_score [] = None"
| "best_score (x # xs) = (case best_score xs of
     None \<Rightarrow> Some x | Some y \<Rightarrow> Some (if score_less x y then y else x))"

definition shape_candidates ::
    "semantic_catalog \<Rightarrow> string \<Rightarrow> tool_name \<Rightarrow> ((nat \<times> nat) \<times> result_shape_source_spec) list" where
  "shape_candidates cat comparable source =
     [(score, contract). (_, shape) \<leftarrow> result_shapes cat,
        score \<leftarrow> (case best_score (map group_score
                     (filter (\<lambda>g. \<forall>term \<in> set g. substring term comparable)
                        (trigger_term_groups shape))) of None \<Rightarrow> [] | Some s \<Rightarrow> [s]),
        contract \<leftarrow> (case map_of (shape_sources shape) source of None \<Rightarrow> [] | Some c \<Rightarrow> [c])]"

definition best_contracts ::
    "((nat \<times> nat) \<times> result_shape_source_spec) list \<Rightarrow> result_shape_source_spec list" where
  "best_contracts cs = (case best_score (map fst cs) of
     None \<Rightarrow> [] | Some best \<Rightarrow> [c. (score, c) \<leftarrow> cs, score = best])"

definition match_shape_sources ::
    "semantic_catalog \<Rightarrow> string \<Rightarrow> (tool_name, result_shape_source_spec) dict" where
  "match_shape_sources cat comparable =
     (let sql = shape_candidates cat comparable Sql;
          graph = shape_candidates cat comparable Graph
      in if length (best_contracts sql) > 1 \<or> length (best_contracts graph) > 1 then []
         else map (\<lambda>c. (Sql, c)) (best_contracts sql) @ map (\<lambda>c. (Graph, c)) (best_contracts graph))"

subsection \<open>The comparison text of a question\<close>

text \<open>
  \<open>str.casefold\<close> on the model's code points; the micro sign, which folds to a Greek letter outside
  of them, stays as it is.  These texts are in composed form already, so \<open>NFC\<close> changes nothing.
\<close>

definition casefold :: "string \<Rightarrow> string" where
  "casefold s = concat (map (\<lambda>c. let n = code c in
     if (65 \<le> n \<and> n \<le> 90) \<or> (192 \<le> n \<and> n \<le> 222 \<and> n \<noteq> 215) then [char_of (n + 32)]
     else if n = 223 then ''ss'' else [c]) s)"

text \<open>\<open>s.split()\<close> and \<open>" ".join\<close>.\<close>

fun split_words :: "string \<Rightarrow> string \<Rightarrow> string list" where
  "split_words acc [] = (if acc = [] then [] else [rev acc])"
| "split_words acc (c # cs) =
     (if is_space c then (if acc = [] then split_words [] cs else rev acc # split_words [] cs)
      else split_words (c # acc) cs)"

fun join_words :: "string list \<Rightarrow> string" where
  "join_words [] = []"
| "join_words [w] = w"
| "join_words (w # v # ws) = w @ CHR '' '' # join_words (v # ws)"

definition squeeze :: "string \<Rightarrow> string" where
  "squeeze s = join_words (split_words [] s)"

definition normalized_term :: "string \<Rightarrow> string" where
  "normalized_term value = squeeze (casefold value)"

text \<open>\<open>str.replace\<close> of a non-empty text by a space: leftmost occurrences that do not overlap.\<close>

function blank_out :: "string \<Rightarrow> string \<Rightarrow> string" where
  "blank_out name s = (if name = [] \<or> s = [] then s
     else if take (length name) s = name then CHR '' '' # blank_out name (drop (length name) s)
     else hd s # blank_out name (tl s))"
  by pat_completeness auto
termination
  by (relation "measure (\<lambda>(name, s). length s)") auto

declare blank_out.simps [simp del]

text \<open>The regular expression \<open>\d+(?:[.,]\d+)*\<close>: the rest after a number whose first digit was read.\<close>

fun skip_number :: "string \<Rightarrow> string" where
  "skip_number [] = []"
| "skip_number [c] = (if is_digit c then [] else [c])"
| "skip_number (c # d # s) =
     (if is_digit c then skip_number (d # s)
      else if (c = CHR ''.'' \<or> c = CHR '','') \<and> is_digit d then skip_number s
      else c # d # s)"

lemma skip_number_le: "length (skip_number s) \<le> length s"
  by (induction s rule: skip_number.induct) auto

function blank_numbers :: "string \<Rightarrow> string" where
  "blank_numbers [] = []"
| "blank_numbers (c # s) =
     (if is_digit c then CHR '' '' # blank_numbers (skip_number s) else c # blank_numbers s)"
  by pat_completeness auto
termination
  by (relation "measure length") (auto simp: less_Suc_eq_le skip_number_le)

definition ends_with :: "string \<Rightarrow> string \<Rightarrow> bool" where
  "ends_with suffix s \<longleftrightarrow> length suffix \<le> length s \<and> drop (length s - length suffix) s = suffix"

fun entity_names :: "pyval \<Rightarrow> string list" where
  "entity_names (PDict d) = [str_of v. (k, v) \<leftarrow> d, ends_with ''Name'' k \<and> is_str v \<and> str_of v \<noteq> []]"
| "entity_names (PList items) = concat (map entity_names items)"
| "entity_names _ = []"

definition shape_comparison_text :: "string \<Rightarrow> pyval \<Rightarrow> string" where
  "shape_comparison_text query entity =
     (let names = sort_key (\<lambda>n. - int (length n)) (entity_names entity)
      in squeeze (blank_numbers (fold (\<lambda>n. blank_out (casefold n)) names (casefold query))))"

definition match_result_shape_sources ::
    "semantic_catalog \<Rightarrow> string \<Rightarrow> pyval \<Rightarrow> (tool_name, result_shape_source_spec) dict" where
  "match_result_shape_sources cat query entity = match_shape_sources cat (shape_comparison_text query entity)"

text \<open>
  \<open>infer_required_sources\<close>: the sources of the matched shapes and of every computed alias whose
  longest matching term names one source set only.
\<close>

definition is_concept :: "alias_spec \<Rightarrow> bool" where
  "is_concept spec \<longleftrightarrow> as_kind spec \<in> {KAggregate, KDerived, KPath}"

text \<open>Python's \<open>max(..., key=len)\<close>: the first of the longest.\<close>

fun first_longest :: "string list \<Rightarrow> string option" where
  "first_longest [] = None"
| "first_longest (x # xs) = (case first_longest xs of
     None \<Rightarrow> Some x | Some y \<Rightarrow> Some (if length x < length y then y else x))"

definition concept_evidence :: "semantic_catalog \<Rightarrow> string \<Rightarrow> (string \<times> tool_name list) list" where
  "concept_evidence cat comparable =
     (let specs = fold (\<lambda>(alias, spec) seen. if is_concept spec then setdefault alias spec seen else seen)
                    (concat (map snd (by_tool cat))) []
      in [(longest, as_sources spec). (_, spec) \<leftarrow> specs,
            longest \<leftarrow> (case first_longest (filter (\<lambda>t. substring t comparable)
                          (map normalized_term (as_terms spec))) of None \<Rightarrow> [] | Some t \<Rightarrow> [t])])"

definition infer_required_sources :: "semantic_catalog \<Rightarrow> string \<Rightarrow> pyval \<Rightarrow> tool_name list option" where
  "infer_required_sources cat query entity =
     (let evidence = concept_evidence cat (shape_comparison_text query entity);
          inferred = dict_keys (match_result_shape_sources cat query entity) @ concat (map snd evidence)
      in if list_ex (\<lambda>(t, a). list_ex (\<lambda>(u, b). t = u \<and> a \<noteq> b) evidence) evidence then None
         else if inferred = [] then None
         else Some (filter (\<lambda>s. s \<in> set inferred) [Sql, Graph]))"

subsection \<open>What the catalog operations return\<close>

lemma tool_of_Inr_iff [result_simps]:
  "tool_of t = Inr s \<longleftrightarrow> (t = ''sql'' \<and> s = Sql) \<or> (t = ''graph'' \<and> s = Graph)"
  by (auto simp: tool_of_def)

lemma set_allowed_aliases:
  "allowed_aliases cat t = Inr xs \<Longrightarrow>
     \<exists>source specs. tool_of t = Inr source \<and> map_of (by_tool cat) source = Some specs \<and>
       set xs = fst ` set specs"
  by (auto simp: allowed_aliases_def result_simps dict_keys_def split: option.splits)

lemma best_score_Some_iff: "best_score xs = None \<longleftrightarrow> xs = []"
  by (cases xs) (auto split: option.splits)

lemma best_score_in: "best_score xs = Some b \<Longrightarrow> b \<in> set xs"
  by (induction xs arbitrary: b) (auto split: option.splits if_splits)

lemma best_contracts_empty_iff: "best_contracts cs = [] \<longleftrightarrow> cs = []"
proof
  assume none: "best_contracts cs = []"
  show "cs = []"
  proof (cases "best_score (map fst cs)")
    case None
    then show ?thesis by (simp add: best_score_Some_iff)
  next
    case (Some b)
    from best_score_in[OF Some] obtain c where "(b, c) \<in> set cs" by auto
    with none Some show ?thesis by (auto simp: best_contracts_def concat_eq_Nil_conv)
  qed
qed (simp add: best_contracts_def)

lemma result_invariant_unique:
  assumes "result_invariant_for_outputs cat t outputs = Inr (Some c)"
    and "tool_of t = Inr source" and "d \<in> set (shape_contracts cat source outputs)"
  shows "d = c"
proof -
  from assms(1,2) have "remdups (shape_contracts cat source outputs) = [c]"
    by (auto simp: result_invariant_for_outputs_def split: list.splits)
  then have "set (shape_contracts cat source outputs) = {c}"
    by (metis list.set(1) list.set(2) set_remdups)
  with assms(3) show ?thesis by simp
qed

subsection \<open>The contract of a catalog\<close>

text \<open>
  What the planner relies on: every name that a role, a shape or a transform mentions for a source
  is an alias that this source owns, and the shared join aliases are identities of both sources.
\<close>

definition owned :: "semantic_catalog \<Rightarrow> tool_name \<Rightarrow> string list" where
  "owned cat source = dict_keys (dict_get (by_tool cat) source [])"

definition identity_alias :: "semantic_catalog \<Rightarrow> tool_name \<Rightarrow> string \<Rightarrow> bool" where
  "identity_alias cat source alias = (case map_of (dict_get (by_tool cat) source []) alias of
     None \<Rightarrow> False | Some spec \<Rightarrow> as_value_type spec = VIdentity)"

definition projection_ok :: "semantic_catalog \<Rightarrow> tool_name \<Rightarrow> identity_projection_spec \<Rightarrow> bool" where
  "projection_ok cat source p \<longleftrightarrow> ip_keys p \<noteq> [] \<and> distinct (display_aliases p) \<and>
     set (display_aliases p) \<subseteq> set (owned cat source) \<and> list_all (identity_alias cat source) (ip_keys p)"

definition role_ok :: "semantic_catalog \<Rightarrow> entity_role_spec \<Rightarrow> bool" where
  "role_ok cat role \<longleftrightarrow>
     (\<forall>(source, p) \<in> set (er_projections role). projection_ok cat source p) \<and>
     (\<forall>(source, ps) \<in> set (er_predicates role). source \<in> set (dict_keys (er_projections role)) \<and>
        set (map pred_field ps) \<subseteq> set (owned cat source))"

definition shape_source_ok :: "semantic_catalog \<Rightarrow> tool_name \<Rightarrow> result_shape_source_spec \<Rightarrow> bool" where
  "shape_source_ok cat source c \<longleftrightarrow>
     set (rs_required_outputs c) \<union> set (rs_row_grain c) \<subseteq> set (owned cat source) \<and>
     (\<forall>g \<in> set (rs_completion_groups c). set g \<subseteq> set (rs_required_outputs c)) \<and>
     (\<forall>r \<in> set (rs_display_entities c). \<exists>role. map_of (entity_roles cat) r = Some role \<and>
        source \<in> set (dict_keys (er_projections role)))"

definition transform_ok :: "semantic_catalog \<Rightarrow> transform_spec \<Rightarrow> bool" where
  "transform_ok cat t \<longleftrightarrow> (\<forall>source. \<exists>outputs. map_of (ts_required_outputs t) source = Some outputs \<and>
     outputs \<noteq> [] \<and> distinct outputs \<and> set outputs \<subseteq> set (owned cat source))"

definition catalog_ok :: "semantic_catalog \<Rightarrow> bool" where
  "catalog_ok cat \<longleftrightarrow>
     map_of (by_tool cat) Sql \<noteq> None \<and> map_of (by_tool cat) Graph \<noteq> None \<and>
     (\<forall>a \<in> set (shared_join_aliases cat). identity_alias cat Sql a \<and> identity_alias cat Graph a) \<and>
     dict_ok (entity_roles cat) \<and> (\<forall>(_, role) \<in> set (entity_roles cat). role_ok cat role) \<and>
     (\<forall>(_, shape) \<in> set (result_shapes cat). \<forall>(source, c) \<in> set (shape_sources shape). shape_source_ok cat source c) \<and>
     (\<forall>(_, t) \<in> set (transforms cat). transform_ok cat t)"

lemma identity_alias_owned: "identity_alias cat source a \<Longrightarrow> a \<in> set (owned cat source)"
  by (auto simp: identity_alias_def owned_def dict_keys_def split: option.splits dest!: map_of_SomeD)
    (metis fst_conv image_eqI)

text \<open>The interface between the component that builds catalogs and the planner that uses them.\<close>

locale catalog_provider =
  fixes build :: "'i \<Rightarrow> 'e + semantic_catalog" and accepted :: "'i \<Rightarrow> bool"
  assumes built_ok: "accepted i \<Longrightarrow> build i = Inr cat \<Longrightarrow> catalog_ok cat"

end
