(* ===== verification/Planning.thy ===== *)
theory Planning
  imports Semantic_Catalog
begin

text \<open>
  The structural contract shared by routing and execution (\<open>orchestrator/planning.py\<close>):
  validation of the model's route draft and of the compiled execution plan, the topological
  order that both derive, and the formal transform's source contract.  The typed dictionaries
  are records; an absent \<open>inputBindings\<close> or \<open>generatorRules\<close> is the empty value that the code's
  \<open>.get\<close> reads in its place.
\<close>

record route_subquery =
  subquery_id :: string
  tool :: string
  question :: string
  dependsOn :: "string list"
  joinKeys :: "string list"
  inputBindings :: "(string, string) dict"

record subquery = route_subquery +
  requiredOutputs :: "string list"
  generatorRules :: "string list"

record bom_shortage_transform =
  productionQty :: pyval

datatype plan_error =
    SubqueriesNotArray
  | TooManySubqueries
  | SubqueryNotObject nat
  | NotRouteBoundary nat
  | UnknownExecutionFields nat "string list"
  | UnsafeIdentifier nat
  | UnsupportedTool string pyval
  | UnhashableTool string
  | EmptyQuestion string
  | NotStringArray string string
  | DuplicateStrings string string
  | UnknownJoinKeys string "string list"
  | BindingsNotArray string
  | BindingShape string nat
  | BindingValues string nat
  | DuplicateBindingTarget string string
  | RequiredOutputsEmpty string
  | JoinKeysNotOutputs string
  | BindingsNotObject string
  | InvalidBinding string
  | IdsNotUnique
  | OneSubqueryPerSource
  | UnknownDependency string
  | BindingNotInDependsOn string string
  | BindingNotOwned string string string
  | BindingNotRequiredOutput string
  | DependenciesUnreferenced string
  | CyclicDependency
  | HybridKeysOneSided
  | HybridKeysDiffer
  | InvalidTransformShape
  | UnsupportedTransform
  | InvalidProductionQty
  | TransformNeedsGraphSql
  | TransformSqlDependency
  | TransformJoinKey
  | TransformBinding
  | TransformNeedsCatalog
  | TransformGraphOutputs
  | TransformSqlOutputs
  | CatalogFailure catalog_error

text \<open>A source missing from the catalog is a \<open>KeyError\<close>, an unhashable tool a \<open>TypeError\<close>; all others are \<open>ValueError\<close>.\<close>

definition is_value_error :: "plan_error \<Rightarrow> bool" where
  "is_value_error e = (case e of
     CatalogFailure (MissingSource _) \<Rightarrow> False | UnhashableTool _ \<Rightarrow> False | _ \<Rightarrow> True)"

definition MAX_SUBQUERIES :: nat where
  "MAX_SUBQUERIES = 2"

definition SUPPORTED_TOOLS :: "string list" where
  "SUPPORTED_TOOLS = [''sql'', ''graph'']"

definition DEFAULT_SHARED_JOIN_ALIASES :: "string list" where
  "DEFAULT_SHARED_JOIN_ALIASES =
     [''componentId'', ''finishedProductId'', ''finishedProductIdA'', ''finishedProductIdB'',
      ''locationId'', ''productId'', ''rootProductId'', ''scrapReasonId'', ''supplierId'',
      ''supplierIdA'', ''supplierIdB'', ''workOrderId'']"

definition TRANSFORM_FIELDS :: "string list" where
  "TRANSFORM_FIELDS = [''type'', ''productionQty'']"

definition BINDING_FIELDS :: "string list" where
  "BINDING_FIELDS = [''target'', ''sourceSubqueryId'', ''sourceOutput'']"

subsection \<open>Field readers\<close>

definition string_list :: "pyval \<Rightarrow> string \<Rightarrow> string \<Rightarrow> plan_error + string list" where
  "string_list value field sid = (case value of
     PList items \<Rightarrow>
       if list_ex (\<lambda>item. \<not> is_str item \<or> blank (str_of item)) items
       then Inl (NotStringArray sid field)
       else if \<not> distinct (map str_of items) then Inl (DuplicateStrings sid field)
       else Inr (map str_of items)
   | _ \<Rightarrow> Inl (NotStringArray sid field))"

text \<open>
  \<open>math.isfinite\<close> of an int converts it to a float first: an int that rounds to \<open>2 ^ 1024\<close>
  raises \<open>OverflowError\<close>, which the code reads as not finite.
\<close>

definition int_is_finite :: "int \<Rightarrow> bool" where
  "int_is_finite n \<longleftrightarrow> \<bar>n\<bar> < 2 ^ 1024 - 2 ^ 970"

definition validate_transform_shape :: "pyval \<Rightarrow> plan_error + bom_shortage_transform option" where
  "validate_transform_shape raw = (case raw of
     PNone \<Rightarrow> Inr None
   | PDict d \<Rightarrow>
       if set (dict_keys d) \<noteq> set TRANSFORM_FIELDS then Inl InvalidTransformShape
       else if map_of d ''type'' \<noteq> Some (PStr ''bom_shortage_v1'') then Inl UnsupportedTransform
       else (case map_of d ''productionQty'' of
           Some (PInt n) \<Rightarrow>
             if \<not> int_is_finite n \<or> n \<le> 0 then Inl InvalidProductionQty
             else Inr (Some \<lparr>productionQty = PInt n\<rparr>)
         | Some (PFloat (FFin v c e)) \<Rightarrow>
             if v \<le> 0 then Inl InvalidProductionQty
             else Inr (Some \<lparr>productionQty = PFloat (FFin v c e)\<rparr>)
         | _ \<Rightarrow> Inl InvalidProductionQty)
   | _ \<Rightarrow> Inl InvalidTransformShape)"

definition read_id :: "nat \<Rightarrow> row \<Rightarrow> plan_error + string" where
  "read_id index d = (case map_of d ''id'' of
     Some (PStr s) \<Rightarrow> if safe_identifier s then Inr s else Inl (UnsafeIdentifier index)
   | _ \<Rightarrow> Inl (UnsafeIdentifier index))"

text \<open>Membership in a frozenset hashes the value first, so a list or dict raises \<open>TypeError\<close>.\<close>

definition read_tool :: "string \<Rightarrow> row \<Rightarrow> plan_error + string" where
  "read_tool sid d = (let t = dict_get d ''tool'' PNone in
     if \<not> hashable t then Inl (UnhashableTool sid)
     else if is_str t \<and> str_of t \<in> set SUPPORTED_TOOLS then Inr (str_of t)
     else Inl (UnsupportedTool sid t))"

definition read_question :: "string \<Rightarrow> row \<Rightarrow> plan_error + string" where
  "read_question sid d = (case map_of d ''question'' of
     Some (PStr s) \<Rightarrow> if blank s then Inl (EmptyQuestion sid) else Inr s
   | _ \<Rightarrow> Inl (EmptyQuestion sid))"

definition compile_binding :: "string \<Rightarrow> nat \<times> pyval \<Rightarrow> (string, string) dict
    \<Rightarrow> plan_error + (string, string) dict" where
  "compile_binding sid = (\<lambda>(index, raw) compiled. (case raw of
     PDict b \<Rightarrow>
       if set (dict_keys b) \<noteq> set BINDING_FIELDS
       then Inl (BindingShape sid index)
       else (let target = dict_get b ''target'' PNone;
                 source_id = dict_get b ''sourceSubqueryId'' PNone;
                 source_output = dict_get b ''sourceOutput'' PNone
             in if \<not> is_str target \<or> \<not> safe_identifier (str_of target)
                   \<or> \<not> is_str source_id \<or> str_of source_id = []
                   \<or> \<not> is_str source_output \<or> \<not> safe_identifier (str_of source_output)
                then Inl (BindingValues sid index)
                else if map_of compiled (str_of target) \<noteq> None
                then Inl (DuplicateBindingTarget sid (str_of target))
                else Inr (AList.update (str_of target)
                       (str_of source_id @ ''.'' @ str_of source_output) compiled))
   | _ \<Rightarrow> Inl (BindingShape sid index)))"

definition compile_binding_array :: "pyval \<Rightarrow> string \<Rightarrow> plan_error + (string, string) dict" where
  "compile_binding_array value sid = (case value of
     PList bs \<Rightarrow> rfold (compile_binding sid) (enumerate 0 bs) []
   | _ \<Rightarrow> Inl (BindingsNotArray sid))"

subsection \<open>Topological order\<close>

abbreviation ids :: "'a route_subquery_scheme list \<Rightarrow> string list" where
  "ids items \<equiv> map subquery_id items"

definition discard_ready ::
    "'a route_subquery_scheme \<Rightarrow> (string \<times> string list) list \<Rightarrow> (string \<times> string list) list" where
  "discard_ready item pending =
     map (\<lambda>(i, ds). (i, filter (\<lambda>d. d \<noteq> subquery_id item) ds))
       (filter (\<lambda>(i, ds). i \<noteq> subquery_id item) pending)"

lemma fold_discard_ready:
  "fold discard_ready ready pending =
     map (\<lambda>(i, ds). (i, filter (\<lambda>d. d \<notin> set (ids ready)) ds))
       (filter (\<lambda>(i, ds). i \<notin> set (ids ready)) pending)"
proof (induction ready arbitrary: pending)
  case Nil
  then show ?case by (simp add: case_prod_beta')
next
  case (Cons r ready)
  then show ?case
    by (auto simp: discard_ready_def filter_map o_def case_prod_beta' conj_commute
        intro!: filter_cong)
qed

function topo_loop :: "'a route_subquery_scheme list \<Rightarrow> (string \<times> string list) list
    \<Rightarrow> 'a route_subquery_scheme list \<Rightarrow> plan_error + 'a route_subquery_scheme list" where
  "topo_loop items pending ordered =
     (if pending = [] then Inr ordered
      else let ready = filter (\<lambda>item. map_of pending (subquery_id item) = Some []) items
           in if ready = [] then Inl CyclicDependency
              else topo_loop items (fold discard_ready ready pending) (ordered @ ready))"
  by pat_completeness auto
termination
proof (relation "measure (\<lambda>(items, pending, ordered). length pending)", goal_cases)
  case 1
  then show ?case by simp
next
  case (2 items pending ordered ready)
  then obtain r where r: "r \<in> set items" "map_of pending (subquery_id r) = Some []" "r \<in> set ready"
    by (auto simp: filter_empty_conv)
  then have "(subquery_id r, []) \<in> set pending" by (auto dest: map_of_SomeD)
  with r(3) have "length (filter (\<lambda>(i, ds). i \<notin> set (ids ready)) pending) < length pending"
    by (intro length_filter_less) auto
  then show ?case by (simp add: fold_discard_ready)
qed

declare topo_loop.simps [simp del]

definition topological_order ::
    "'a route_subquery_scheme list \<Rightarrow> plan_error + 'a route_subquery_scheme list" where
  "topological_order items =
     (if \<not> distinct (ids items) then Inl IdsNotUnique
      else topo_loop items (map (\<lambda>item. (subquery_id item, dependsOn item)) items) [])"

definition derive_tool_plan :: "'a route_subquery_scheme list \<Rightarrow> plan_error + string list" where
  "derive_tool_plan subs = rbind (topological_order subs) (\<lambda>ordered. Inr (map tool ordered))"

subsection \<open>The route boundary\<close>

definition ROUTE_FIELDS :: "string list" where
  "ROUTE_FIELDS =
     [''id'', ''tool'', ''question'', ''dependsOn'', ''joinKeys'', ''inputBindings'']"

definition read_route_subquery ::
    "string list \<Rightarrow> nat \<times> pyval \<Rightarrow> plan_error + route_subquery" where
  "read_route_subquery shared_aliases = (\<lambda>(index, raw). (case raw of
     PDict d \<Rightarrow>
       if set (dict_keys d) \<noteq> set ROUTE_FIELDS then Inl (NotRouteBoundary index)
       else rbind (read_id index d) (\<lambda>sid.
            rbind (read_tool sid d) (\<lambda>t.
            rbind (read_question sid d) (\<lambda>q.
            rbind (string_list (dict_get d ''dependsOn'' PNone) ''dependsOn'' sid) (\<lambda>deps.
            rbind (string_list (dict_get d ''joinKeys'' PNone) ''joinKeys'' sid) (\<lambda>keys.
              let unknown = filter (\<lambda>k. k \<notin> set shared_aliases) keys in
              if unknown \<noteq> [] then Inl (UnknownJoinKeys sid (sort unknown))
              else rbind (compile_binding_array (dict_get d ''inputBindings'' PNone) sid) (\<lambda>bindings.
                Inr \<lparr>subquery_id = sid, tool = t, question = q, dependsOn = deps,
                     joinKeys = keys, inputBindings = bindings\<rparr>))))))
   | _ \<Rightarrow> Inl (SubqueryNotObject index)))"

definition find_subquery ::
    "'a route_subquery_scheme list \<Rightarrow> string \<Rightarrow> 'a route_subquery_scheme option" where
  "find_subquery items i = List.find (\<lambda>x. subquery_id x = i) items"

text \<open>A source is \<open>dependency.output\<close>; the code splits it at its first dot.\<close>

definition check_route_binding :: "semantic_catalog option \<Rightarrow> route_subquery list \<Rightarrow> route_subquery
    \<Rightarrow> string \<Rightarrow> string list \<Rightarrow> plan_error + string list" where
  "check_route_binding catalog items item source deps = (case split_once CHR ''.'' source of
     None \<Rightarrow> Inl (InvalidBinding (subquery_id item))
   | Some (dependency_id, source_output) \<Rightarrow>
       if dependency_id \<notin> set (dependsOn item)
       then Inl (BindingNotInDependsOn (subquery_id item) source)
       else (case find_subquery items dependency_id of
           None \<Rightarrow> Inl (UnknownDependency (subquery_id item))
         | Some producer \<Rightarrow> (case catalog of
               None \<Rightarrow> Inr (deps @ [dependency_id])
             | Some cat \<Rightarrow> (case allowed_aliases cat (tool producer) of
                   Inl e \<Rightarrow> Inl (CatalogFailure e)
                 | Inr allowed \<Rightarrow>
                     if source_output \<notin> set allowed
                     then Inl (BindingNotOwned source_output (tool producer) dependency_id)
                     else Inr (deps @ [dependency_id])))))"

definition check_route_item ::
    "semantic_catalog option \<Rightarrow> route_subquery list \<Rightarrow> route_subquery \<Rightarrow> plan_error + unit" where
  "check_route_item catalog items item =
     (if subquery_id item \<in> set (dependsOn item)
         \<or> \<not> set (dependsOn item) \<subseteq> set (ids items)
      then Inl (UnknownDependency (subquery_id item))
      else rbind (rfold (check_route_binding catalog items item)
                   (map snd (inputBindings item)) []) (\<lambda>binding_dependencies.
        if set (dependsOn item) \<noteq> set binding_dependencies
        then Inl (DependenciesUnreferenced (subquery_id item)) else Inr ()))"

definition check_hybrid_keys :: "'a route_subquery_scheme list \<Rightarrow> plan_error + unit" where
  "check_hybrid_keys ordered = (case ordered of
     [first, second] \<Rightarrow>
       if (joinKeys first \<noteq> []) \<noteq> (joinKeys second \<noteq> []) then Inl HybridKeysOneSided
       else if joinKeys first \<noteq> [] \<and> joinKeys first \<noteq> joinKeys second
       then Inl HybridKeysDiffer else Inr ()
   | _ \<Rightarrow> Inr ())"

text \<open>What both validators do after reading the items.\<close>

definition order_checked :: "('a route_subquery_scheme \<Rightarrow> plan_error + unit)
    \<Rightarrow> 'a route_subquery_scheme list \<Rightarrow> plan_error + 'a route_subquery_scheme list" where
  "order_checked check validated =
     (if \<not> distinct (ids validated) then Inl IdsNotUnique
      else if \<not> distinct (map tool validated) then Inl OneSubqueryPerSource
      else rbind (rmap check validated) (\<lambda>_.
           rbind (topological_order validated) (\<lambda>ordered.
           rbind (check_hybrid_keys ordered) (\<lambda>_. Inr ordered))))"

definition validate_route_subqueries :: "pyval \<Rightarrow> string list \<Rightarrow> semantic_catalog option
    \<Rightarrow> plan_error + route_subquery list" where
  "validate_route_subqueries raw shared_aliases catalog = (case raw of
     PList subs \<Rightarrow>
       if subs = [] then Inl SubqueriesNotArray
       else if MAX_SUBQUERIES < length subs then Inl TooManySubqueries
       else rbind (rmap (read_route_subquery shared_aliases) (enumerate 0 subs)) (\<lambda>validated.
              order_checked (check_route_item catalog validated) validated)
   | _ \<Rightarrow> Inl SubqueriesNotArray)"

definition validate_bom_shortage_route ::
    "'a route_subquery_scheme list \<Rightarrow> plan_error + unit" where
  "validate_bom_shortage_route subs =
     (if map tool subs \<noteq> [''graph'', ''sql''] then Inl TransformNeedsGraphSql
      else (case subs of
          [graph, sql] \<Rightarrow>
            if dependsOn sql \<noteq> [subquery_id graph] then Inl TransformSqlDependency
            else if joinKeys graph \<noteq> [''componentId''] \<or> joinKeys sql \<noteq> [''componentId'']
            then Inl TransformJoinKey
            else if inputBindings sql \<noteq> [(''componentIds'', subquery_id graph @ ''.componentId'')]
            then Inl TransformBinding
            else Inr ()
        | _ \<Rightarrow> Inl TransformNeedsGraphSql))"

subsection \<open>The execution plan\<close>

definition EXECUTION_FIELDS :: "string list" where
  "EXECUTION_FIELDS =
     [''id'', ''tool'', ''question'', ''dependsOn'', ''requiredOutputs'', ''joinKeys'',
      ''inputBindings'', ''generatorRules'']"

definition read_binding :: "string \<Rightarrow> string \<times> pyval \<Rightarrow> (string, string) dict
    \<Rightarrow> plan_error + (string, string) dict" where
  "read_binding sid = (\<lambda>(target, source) bindings.
     if \<not> safe_identifier target \<or> \<not> is_str source
        \<or> count_list (str_of source) CHR ''.'' \<noteq> 1
     then Inl (InvalidBinding sid)
     else Inr (AList.update target (str_of source) bindings))"

definition read_bindings :: "string \<Rightarrow> pyval \<Rightarrow> plan_error + (string, string) dict" where
  "read_bindings sid raw = (case raw of
     PDict b \<Rightarrow> rfold (read_binding sid) b [] | _ \<Rightarrow> Inl (BindingsNotObject sid))"

definition read_generator_rules :: "string \<Rightarrow> pyval \<Rightarrow> plan_error + string list" where
  "read_generator_rules sid raw =
     (if py_truthy raw then string_list raw ''generatorRules'' sid else Inr [])"

definition read_subquery :: "bool \<Rightarrow> nat \<times> pyval \<Rightarrow> plan_error + subquery" where
  "read_subquery allow_empty = (\<lambda>(index, raw). (case raw of
     PDict d \<Rightarrow>
       let unknown = filter (\<lambda>k. k \<notin> set EXECUTION_FIELDS) (dict_keys d) in
       if unknown \<noteq> [] then Inl (UnknownExecutionFields index (sort unknown))
       else rbind (read_id index d) (\<lambda>sid.
            rbind (read_tool sid d) (\<lambda>t.
            rbind (read_question sid d) (\<lambda>q.
            rbind (string_list (dict_get d ''dependsOn'' (PList [])) ''dependsOn'' sid) (\<lambda>deps.
            rbind (string_list (dict_get d ''requiredOutputs'' (PList [])) ''requiredOutputs'' sid)
              (\<lambda>outputs.
              if outputs = [] \<and> \<not> allow_empty then Inl (RequiredOutputsEmpty sid)
              else rbind (string_list (dict_get d ''joinKeys'' (PList [])) ''joinKeys'' sid) (\<lambda>keys.
                if \<not> set keys \<subseteq> set outputs then Inl (JoinKeysNotOutputs sid)
                else rbind (read_bindings sid (dict_get d ''inputBindings'' (PDict []))) (\<lambda>bindings.
                     rbind (read_generator_rules sid (dict_get d ''generatorRules'' (PList []))) (\<lambda>rules.
                  Inr \<lparr>subquery_id = sid, tool = t, question = q, dependsOn = deps,
                       joinKeys = keys, inputBindings = bindings,
                       requiredOutputs = outputs, generatorRules = rules\<rparr>))))))))
   | _ \<Rightarrow> Inl (SubqueryNotObject index)))"

definition check_binding :: "subquery list \<Rightarrow> subquery \<Rightarrow> string \<Rightarrow> string list
    \<Rightarrow> plan_error + string list" where
  "check_binding items item source deps = (case split_once CHR ''.'' source of
     None \<Rightarrow> Inl (InvalidBinding (subquery_id item))
   | Some (dependency_id, output_field) \<Rightarrow>
       if dependency_id \<notin> set (dependsOn item)
       then Inl (BindingNotInDependsOn (subquery_id item) source)
       else (case find_subquery items dependency_id of
           None \<Rightarrow> Inl (UnknownDependency (subquery_id item))
         | Some producer \<Rightarrow>
             if output_field \<notin> set (requiredOutputs producer)
             then Inl (BindingNotRequiredOutput source)
             else Inr (deps @ [dependency_id])))"

definition check_item :: "subquery list \<Rightarrow> subquery \<Rightarrow> plan_error + unit" where
  "check_item items item =
     (if list_ex (\<lambda>d. d = subquery_id item \<or> d \<notin> set (ids items)) (dependsOn item)
      then Inl (UnknownDependency (subquery_id item))
      else rbind (rfold (check_binding items item) (map snd (inputBindings item)) [])
        (\<lambda>binding_dependencies.
          if set (dependsOn item) \<noteq> set binding_dependencies
          then Inl (DependenciesUnreferenced (subquery_id item)) else Inr ()))"

definition validate_subqueries :: "pyval \<Rightarrow> bool \<Rightarrow> plan_error + subquery list" where
  "validate_subqueries raw allow_empty = (case raw of
     PList subs \<Rightarrow>
       if subs = [] then Inl SubqueriesNotArray
       else if MAX_SUBQUERIES < length subs then Inl TooManySubqueries
       else rbind (rmap (read_subquery allow_empty) (enumerate 0 subs)) (\<lambda>validated.
              order_checked (check_item validated) validated)
   | _ \<Rightarrow> Inl SubqueriesNotArray)"

text \<open>
  The result transform is validated against the plan; the two route dictionaries that the code
  rebuilds from the plan are the plan's items read as routes.
\<close>

definition validate_result_transform :: "pyval \<Rightarrow> subquery list \<Rightarrow> semantic_catalog option
    \<Rightarrow> plan_error + bom_shortage_transform option" where
  "validate_result_transform raw subs catalog =
     rbind (validate_transform_shape raw) (\<lambda>result. (case result of
       None \<Rightarrow> Inr None
     | Some t \<Rightarrow>
         if map tool subs \<noteq> [''graph'', ''sql''] then Inl TransformNeedsGraphSql
         else rbind (validate_bom_shortage_route subs) (\<lambda>_. (case catalog of
             None \<Rightarrow> Inl TransformNeedsCatalog
           | Some cat \<Rightarrow> (case transform cat ''bom_shortage_v1'' of
                 Inl e \<Rightarrow> Inl (CatalogFailure e)
               | Inr spec \<Rightarrow> (case (map_of (ts_required_outputs spec) Graph,
                                    map_of (ts_required_outputs spec) Sql, subs) of
                     (Some expected_graph, Some expected_sql, [graph, sql]) \<Rightarrow>
                       if set (requiredOutputs graph) \<noteq> set expected_graph
                       then Inl TransformGraphOutputs
                       else if set (requiredOutputs sql) \<noteq> set expected_sql
                       then Inl TransformSqlOutputs
                       else Inr (Some t)
                   | (None, _, _) \<Rightarrow> Inl (CatalogFailure (MissingSource Graph))
                   | _ \<Rightarrow> Inl (CatalogFailure (MissingSource Sql))))))))"

subsection \<open>The topological order\<close>

fun deps_before_from :: "string set \<Rightarrow> 'a route_subquery_scheme list \<Rightarrow> bool" where
  "deps_before_from D [] = True"
| "deps_before_from D (x # xs) =
     (set (dependsOn x) \<subseteq> D \<and> deps_before_from (insert (subquery_id x) D) xs)"

abbreviation deps_before :: "'a route_subquery_scheme list \<Rightarrow> bool" where
  "deps_before xs \<equiv> deps_before_from {} xs"

lemma deps_before_from_append:
  "deps_before_from D (xs @ ys) \<longleftrightarrow>
     deps_before_from D xs \<and> deps_before_from (D \<union> set (ids xs)) ys"
  by (induction xs arbitrary: D) (auto simp: Un_commute)

lemma deps_before_from_ready:
  "\<forall>x \<in> set xs. set (dependsOn x) \<subseteq> D \<Longrightarrow> deps_before_from D xs"
proof (induction xs arbitrary: D)
  case Nil
  then show ?case by simp
next
  case (Cons x xs)
  have "deps_before_from (insert (subquery_id x) D) xs"
    using Cons.prems by (intro Cons.IH) auto
  with Cons.prems show ?case by simp
qed

definition pending_of ::
    "'a route_subquery_scheme list \<Rightarrow> string set \<Rightarrow> (string \<times> string list) list" where
  "pending_of items D =
     map (\<lambda>it. (subquery_id it, filter (\<lambda>d. d \<notin> D) (dependsOn it)))
       (filter (\<lambda>it. subquery_id it \<notin> D) items)"

definition ready_of ::
    "'a route_subquery_scheme list \<Rightarrow> string set \<Rightarrow> 'a route_subquery_scheme list" where
  "ready_of items D =
     filter (\<lambda>it. subquery_id it \<notin> D \<and> set (dependsOn it) \<subseteq> D) items"

lemma distinct_ids_unique:
  "distinct (ids items) \<Longrightarrow> x \<in> set items \<Longrightarrow> y \<in> set items \<Longrightarrow>
     subquery_id x = subquery_id y \<Longrightarrow> x = y"
  by (metis distinct_map inj_onD)

lemma subset_of_ids:
  assumes "distinct (ids items)" and "set (ids items) \<subseteq> set (ids xs)" and "set xs \<subseteq> set items"
  shows "set items \<subseteq> set xs"
proof
  fix it assume it: "it \<in> set items"
  with assms(2) obtain x where x: "x \<in> set xs" "subquery_id x = subquery_id it" by auto
  with assms(3) it distinct_ids_unique[OF assms(1)] show "it \<in> set xs" by blast
qed

lemma map_of_pending_of:
  assumes "distinct (ids items)" and "it \<in> set items"
  shows "map_of (pending_of items D) (subquery_id it) =
    (if subquery_id it \<in> D then None else Some (filter (\<lambda>d. d \<notin> D) (dependsOn it)))"
  using assms
proof (induction items)
  case Nil
  then show ?case by simp
next
  case (Cons x items)
  show ?case
  proof (cases "it = x")
    case True
    with Cons.prems have "\<forall>y \<in> set items. subquery_id y \<noteq> subquery_id it"
      by (metis distinct.simps(2) image_eqI list.set_map list.simps(9))
    then have "map_of (pending_of items D) (subquery_id it) = None"
      by (auto simp: pending_of_def map_of_eq_None_iff)
    with True show ?thesis by (auto simp: pending_of_def)
  next
    case False
    with Cons.prems have "it \<in> set items" "subquery_id x \<noteq> subquery_id it" by auto
    with Cons show ?thesis by (auto simp: pending_of_def)
  qed
qed

lemma ready_of_eq:
  assumes "distinct (ids items)"
  shows "filter (\<lambda>it. map_of (pending_of items D) (subquery_id it) = Some []) items =
    ready_of items D"
  unfolding ready_of_def using assms
  by (auto simp: map_of_pending_of filter_empty_conv split: if_splits intro!: filter_cong)

lemma pending_of_step:
  "fold discard_ready (ready_of items D) (pending_of items D) =
     pending_of items (D \<union> set (ids (ready_of items D)))"
  by (auto simp: fold_discard_ready pending_of_def filter_map o_def case_prod_beta'
      conj_commute intro!: map_cong filter_cong)

lemma topo_loop_step:
  assumes "distinct (ids items)"
  shows "topo_loop items (pending_of items D) ordered =
    (if set (ids items) \<subseteq> D then Inr ordered
     else if ready_of items D = [] then Inl CyclicDependency
     else topo_loop items (pending_of items (D \<union> set (ids (ready_of items D))))
            (ordered @ ready_of items D))"
proof -
  have "pending_of items D = [] \<longleftrightarrow> set (ids items) \<subseteq> D"
    by (auto simp: pending_of_def filter_empty_conv)
  then show ?thesis
    by (subst topo_loop.simps) (simp add: ready_of_eq[OF assms] pending_of_step Let_def)
qed

lemma ready_decreases:
  assumes "ready_of items D \<noteq> []"
  shows "card (set (ids items) - (D \<union> set (ids (ready_of items D)))) < card (set (ids items) - D)"
  by (rule psubset_card_mono) (use assms in \<open>auto simp: ready_of_def filter_empty_conv\<close>)

lemma topo_loop_sound:
  assumes "distinct (ids items)" and "distinct ordered" and "set ordered \<subseteq> set items"
    and "deps_before ordered"
    and "topo_loop items (pending_of items (set (ids ordered))) ordered = Inr res"
  shows "distinct res \<and> set res = set items \<and> deps_before res"
  using assms(2-5)
proof (induction "card (set (ids items) - set (ids ordered))" arbitrary: ordered rule: less_induct)
  case less
  let ?D = "set (ids ordered)" and ?R = "ready_of items (set (ids ordered))"
  note step = topo_loop_step[OF assms(1), of ?D ordered]
  show ?case
  proof (cases "set (ids items) \<subseteq> ?D")
    case True
    then have "set items \<subseteq> set ordered"
      using less.prems(2) by (rule subset_of_ids[OF assms(1)])
    with True step less.prems show ?thesis by auto
  next
    case False
    with step less.prems(4) have R: "?R \<noteq> []"
      and rec: "topo_loop items (pending_of items (set (ids (ordered @ ?R)))) (ordered @ ?R) = Inr res"
      by (auto split: if_splits)
    have "card (set (ids items) - set (ids (ordered @ ?R))) < card (set (ids items) - ?D)"
      using ready_decreases[OF R] by simp
    moreover have "distinct (ordered @ ?R)"
      using less.prems(1) assms(1) by (auto simp: ready_of_def distinct_map)
    moreover have "set (ordered @ ?R) \<subseteq> set items"
      using less.prems(2) by (auto simp: ready_of_def)
    moreover have "deps_before (ordered @ ?R)"
      using less.prems(3) deps_before_from_ready[of ?R ?D]
      by (auto simp: deps_before_from_append ready_of_def)
    ultimately show ?thesis using less.hyps rec by blast
  qed
qed

lemma deps_before_first_open:
  assumes "deps_before_from E ys" and "E \<subseteq> D" and "\<not> set (ids ys) \<subseteq> D"
  shows "\<exists>y \<in> set ys. subquery_id y \<notin> D \<and> set (dependsOn y) \<subseteq> D"
  using assms
proof (induction ys arbitrary: E)
  case Nil
  then show ?case by simp
next
  case (Cons y ys)
  show ?case
  proof (cases "subquery_id y \<in> D")
    case True
    with Cons.prems have "deps_before_from (insert (subquery_id y) E) ys"
      "insert (subquery_id y) E \<subseteq> D" "\<not> set (ids ys) \<subseteq> D" by auto
    from Cons.IH[OF this] show ?thesis by auto
  next
    case False
    with Cons.prems show ?thesis by auto
  qed
qed

lemma topo_loop_complete:
  assumes "distinct (ids items)" and "set ys = set items" and "deps_before ys"
  shows "\<exists>res. topo_loop items (pending_of items D) ordered = Inr res"
proof (induction "card (set (ids items) - D)" arbitrary: D ordered rule: less_induct)
  case less
  show ?case
  proof (cases "set (ids items) \<subseteq> D")
    case True
    then show ?thesis by (simp add: topo_loop_step[OF assms(1)])
  next
    case False
    with deps_before_first_open[OF assms(3), of D] assms(2)
    have "ready_of items D \<noteq> []" by (auto simp: ready_of_def filter_empty_conv)
    with less[OF ready_decreases] False show ?thesis
      by (subst topo_loop_step[OF assms(1)]) auto
  qed
qed

lemma topological_order_sound:
  assumes "topological_order items = Inr res"
  shows "distinct (ids res) \<and> set res = set items \<and> length res = length items \<and> deps_before res"
proof -
  from assms have d: "distinct (ids items)" by (auto simp: topological_order_def split: if_splits)
  have "map (\<lambda>item. (subquery_id item, dependsOn item)) items = pending_of items (set (ids []))"
    by (simp add: pending_of_def)
  with assms d have "distinct res \<and> set res = set items \<and> deps_before res"
    using topo_loop_sound[OF d, of "[]" res] by (simp add: topological_order_def)
  moreover from this d have "distinct (ids res)" by (metis distinct_map)
  moreover from calculation d have "length res = length items"
    by (metis distinct_card distinct_map)
  ultimately show ?thesis by blast
qed

lemma topological_order_complete:
  assumes "distinct (ids items)" and "set ys = set items" and "deps_before ys"
  shows "\<exists>res. topological_order items = Inr res"
proof -
  have "map (\<lambda>item. (subquery_id item, dependsOn item)) items = pending_of items {}"
    by (simp add: pending_of_def)
  with topo_loop_complete[OF assms, of "{}" "[]"] assms(1) show ?thesis
    by (simp add: topological_order_def)
qed

subsection \<open>Well-formed plans\<close>

definition string_array_ok :: "string list \<Rightarrow> bool" where
  "string_array_ok xs \<longleftrightarrow> distinct xs \<and> list_all (\<lambda>s. \<not> blank s) xs"

definition route_item_wf :: "'a route_subquery_scheme \<Rightarrow> bool" where
  "route_item_wf x \<longleftrightarrow> safe_identifier (subquery_id x) \<and> tool x \<in> set SUPPORTED_TOOLS \<and>
     \<not> blank (question x) \<and> string_array_ok (dependsOn x) \<and> string_array_ok (joinKeys x) \<and>
     dict_ok (inputBindings x) \<and> list_all safe_identifier (dict_keys (inputBindings x))"

definition item_wf :: "bool \<Rightarrow> subquery \<Rightarrow> bool" where
  "item_wf allow_empty x \<longleftrightarrow> route_item_wf x \<and> string_array_ok (requiredOutputs x) \<and>
     (allow_empty \<or> requiredOutputs x \<noteq> []) \<and> set (joinKeys x) \<subseteq> set (requiredOutputs x) \<and>
     list_all (\<lambda>src. count_list src CHR ''.'' = 1) (map snd (inputBindings x)) \<and>
     string_array_ok (generatorRules x)"

definition binding_source :: "string \<Rightarrow> string list" where
  "binding_source src = (case split_once CHR ''.'' src of None \<Rightarrow> [] | Some (d, _) \<Rightarrow> [d])"

definition binding_ok :: "subquery list \<Rightarrow> subquery \<Rightarrow> string \<Rightarrow> bool" where
  "binding_ok items x src = (case split_once CHR ''.'' src of
     None \<Rightarrow> False
   | Some (d, out) \<Rightarrow> d \<in> set (dependsOn x) \<and>
       list_ex (\<lambda>p. subquery_id p = d \<and> out \<in> set (requiredOutputs p)) items)"

definition sources_wf :: "subquery list \<Rightarrow> subquery \<Rightarrow> bool" where
  "sources_wf items x \<longleftrightarrow> list_all (binding_ok items x) (map snd (inputBindings x)) \<and>
     set (dependsOn x) = set (concat (map binding_source (map snd (inputBindings x)))) \<and>
     subquery_id x \<notin> set (dependsOn x)"

definition same_join_keys :: "'a route_subquery_scheme list \<Rightarrow> bool" where
  "same_join_keys xs \<longleftrightarrow> list_all (\<lambda>x. joinKeys x = joinKeys (hd xs)) xs"

definition plan_wf :: "bool \<Rightarrow> subquery list \<Rightarrow> bool" where
  "plan_wf allow_empty subs \<longleftrightarrow> subs \<noteq> [] \<and> length subs \<le> MAX_SUBQUERIES \<and>
     distinct (ids subs) \<and> distinct (map tool subs) \<and> deps_before subs \<and>
     same_join_keys subs \<and> list_all (item_wf allow_empty) subs \<and> list_all (sources_wf subs) subs"

lemma string_list_Inr_iff [result_simps]:
  "string_list v field sid = Inr xs \<longleftrightarrow> v = PList (map PStr xs) \<and> string_array_ok xs"
proof (cases "\<exists>items. v = PList items")
  case True
  then obtain items where v: "v = PList items" by blast
  have strs: "list_all is_str items \<Longrightarrow> map (PStr \<circ> str_of) items = items"
    by (induction items) (auto simp: is_str_iff)
  have "\<not> list_ex (\<lambda>item. \<not> is_str item \<or> blank (str_of item)) items \<longleftrightarrow>
      list_all is_str items \<and> list_all (\<lambda>s. \<not> blank s) (map str_of items)"
    by (induction items) auto
  moreover have "v = PList (map PStr xs) \<longleftrightarrow> list_all is_str items \<and> map str_of items = xs"
    using strs by (auto simp: v o_def list_all_iff)
  ultimately show ?thesis
    by (auto simp: v string_list_def string_array_ok_def)
qed (auto simp: string_list_def split: pyval.splits)

lemma read_id_Inr_iff [result_simps]:
  "read_id i d = Inr s \<longleftrightarrow> map_of d ''id'' = Some (PStr s) \<and> safe_identifier s"
  by (auto simp: read_id_def split: option.splits pyval.splits)

lemma read_tool_Inr_iff [result_simps]:
  "read_tool sid d = Inr t \<longleftrightarrow> map_of d ''tool'' = Some (PStr t) \<and> t \<in> set SUPPORTED_TOOLS"
  by (auto simp: read_tool_def dict_get_def is_str_iff split: option.splits)

lemma read_question_Inr_iff [result_simps]:
  "read_question sid d = Inr q \<longleftrightarrow> map_of d ''question'' = Some (PStr q) \<and> \<not> blank q"
  by (auto simp: read_question_def split: option.splits pyval.splits)

lemma read_binding_wf:
  assumes "rfold (read_binding sid) b bs = Inr bs'" and "dict_ok bs"
    and "list_all safe_identifier (dict_keys bs)"
    and "list_all (\<lambda>src. count_list src CHR ''.'' = 1) (map snd bs)"
  shows "dict_ok bs' \<and> list_all safe_identifier (dict_keys bs') \<and>
    list_all (\<lambda>src. count_list src CHR ''.'' = 1) (map snd bs')"
proof -
  let ?P = "\<lambda>m. dict_ok m \<and> list_all safe_identifier (dict_keys m) \<and>
    list_all (\<lambda>src. count_list src CHR ''.'' = 1) (map snd m)"
  have "?P (AList.update k v m)" if "?P m" "safe_identifier k" "count_list v CHR ''.'' = 1" for k v m
    using that by (induction m) (auto simp: dict_keys_def dict_ok_def distinct_update update_keys)
  then show ?thesis
    by (rule_tac rfold_invariant[OF assms(1), of ?P])
      (use assms(2-4) in \<open>auto simp: read_binding_def result_simps split: prod.splits\<close>)
qed

lemma read_subquery_wf:
  assumes "read_subquery allow_empty (i, raw) = Inr x"
  shows "item_wf allow_empty x"
proof -
  obtain d where d: "raw = PDict d" using assms by (cases raw) (auto simp: read_subquery_def)
  have rules: "string_array_ok rs" if "read_generator_rules sid v = Inr rs" for sid v rs
    using that by (auto simp: read_generator_rules_def result_simps string_array_ok_def split: if_splits)
  have binds: "dict_ok bs \<and> list_all safe_identifier (dict_keys bs) \<and>
      list_all (\<lambda>src. count_list src CHR ''.'' = 1) (map snd bs)"
    if "read_bindings sid v = Inr bs" for sid v bs
    using that read_binding_wf[of sid _ "[]" bs]
    by (cases v) (auto simp: read_bindings_def dict_keys_def)
  from assms obtain sid t q deps outs keys bs rs where
      x: "x = \<lparr>subquery_id = sid, tool = t, question = q, dependsOn = deps, joinKeys = keys,
        inputBindings = bs, requiredOutputs = outs, generatorRules = rs\<rparr>"
    and "safe_identifier sid" "t \<in> set SUPPORTED_TOOLS" "\<not> blank q" "string_array_ok deps"
      "string_array_ok outs" "outs \<noteq> [] \<or> allow_empty" "string_array_ok keys" "set keys \<subseteq> set outs"
    and bs: "read_bindings sid (dict_get d ''inputBindings'' (PDict [])) = Inr bs"
    and rs: "read_generator_rules sid (dict_get d ''generatorRules'' (PList [])) = Inr rs"
    unfolding d read_subquery_def by (auto simp: result_simps Let_def split: if_splits)
  with binds[OF bs] rules[OF rs] show ?thesis by (auto simp: item_wf_def route_item_wf_def)
qed

lemma find_subquery_Some_iff:
  assumes "distinct (ids items)"
  shows "find_subquery items i = Some p \<longleftrightarrow> p \<in> set items \<and> subquery_id p = i"
  using assms
proof (induction items)
  case Nil
  then show ?case by (simp add: find_subquery_def)
next
  case (Cons x items)
  then show ?case by (auto simp: find_subquery_def)
qed

lemma check_binding_Inr_iff [result_simps]:
  assumes "distinct (ids items)" and "set (dependsOn x) \<subseteq> set (ids items)"
  shows "check_binding items x src deps = Inr res \<longleftrightarrow>
    binding_ok items x src \<and> res = deps @ binding_source src"
proof (cases "split_once CHR ''.'' src")
  case None
  then show ?thesis by (simp add: check_binding_def binding_ok_def)
next
  case (Some do)
  obtain d out where src: "split_once CHR ''.'' src = Some (d, out)" using Some by (cases do) auto
  show ?thesis
  proof (cases "d \<in> set (dependsOn x)")
    case False
    then show ?thesis by (simp add: src check_binding_def binding_ok_def)
  next
    case True
    with assms(2) obtain p where p: "p \<in> set items" "subquery_id p = d" by auto
    then have f: "find_subquery items d = Some p" by (simp add: find_subquery_Some_iff[OF assms(1)])
    have "list_ex (\<lambda>q. subquery_id q = d \<and> out \<in> set (requiredOutputs q)) items \<longleftrightarrow>
        out \<in> set (requiredOutputs p)"
      using p distinct_ids_unique[OF assms(1)] by (auto simp: list_ex_iff)
    with True f show ?thesis
      by (auto simp: src check_binding_def binding_ok_def binding_source_def)
  qed
qed

lemma check_bindings_Inr_iff [result_simps]:
  assumes "distinct (ids items)" and "set (dependsOn x) \<subseteq> set (ids items)"
  shows "rfold (check_binding items x) srcs deps = Inr res \<longleftrightarrow>
    list_all (binding_ok items x) srcs \<and> res = deps @ concat (map binding_source srcs)"
  by (induction srcs arbitrary: deps)
    (auto simp: check_binding_Inr_iff[OF assms] rbind_Inr_iff)

lemma binding_ok_mono: "set items = set items' \<Longrightarrow> binding_ok items = binding_ok items'"
  by (intro ext) (simp add: binding_ok_def list_ex_iff split: option.splits)

lemma check_item_Inr_iff [result_simps]:
  assumes "distinct (ids items)"
  shows "check_item items x = Inr () \<longleftrightarrow>
    sources_wf items x \<and> set (dependsOn x) \<subseteq> set (ids items)"
  unfolding check_item_def sources_wf_def
  by (cases "set (dependsOn x) \<subseteq> set (ids items)")
    (auto simp: check_bindings_Inr_iff[OF assms] rbind_Inr_iff list_ex_iff)

lemma check_hybrid_keys_iff:
  "length xs \<le> 2 \<Longrightarrow> check_hybrid_keys xs = Inr () \<longleftrightarrow> same_join_keys xs"
  by (auto simp: check_hybrid_keys_def same_join_keys_def split: list.splits)

lemma enumerate_rmap_length: "rmap f (enumerate n xs) = Inr ys \<Longrightarrow> length ys = length xs"
  by (auto simp: rmap_Inr_iff dest: list_all2_lengthD)

lemma order_checked_sound:
  assumes "order_checked check xs = Inr ys" and "length xs \<le> 2"
  shows "distinct (ids ys) \<and> distinct (map tool ys) \<and> deps_before ys \<and> same_join_keys ys \<and>
    set ys = set xs \<and> length ys = length xs \<and> (\<forall>x \<in> set xs. check x = Inr ())"
proof -
  from assms(1) have d: "distinct (ids xs)" "distinct (map tool xs)"
    and c: "\<forall>x \<in> set xs. check x = Inr ()" and t: "topological_order xs = Inr ys"
    and h: "check_hybrid_keys ys = Inr ()"
    by (auto simp: order_checked_def result_simps rmap_unit_iff split: if_splits)
  note s = topological_order_sound[OF t]
  from s d(2) have "distinct (map tool ys)"
    by (metis card_distinct distinct_card length_map list.set_map)
  with s c h assms(2) show ?thesis by (auto simp: check_hybrid_keys_iff)
qed

lemma validate_subqueries_sound:
  assumes "validate_subqueries raw allow_empty = Inr subs"
  shows "plan_wf allow_empty subs"
proof -
  from assms obtain rs xs where r: "raw = PList rs" "rs \<noteq> []" "length rs \<le> 2"
    and read: "rmap (read_subquery allow_empty) (enumerate 0 rs) = Inr xs"
    and chk: "order_checked (check_item xs) xs = Inr subs"
    by (auto simp: validate_subqueries_def result_simps MAX_SUBQUERIES_def
        split: pyval.splits if_splits)
  have len: "length xs = length rs" by (rule enumerate_rmap_length[OF read])
  with r(3) order_checked_sound[OF chk] have o: "distinct (ids subs)" "distinct (map tool subs)"
    "deps_before subs" "same_join_keys subs" "set subs = set xs" "length subs = length xs"
    "\<forall>x \<in> set xs. check_item xs x = Inr ()" by auto
  have "distinct (ids xs)" using chk by (auto simp: order_checked_def split: if_splits)
  with o(7) have "list_all (sources_wf xs) xs" by (auto simp: check_item_Inr_iff list_all_iff)
  moreover have "sources_wf subs = sources_wf xs"
    by (intro ext) (simp only: sources_wf_def binding_ok_mono[OF o(5)])
  ultimately have "list_all (sources_wf subs) subs" using o(5) by (simp add: list_all_iff)
  moreover have "list_all (item_wf allow_empty) subs"
    using rmap_member[OF read] o(5) by (fastforce simp: list_all_iff dest: read_subquery_wf)
  ultimately show ?thesis using o r len by (auto simp: plan_wf_def MAX_SUBQUERIES_def)
qed

subsection \<open>Validation accepts every well-formed plan unchanged\<close>

definition encode_subquery :: "subquery \<Rightarrow> pyval" where
  "encode_subquery x = PDict
     ([(''id'', PStr (subquery_id x)), (''tool'', PStr (tool x)), (''question'', PStr (question x)),
       (''dependsOn'', PList (map PStr (dependsOn x))),
       (''requiredOutputs'', PList (map PStr (requiredOutputs x))),
       (''joinKeys'', PList (map PStr (joinKeys x)))] @
      (if inputBindings x = [] then []
       else [(''inputBindings'', PDict (map (\<lambda>(k, v). (k, PStr v)) (inputBindings x)))]) @
      (if generatorRules x = [] then []
       else [(''generatorRules'', PList (map PStr (generatorRules x)))]))"

lemma read_bindings_encode:
  assumes "distinct (map fst (acc @ bs))" and "list_all safe_identifier (map fst bs)"
    and "list_all (\<lambda>src. count_list src CHR ''.'' = 1) (map snd bs)"
  shows "rfold (read_binding sid) (map (\<lambda>(k, v). (k, PStr v)) bs) acc = Inr (acc @ bs)"
  using assms
proof (induction bs arbitrary: acc)
  case Nil
  then show ?case by simp
next
  case (Cons b bs)
  obtain k v where b: "b = (k, v)" by (cases b)
  have "rfold (read_binding sid) (map (\<lambda>(k, v). (k, PStr v)) bs) (acc @ [(k, v)]) =
      Inr ((acc @ [(k, v)]) @ bs)"
    using Cons.prems by (intro Cons.IH) (auto simp: b)
  moreover have "read_binding sid (k, PStr v) acc = Inr (acc @ [(k, v)])"
    using Cons.prems by (auto simp: b read_binding_def update_new_key)
  ultimately show ?case by (simp add: b)
qed

lemma read_bindings_encoded:
  assumes "dict_ok bs" and "list_all safe_identifier (dict_keys bs)"
    and "list_all (\<lambda>src. count_list src CHR ''.'' = 1) (map snd bs)"
  shows "read_bindings sid (PDict (map (\<lambda>(k, v). (k, PStr v)) bs)) = Inr bs"
  using assms read_bindings_encode[of "[]" bs sid]
  by (simp add: read_bindings_def dict_ok_def dict_keys_def)

lemma read_encode_subquery:
  assumes "item_wf allow_empty x"
  shows "read_subquery allow_empty (i, encode_subquery x) = Inr x"
proof -
  have str: "string_list (PList (map PStr xs)) f s = Inr xs" if "string_array_ok xs" for xs f s
    using that by (simp add: string_list_Inr_iff)
  have rules: "read_generator_rules s (PList (map PStr rs)) = Inr rs"
    if "string_array_ok rs" for s rs
    using str[OF that] by (cases rs) (simp_all add: read_generator_rules_def)
  have binds: "read_bindings (subquery_id x)
      (PDict (map (\<lambda>(k, v). (k, PStr v)) (inputBindings x))) = Inr (inputBindings x)"
    using assms by (intro read_bindings_encoded) (simp_all add: item_wf_def route_item_wf_def)
  have "read_bindings (subquery_id x) (PDict []) = Inr (inputBindings x)" if "inputBindings x = []"
    using that by (simp add: read_bindings_def)
  moreover have "read_generator_rules s (PList []) = Inr []" for s
    by (simp add: read_generator_rules_def)
  ultimately show ?thesis
    using assms binds
    by (auto simp: read_subquery_def encode_subquery_def item_wf_def route_item_wf_def
        dict_keys_def EXECUTION_FIELDS_def dict_get_def str rules read_id_def read_tool_def
        read_question_def Let_def)
qed

lemma topological_order_sorted:
  assumes "deps_before xs" and "distinct (ids xs)" and "length xs \<le> 2"
  shows "topological_order xs = Inr xs"
proof -
  consider "xs = []" | x where "xs = [x]" | x y where "xs = [x, y]"
    using assms(3) by (cases xs; cases "tl xs") auto
  then show ?thesis
  proof cases
    case 1
    then show ?thesis by (simp add: topological_order_def topo_loop.simps)
  next
    case (2 x)
    with assms(1,2) show ?thesis
      by (simp add: topological_order_def topo_loop.simps discard_ready_def)
  next
    case (3 x y)
    with assms(1,2) show ?thesis
      by (cases "dependsOn y = []")
        (auto simp: topological_order_def topo_loop.simps discard_ready_def filter_empty_conv)
  qed
qed

lemma deps_before_no_unknown: "deps_before_from D xs \<Longrightarrow> x \<in> set xs \<Longrightarrow>
    set (dependsOn x) \<subseteq> D \<union> set (ids xs)"
  by (induction xs arbitrary: D) fastforce+

lemma validate_subqueries_complete:
  assumes "plan_wf allow_empty subs"
  shows "validate_subqueries (PList (map encode_subquery subs)) allow_empty = Inr subs"
proof -
  note wf = assms[unfolded plan_wf_def]
  have read: "rmap (read_subquery allow_empty) (enumerate n (map encode_subquery xs)) = Inr xs"
    if "list_all (item_wf allow_empty) xs" for n xs
    using that by (induction xs arbitrary: n) (auto simp: read_encode_subquery)
  have chk: "check_item subs x = Inr ()" if "x \<in> set subs" for x
    using that wf deps_before_no_unknown[of "{}" subs x] by (auto simp: check_item_Inr_iff list_all_iff)
  have "topological_order subs = Inr subs"
    using wf by (intro topological_order_sorted) (auto simp: MAX_SUBQUERIES_def)
  moreover have "check_hybrid_keys subs = Inr ()"
    using wf by (simp add: check_hybrid_keys_iff MAX_SUBQUERIES_def)
  moreover have "rmap (check_item subs) subs = Inr (map (\<lambda>_. ()) subs)"
    using chk by (intro rmap_all_Inr) auto
  ultimately have "order_checked (check_item subs) subs = Inr subs"
    using wf by (simp add: order_checked_def)
  with wf read[of subs 0] show ?thesis by (auto simp: validate_subqueries_def MAX_SUBQUERIES_def)
qed

subsection \<open>The route boundary\<close>

definition route_binding_ok ::
    "semantic_catalog option \<Rightarrow> route_subquery list \<Rightarrow> route_subquery \<Rightarrow> string \<Rightarrow> bool" where
  "route_binding_ok catalog items x src = (case split_once CHR ''.'' src of
     None \<Rightarrow> False
   | Some (d, out) \<Rightarrow> d \<in> set (dependsOn x) \<and>
       (case find_subquery items d of
          None \<Rightarrow> False
        | Some p \<Rightarrow> (case catalog of
            None \<Rightarrow> True
          | Some cat \<Rightarrow> (case allowed_aliases cat (tool p) of
               Inl _ \<Rightarrow> False | Inr allowed \<Rightarrow> out \<in> set allowed))))"

definition route_wf :: "string list \<Rightarrow> semantic_catalog option \<Rightarrow> route_subquery list \<Rightarrow> bool" where
  "route_wf shared_aliases catalog subs \<longleftrightarrow> subs \<noteq> [] \<and> length subs \<le> MAX_SUBQUERIES \<and>
     distinct (ids subs) \<and> distinct (map tool subs) \<and> deps_before subs \<and> same_join_keys subs \<and>
     list_all (\<lambda>x. route_item_wf x \<and> set (joinKeys x) \<subseteq> set shared_aliases \<and>
       subquery_id x \<notin> set (dependsOn x) \<and>
       list_all (route_binding_ok catalog subs x) (map snd (inputBindings x)) \<and>
       set (dependsOn x) = set (concat (map binding_source (map snd (inputBindings x))))) subs"

lemma compile_bindings_wf:
  assumes "rfold (compile_binding sid) raws bs = Inr bs'" and "dict_ok bs"
    and "list_all safe_identifier (dict_keys bs)"
  shows "dict_ok bs' \<and> list_all safe_identifier (dict_keys bs')"
proof -
  let ?P = "\<lambda>m :: (string, string) dict. dict_ok m \<and> list_all safe_identifier (dict_keys m)"
  have upd: "?P (AList.update k v m)" if "?P m" "safe_identifier k" for k v and m :: "(string, string) dict"
    using that by (auto simp: dict_keys_def dict_ok_def distinct_update update_keys list_all_iff)
  have step: "?P n" if m: "?P m" and n: "compile_binding sid (index, raw) m = Inr n" for index raw m n
  proof -
    obtain b where b: "raw = PDict b" using n by (cases raw) (auto simp: compile_binding_def)
    let ?k = "str_of (dict_get b ''target'' PNone)"
    let ?v = "str_of (dict_get b ''sourceSubqueryId'' PNone) @ ''.'' @
      str_of (dict_get b ''sourceOutput'' PNone)"
    from n b have "n = AList.update ?k ?v m" and "safe_identifier ?k"
      by (simp_all add: compile_binding_def Let_def split: if_split_asm)
    with upd[OF m] show ?thesis by simp
  qed
  show ?thesis
  proof (rule rfold_invariant[OF assms(1), of ?P])
    show "?P t" if "?P s" "compile_binding sid x s = Inr t" for x s t
    proof (rule step[OF that(1)])
      show "compile_binding sid (fst x, snd x) s = Inr t" using that(2) by simp
    qed
  qed (use assms(2,3) in simp)
qed

lemma read_route_subquery_wf:
  assumes "read_route_subquery shared (i, raw) = Inr x"
  shows "route_item_wf x \<and> set (joinKeys x) \<subseteq> set shared"
proof -
  obtain d where d: "raw = PDict d" using assms by (cases raw) (auto simp: read_route_subquery_def)
  from assms obtain sid t q deps keys bs where
      x: "x = \<lparr>subquery_id = sid, tool = t, question = q, dependsOn = deps, joinKeys = keys,
        inputBindings = bs\<rparr>"
    and "safe_identifier sid" "t \<in> set SUPPORTED_TOOLS" "\<not> blank q" "string_array_ok deps"
      "string_array_ok keys" "\<forall>k \<in> set keys. k \<in> set shared"
    and bs: "compile_binding_array (dict_get d ''inputBindings'' PNone) sid = Inr bs"
    unfolding d read_route_subquery_def
    by (auto simp: result_simps Let_def filter_empty_conv split: if_splits)
  moreover from bs have "dict_ok bs \<and> list_all safe_identifier (dict_keys bs)"
    using compile_bindings_wf[of sid _ "[]" bs]
    by (auto simp: compile_binding_array_def dict_keys_def split: pyval.splits)
  ultimately show ?thesis by (auto simp: route_item_wf_def)
qed

lemma check_route_binding_Inr_iff:
  "check_route_binding catalog items x src deps = Inr res \<longleftrightarrow>
     route_binding_ok catalog items x src \<and> res = deps @ binding_source src"
  by (auto simp: check_route_binding_def route_binding_ok_def binding_source_def
      split: option.splits prod.splits sum.splits)

lemma check_route_bindings_Inr_iff:
  "rfold (check_route_binding catalog items x) srcs deps = Inr res \<longleftrightarrow>
     list_all (route_binding_ok catalog items x) srcs \<and> res = deps @ concat (map binding_source srcs)"
  by (induction srcs arbitrary: deps) (auto simp: check_route_binding_Inr_iff rbind_Inr_iff)

lemma find_subquery_same_set:
  assumes "distinct (ids xs)" and "distinct (ids ys)" and "set xs = set ys"
  shows "find_subquery xs = find_subquery ys"
proof
  fix i
  show "find_subquery xs i = find_subquery ys i"
    using find_subquery_Some_iff[OF assms(1), of i] find_subquery_Some_iff[OF assms(2), of i] assms(3)
    by (metis option.exhaust)
qed

lemma validate_route_subqueries_sound:
  assumes "validate_route_subqueries raw shared catalog = Inr subs"
  shows "route_wf shared catalog subs"
proof -
  from assms obtain rs xs where r: "raw = PList rs" "rs \<noteq> []" "length rs \<le> 2"
    and read: "rmap (read_route_subquery shared) (enumerate 0 rs) = Inr xs"
    and chk: "order_checked (check_route_item catalog xs) xs = Inr subs"
    by (auto simp: validate_route_subqueries_def result_simps MAX_SUBQUERIES_def
        split: pyval.splits if_splits)
  have len: "length xs = length rs" by (rule enumerate_rmap_length[OF read])
  with r(3) order_checked_sound[OF chk] have o: "distinct (ids subs)" "distinct (map tool subs)"
    "deps_before subs" "same_join_keys subs" "set subs = set xs" "length subs = length xs"
    "\<forall>x \<in> set xs. check_route_item catalog xs x = Inr ()" by auto
  have "distinct (ids xs)" using chk by (auto simp: order_checked_def split: if_splits)
  with o(1,5) have f: "find_subquery subs = find_subquery xs" by (intro find_subquery_same_set) auto
  have bind: "route_binding_ok catalog subs = route_binding_ok catalog xs"
    by (intro ext) (simp only: route_binding_ok_def f)
  have item: "route_item_wf x \<and> set (joinKeys x) \<subseteq> set shared" if "x \<in> set xs" for x
    using rmap_member[OF read that] by (auto dest: read_route_subquery_wf)
  have src: "subquery_id x \<notin> set (dependsOn x) \<and>
      list_all (route_binding_ok catalog xs x) (map snd (inputBindings x)) \<and>
      set (dependsOn x) = set (concat (map binding_source (map snd (inputBindings x))))"
    if "x \<in> set xs" for x
    using o(7) that unfolding check_route_item_def
    by (auto simp: check_route_bindings_Inr_iff rbind_Inr_iff if_Inl_Inr_iff)
  have "list_all (\<lambda>x. route_item_wf x \<and> set (joinKeys x) \<subseteq> set shared \<and>
       subquery_id x \<notin> set (dependsOn x) \<and>
       list_all (route_binding_ok catalog subs x) (map snd (inputBindings x)) \<and>
       set (dependsOn x) = set (concat (map binding_source (map snd (inputBindings x))))) subs"
    by (simp only: list_all_iff[of _ subs] bind o(5)) (use item src in blast)
  moreover have "subs \<noteq> []" using r(2) len o(6) by auto
  ultimately show ?thesis using o r(3) len by (simp only: route_wf_def MAX_SUBQUERIES_def) simp
qed

text \<open>A binding whose producer id is a safe identifier is split back into its two parts.\<close>

lemma compiled_binding_round_trip:
  "safe_identifier source_id \<Longrightarrow>
     split_once CHR ''.'' (source_id @ ''.'' @ source_output) = Some (source_id, source_output)"
  by (simp add: split_once_append dot_not_in_safe_identifier)

subsection \<open>The formal transform\<close>

definition positive_finite :: "pyval \<Rightarrow> bool" where
  "positive_finite v = (case v of
     PInt n \<Rightarrow> 0 < n \<and> int_is_finite n | PFloat (FFin x _ _) \<Rightarrow> 0 < x | _ \<Rightarrow> False)"

lemma validate_transform_shape_positive:
  "validate_transform_shape raw = Inr (Some t) \<Longrightarrow> positive_finite (productionQty t)"
proof -
  assume v: "validate_transform_shape raw = Inr (Some t)"
  then obtain d where d: "raw = PDict d" by (cases raw) (auto simp: validate_transform_shape_def)
  with v obtain q where q: "map_of d ''productionQty'' = Some q"
    by (cases "map_of d ''productionQty''") (auto simp: validate_transform_shape_def split: if_splits)
  show ?thesis
  proof (cases q)
    case (PFloat f)
    with v d q show ?thesis
      by (cases f) (simp_all add: validate_transform_shape_def positive_finite_def split: if_split_asm,
        auto)
  next
    case (PInt n)
    with v d q show ?thesis
      by (simp add: validate_transform_shape_def positive_finite_def split: if_split_asm) auto
  qed (use v d q in \<open>simp_all add: validate_transform_shape_def split: if_split_asm\<close>)
qed

definition transform_source_wf :: "semantic_catalog \<Rightarrow> subquery \<Rightarrow> subquery \<Rightarrow> bool" where
  "transform_source_wf cat graph sql = (case transform cat ''bom_shortage_v1'' of
     Inl _ \<Rightarrow> False
   | Inr spec \<Rightarrow>
       map_option set (map_of (ts_required_outputs spec) Graph) = Some (set (requiredOutputs graph)) \<and>
       map_option set (map_of (ts_required_outputs spec) Sql) = Some (set (requiredOutputs sql)))"

lemma validate_result_transform_sound:
  assumes "validate_result_transform raw subs catalog = Inr (Some t)"
  shows "positive_finite (productionQty t) \<and> (\<exists>graph sql cat. subs = [graph, sql] \<and>
    catalog = Some cat \<and> tool graph = ''graph'' \<and> tool sql = ''sql'' \<and>
    dependsOn sql = [subquery_id graph] \<and> joinKeys graph = [''componentId''] \<and>
    joinKeys sql = [''componentId''] \<and>
    inputBindings sql = [(''componentIds'', subquery_id graph @ ''.componentId'')] \<and>
    transform_source_wf cat graph sql)"
proof -
  note vrt = validate_result_transform_def
  obtain r where r: "validate_transform_shape raw = Inr r"
    using assms by (cases "validate_transform_shape raw") (simp_all add: vrt)
  obtain t' where t': "r = Some t'" using assms r by (cases r) (simp_all add: vrt)
  have tools: "map tool subs = [''graph'', ''sql'']"
    using assms r t' by (simp add: vrt split: if_split_asm)
  have route: "validate_bom_shortage_route subs = Inr ()"
    using assms r t' tools by (cases "validate_bom_shortage_route subs") (simp_all add: vrt)
  then obtain graph sql where gs: "subs = [graph, sql]" "tool graph = ''graph''"
    "tool sql = ''sql''" "dependsOn sql = [subquery_id graph]" "joinKeys graph = [''componentId'']"
    "joinKeys sql = [''componentId'']"
    "inputBindings sql = [(''componentIds'', subquery_id graph @ ''.componentId'')]"
    by (auto simp: validate_bom_shortage_route_def split: if_splits list.splits)
  obtain cat where cat: "catalog = Some cat"
    using assms r t' tools route by (cases catalog) (simp_all add: vrt)
  obtain spec where spec: "transform cat ''bom_shortage_v1'' = Inr spec"
    using assms r t' tools route cat by (cases "transform cat ''bom_shortage_v1''") (simp_all add: vrt)
  have out: "transform_source_wf cat graph sql \<and> t' = t"
    using assms r t' tools route cat spec
    by (simp add: vrt transform_source_wf_def gs(1) split: option.splits if_split_asm)
  have shape: "validate_transform_shape raw = Inr (Some t)" using r t' out by simp
  from gs cat out validate_transform_shape_positive[OF shape] show ?thesis by blast
qed

subsection \<open>Properties\<close>

text \<open>\<open>_topological_order\<close> returns every subquery exactly once, each after all of its
  dependencies.\<close>

theorem topological_order_respects_dependencies:
  assumes "topological_order items = Inr res"
  shows "distinct (ids res) \<and> set res = set items \<and> length res = length items \<and> deps_before res"
  using assms by (rule topological_order_sound)

definition example_graph :: subquery where
  "example_graph = \<lparr>subquery_id = ''g'', tool = ''graph'', question = ''q'', dependsOn = [],
     joinKeys = [''componentId''], inputBindings = [], requiredOutputs = [''componentId''],
     generatorRules = []\<rparr>"

definition example_sql :: subquery where
  "example_sql = \<lparr>subquery_id = ''s'', tool = ''sql'', question = ''q'', dependsOn = [''g''],
     joinKeys = [''componentId''], inputBindings = [(''componentIds'', ''g.componentId'')],
     requiredOutputs = [''componentId''], generatorRules = []\<rparr>"

theorem topological_order_respects_dependencies_witness:
  "topological_order [example_sql, example_graph] = Inr [example_graph, example_sql] \<and>
   deps_before [example_graph, example_sql]"
proof -
  have t: "topological_order [example_sql, example_graph] = Inr [example_graph, example_sql]"
    by (simp add: topological_order_def topo_loop.simps discard_ready_def example_graph_def example_sql_def)
  from topological_order_respects_dependencies[OF t] t show ?thesis by simp
qed

text \<open>C2: \<open>_topological_order\<close> succeeds on exactly the lists with unique ids that some arrangement
  puts in dependency order; on every other list it raises, so a cycle is never executed.\<close>

theorem topological_order_succeeds_iff:
  "(\<exists>res. topological_order items = Inr res) \<longleftrightarrow>
     distinct (ids items) \<and> (\<exists>ys. set ys = set items \<and> deps_before ys)"
proof
  assume "\<exists>res. topological_order items = Inr res"
  then obtain res where r: "topological_order items = Inr res" by blast
  then have "distinct (ids items)" by (auto simp: topological_order_def split: if_splits)
  with topological_order_sound[OF r] show "distinct (ids items) \<and> (\<exists>ys. set ys = set items \<and> deps_before ys)"
    by blast
qed (blast intro: topological_order_complete)

text \<open>C1: \<open>validate_subqueries\<close> returns exactly the well-formed execution plans: a plan is the result
  of validating some input if and only if it has one or two subqueries with unique safe ids, one
  per supported source, in dependency order, with bindings that name required outputs of their
  dependencies, join keys among the required outputs and equal on both sources.\<close>

theorem validate_subqueries_accepts_iff:
  "(\<exists>raw. validate_subqueries raw allow_empty = Inr subs) \<longleftrightarrow> plan_wf allow_empty subs"
  using validate_subqueries_sound validate_subqueries_complete by blast

text \<open>C4: validating the dictionaries of an accepted plan again returns the same plan in the same
  order.\<close>

theorem validate_subqueries_idempotent:
  assumes "validate_subqueries raw allow_empty = Inr subs"
  shows "validate_subqueries (PList (map encode_subquery subs)) allow_empty = Inr subs"
  using assms by (intro validate_subqueries_complete) (rule validate_subqueries_sound)

lemma example_plan_wf: "plan_wf False [example_graph, example_sql]"
  by code_simp

theorem validate_subqueries_idempotent_witness:
  "validate_subqueries (PList (map encode_subquery [example_graph, example_sql])) False =
     Inr [example_graph, example_sql]"
  by (rule validate_subqueries_idempotent[OF validate_subqueries_complete[OF example_plan_wf]])

text \<open>C3: every accepted route draft has only shared join aliases, producers that own the bound
  output in the catalog, dependencies that are exactly the bound ones, and agreeing join keys.\<close>

theorem accepted_route_is_well_formed:
  assumes "validate_route_subqueries raw shared catalog = Inr subs"
  shows "route_wf shared catalog subs"
  using assms by (rule validate_route_subqueries_sound)

definition example_route :: pyval where
  "example_route = PList [PDict [(''id'', PStr ''g''), (''tool'', PStr ''graph''),
     (''question'', PStr ''q''), (''dependsOn'', PList []), (''joinKeys'', PList []),
     (''inputBindings'', PList [])]]"

theorem accepted_route_is_well_formed_witness:
  "\<exists>subs. validate_route_subqueries example_route DEFAULT_SHARED_JOIN_ALIASES None = Inr subs \<and>
     route_wf DEFAULT_SHARED_JOIN_ALIASES None subs"
proof -
  have "validate_route_subqueries example_route DEFAULT_SHARED_JOIN_ALIASES None =
      Inr [\<lparr>subquery_id = ''g'', tool = ''graph'', question = ''q'', dependsOn = [], joinKeys = [],
           inputBindings = []\<rparr>]"
    by code_simp
  from accepted_route_is_well_formed[OF this] this show ?thesis by blast
qed

text \<open>an accepted result transform has a finite positive production quantity and the plan is one
  Graph producer and one SQL consumer joined on \<open>componentId\<close>, bound by \<open>componentIds\<close>, with exactly
  the outputs the catalog's transform declares.\<close>

theorem accepted_transform_contract:
  assumes "validate_result_transform raw subs catalog = Inr (Some t)"
  shows "positive_finite (productionQty t) \<and> (\<exists>graph sql cat. subs = [graph, sql] \<and>
    catalog = Some cat \<and> tool graph = ''graph'' \<and> tool sql = ''sql'' \<and>
    dependsOn sql = [subquery_id graph] \<and> joinKeys graph = [''componentId''] \<and>
    joinKeys sql = [''componentId''] \<and>
    inputBindings sql = [(''componentIds'', subquery_id graph @ ''.componentId'')] \<and>
    transform_source_wf cat graph sql)"
  using assms by (rule validate_result_transform_sound)

definition example_catalog :: semantic_catalog where
  "example_catalog = \<lparr>ontology_version = ''v1'', by_tool = [], identity_aliases_by_tool = [],
     shared_join_aliases = [], entity_roles = [], result_shapes = [],
     transforms = [(''bom_shortage_v1'', \<lparr>transform_id = ''bom_shortage_v1'', output_scale = 3,
       ts_required_outputs = [(Graph, [''componentId'']), (Sql, [''componentId''])],
       ts_generator_rules = []\<rparr>)]\<rparr>"

theorem accepted_transform_contract_witness:
  "validate_result_transform
     (PDict [(''type'', PStr ''bom_shortage_v1''), (''productionQty'', PInt 3)])
     [example_graph, example_sql] (Some example_catalog) = Inr (Some \<lparr>productionQty = PInt 3\<rparr>) \<and>
   positive_finite (PInt 3)"
proof -
  have v: "validate_result_transform
      (PDict [(''type'', PStr ''bom_shortage_v1''), (''productionQty'', PInt 3)])
      [example_graph, example_sql] (Some example_catalog) = Inr (Some \<lparr>productionQty = PInt 3\<rparr>)"
    by code_simp
  from accepted_transform_contract[OF v] v show ?thesis by simp
qed

end
