(* ===== verification/Ontology.thy ===== *)
theory Ontology
  imports Semantic_Catalog
begin

text \<open>
  The manufacturing ontology (\<open>orchestrator/semantic_catalog.py\<close>, classes \<open>SourceMappings\<close> to
  \<open>ManufacturingOntology\<close>): the declared meaning that the catalog builder compiles, and the
  validators of its classes.  A record value is a document whose fields have their declared types;
  the length and range constraints of the field declarations are part of the \<open>validate\<close> functions.
  An identity projection and a shape source have the fields of their compiled forms, so the
  definitions reuse those records; \<open>rs_min_hops\<close> holds the invariant parameters.
\<close>

record source_mappings =
  sm_sql :: "string list"
  sm_graph :: "string list"

record output_role_definition =
  or_role_id :: string
  or_alias :: string
  or_canonical :: string
  or_terms :: "string list"
  or_value_type :: value_type
  or_mappings :: source_mappings

record entity_role_definition =
  ed_role_id :: string
  ed_canonical :: string
  ed_terms :: "string list"
  ed_identity_projection :: "(tool_name, identity_projection_spec) dict"
  ed_predicates :: "(tool_name, typed_predicate list) dict"

record result_shape_definition =
  sd_shape_id :: string
  sd_canonical :: string
  sd_trigger_term_groups :: "string list list"
  sd_sources :: "(tool_name, result_shape_source_spec) dict"

record business_concept_definition =
  bc_concept_id :: string
  bc_alias :: string
  bc_canonical :: string
  bc_terms :: "string list"
  bc_kind :: alias_kind
  bc_sources :: "tool_name list"
  bc_grain :: "string list"
  bc_operation :: semantic_operation
  bc_inputs :: "string list"
  bc_predicates :: "typed_predicate list"

record transform_definition =
  td_transform_id :: string
  td_output_scale :: int
  td_required_outputs :: "(tool_name, string list) dict"

record manufacturing_ontology =
  mo_ontology_version :: string
  mo_output_roles :: "output_role_definition list"
  mo_entity_roles :: "entity_role_definition list"
  mo_business_concepts :: "business_concept_definition list"
  mo_result_shapes :: "result_shape_definition list"
  mo_transforms :: "transform_definition list"

datatype ontology_error =
    MappingsNotUnique tool_name
  | NoMapping
  | EmptyTerm string
  | DuplicateTerms string
  | ValuesNotUnique string
  | NoIdentityKeys
  | KeysLabelsOverlap "string list"
  | NoProjection
  | PredicatesWithoutProjection
  | BadCompletionGroup
  | CompletionGroupNotOutputs
  | InvariantWithoutParameters
  | NegativeHops
  | NoShapeSource
  | NoTriggerGroups
  | EmptyTriggerGroup
  | TriggerTermsNotUnique
  | TriggerGroupsNotUnique
  | NoConceptSource
  | ConceptSourcesNotUnique
  | ConceptGrainNotUnique
  | ConceptInputsNotUnique
  | WrongOperation alias_kind semantic_operation
  | WrongInputCount semantic_operation nat
  | WrongOutputScale
  | TransformSources
  | TransformOutputsNotUnique tool_name
  | NoEntityRole

subsection \<open>Validators\<close>

definition mappings :: "source_mappings \<Rightarrow> tool_name \<Rightarrow> string list" where
  "mappings m t = (case t of Sql \<Rightarrow> sm_sql m | Graph \<Rightarrow> sm_graph m)"

definition validate_mappings :: "source_mappings \<Rightarrow> ontology_error + unit" where
  "validate_mappings m = checks
     [require (distinct (sm_sql m)) (MappingsNotUnique Sql),
      require (distinct (sm_graph m)) (MappingsNotUnique Graph),
      require (sm_sql m \<noteq> [] \<or> sm_graph m \<noteq> []) NoMapping]"

definition validate_local_terms :: "string \<Rightarrow> string list \<Rightarrow> string \<Rightarrow> ontology_error + unit" where
  "validate_local_terms canonical terms alias =
     (let normalized = map normalized_term (canonical # terms) in checks
        [require ([] \<notin> set normalized) (EmptyTerm alias),
         require (distinct normalized) (DuplicateTerms alias)])"

definition validate_unique :: "string list \<Rightarrow> string \<Rightarrow> ontology_error + unit" where
  "validate_unique values_list label = require (distinct values_list) (ValuesNotUnique label)"

definition validate_output_role :: "output_role_definition \<Rightarrow> ontology_error + unit" where
  "validate_output_role r = checks
     [validate_mappings (or_mappings r),
      validate_local_terms (or_canonical r) (or_terms r) (or_alias r)]"

definition validate_projection :: "identity_projection_spec \<Rightarrow> ontology_error + unit" where
  "validate_projection p = checks
     [require (ip_keys p \<noteq> []) NoIdentityKeys,
      validate_unique (ip_keys p) ''identity key alias'',
      validate_unique (ip_labels p) ''identity label alias'',
      (let overlap = filter (\<lambda>k. k \<in> set (ip_labels p)) (ip_keys p)
       in require (overlap = []) (KeysLabelsOverlap (sort overlap)))]"

definition validate_entity_role :: "entity_role_definition \<Rightarrow> ontology_error + unit" where
  "validate_entity_role r = checks
     [checks (map (\<lambda>(_, p). validate_projection p) (ed_identity_projection r)),
      validate_local_terms (ed_canonical r) (ed_terms r) (ed_role_id r),
      require (ed_identity_projection r \<noteq> []) NoProjection,
      require (set (dict_keys (ed_predicates r)) \<subseteq> set (dict_keys (ed_identity_projection r)))
        PredicatesWithoutProjection]"

definition validate_shape_source :: "result_shape_source_spec \<Rightarrow> ontology_error + unit" where
  "validate_shape_source c = checks
     ([require (case rs_min_hops c of None \<Rightarrow> True | Some h \<Rightarrow> 0 \<le> h) NegativeHops,
       validate_unique (rs_display_entities c) ''shape display entity'',
       validate_unique (rs_required_outputs c) ''shape required output'',
       validate_unique (rs_row_grain c) ''shape row grain''] @
      concat (map (\<lambda>g. [require (g \<noteq> [] \<and> distinct g) BadCompletionGroup,
                        require (set g \<subseteq> set (rs_required_outputs c)) CompletionGroupNotOutputs])
                (rs_completion_groups c)) @
      [require (rs_result_invariant c = None \<longleftrightarrow> rs_min_hops c = None) InvariantWithoutParameters])"

definition validate_result_shape :: "result_shape_definition \<Rightarrow> ontology_error + unit" where
  "validate_result_shape s = checks
     ([require (sd_trigger_term_groups s \<noteq> []) NoTriggerGroups,
       checks (map (\<lambda>(_, c). validate_shape_source c) (sd_sources s)),
       require (sd_sources s \<noteq> []) NoShapeSource] @
      concat (map (\<lambda>g. [require (g \<noteq> []) EmptyTriggerGroup,
                        require (distinct (map normalized_term g)) TriggerTermsNotUnique])
                (sd_trigger_term_groups s)) @
      [require (distinct (map (map normalized_term) (sd_trigger_term_groups s))) TriggerGroupsNotUnique])"

definition OPERATIONS_BY_KIND :: "alias_kind \<Rightarrow> semantic_operation list" where
  "OPERATIONS_BY_KIND k = (case k of
     KAggregate \<Rightarrow> [Count, CountDistinct, Sum, Average]
   | KDerived \<Rightarrow> [Difference, ClampedDifference]
   | KPath \<Rightarrow> [PathLength, MinimumPathLength, OrderedPathProjection]
   | _ \<Rightarrow> [])"

definition OPERATION_INPUT_ARITY :: "semantic_operation \<Rightarrow> nat \<times> nat" where
  "OPERATION_INPUT_ARITY op = (case op of
     Count \<Rightarrow> (0, 1) | CountDistinct \<Rightarrow> (1, 1) | Sum \<Rightarrow> (1, 1) | Average \<Rightarrow> (1, 1)
   | Difference \<Rightarrow> (2, 2) | ClampedDifference \<Rightarrow> (2, 2) | PathLength \<Rightarrow> (0, 0)
   | MinimumPathLength \<Rightarrow> (1, 1) | OrderedPathProjection \<Rightarrow> (1, 1) | RoleProjection \<Rightarrow> (1, 0))"

definition validate_concept :: "business_concept_definition \<Rightarrow> ontology_error + unit" where
  "validate_concept c = (case OPERATION_INPUT_ARITY (bc_operation c) of (minimum, maximum) \<Rightarrow> checks
     [require (bc_sources c \<noteq> []) NoConceptSource,
      validate_local_terms (bc_canonical c) (bc_terms c) (bc_alias c),
      require (distinct (bc_sources c)) ConceptSourcesNotUnique,
      require (distinct (bc_grain c)) ConceptGrainNotUnique,
      require (distinct (bc_inputs c)) ConceptInputsNotUnique,
      require (bc_operation c \<in> set (OPERATIONS_BY_KIND (bc_kind c))) (WrongOperation (bc_kind c) (bc_operation c)),
      require (minimum \<le> length (bc_inputs c) \<and> length (bc_inputs c) \<le> maximum)
        (WrongInputCount (bc_operation c) (length (bc_inputs c)))])"

definition validate_transform :: "transform_definition \<Rightarrow> ontology_error + unit" where
  "validate_transform t = checks
     ([require (0 \<le> td_output_scale t \<and> td_output_scale t \<le> 12) WrongOutputScale,
       require (set (dict_keys (td_required_outputs t)) = {Sql, Graph}) TransformSources] @
      map (\<lambda>(source, aliases). require (aliases \<noteq> [] \<and> distinct aliases) (TransformOutputsNotUnique source))
        (td_required_outputs t))"

definition validate_ontology :: "manufacturing_ontology \<Rightarrow> ontology_error + unit" where
  "validate_ontology o1 = checks
     [checks (map validate_output_role (mo_output_roles o1)),
      checks (map validate_entity_role (mo_entity_roles o1)),
      require (mo_entity_roles o1 \<noteq> []) NoEntityRole,
      checks (map validate_concept (mo_business_concepts o1)),
      checks (map validate_result_shape (mo_result_shapes o1)),
      checks (map validate_transform (mo_transforms o1)),
      validate_unique (map or_role_id (mo_output_roles o1)) ''output role ID'',
      validate_unique (map ed_role_id (mo_entity_roles o1)) ''entity role ID'',
      validate_unique (map bc_concept_id (mo_business_concepts o1)) ''business concept ID'',
      validate_unique (map td_transform_id (mo_transforms o1)) ''transform ID'',
      validate_unique (map sd_shape_id (mo_result_shapes o1)) ''result shape ID'',
      validate_unique (map or_alias (mo_output_roles o1) @ map bc_alias (mo_business_concepts o1)) ''semantic alias'']"

subsection \<open>What a validated ontology guarantees\<close>

lemma validated_ontologyD:
  assumes "validate_ontology o1 = Inr ()"
  shows "r \<in> set (mo_entity_roles o1) \<Longrightarrow> validate_entity_role r = Inr ()"
    and "s \<in> set (mo_result_shapes o1) \<Longrightarrow> validate_result_shape s = Inr ()"
    and "t \<in> set (mo_transforms o1) \<Longrightarrow> validate_transform t = Inr ()"
    and "distinct (map ed_role_id (mo_entity_roles o1))"
  using assms by (simp_all add: validate_ontology_def validate_unique_def result_simps)

lemma validated_projection:
  assumes "validate_entity_role r = Inr ()" and "(t, p) \<in> set (ed_identity_projection r)"
  shows "ip_keys p \<noteq> [] \<and> distinct (display_aliases p)"
proof -
  from assms(1) have "checks (map (\<lambda>(_, p). validate_projection p) (ed_identity_projection r)) = Inr ()"
    by (simp add: validate_entity_role_def result_simps)
  with assms(2) have "validate_projection p = Inr ()"
    by (auto simp: result_simps)
  then show ?thesis
    by (auto simp: validate_projection_def validate_unique_def result_simps display_aliases_def Let_def filter_empty_conv)
qed

lemma validated_predicates:
  assumes "validate_entity_role r = Inr ()"
  shows "set (dict_keys (ed_predicates r)) \<subseteq> set (dict_keys (ed_identity_projection r))"
  using assms by (simp add: validate_entity_role_def result_simps)

lemma validated_completion_groups:
  assumes "validate_result_shape s = Inr ()" and "(t, c) \<in> set (sd_sources s)" and "g \<in> set (rs_completion_groups c)"
  shows "set g \<subseteq> set (rs_required_outputs c)"
proof -
  from assms(1) have "checks (map (\<lambda>(_, c). validate_shape_source c) (sd_sources s)) = Inr ()"
    by (simp add: validate_result_shape_def result_simps)
  with assms(2) have "validate_shape_source c = Inr ()" by (auto simp: result_simps)
  with assms(3) show ?thesis
    by (auto simp: validate_shape_source_def result_simps)
qed

lemma validated_transform_outputs:
  assumes "validate_transform t = Inr ()"
  shows "set (dict_keys (td_required_outputs t)) = {Sql, Graph}"
    and "(source, aliases) \<in> set (td_required_outputs t) \<Longrightarrow> aliases \<noteq> [] \<and> distinct aliases"
  using assms by (auto simp: validate_transform_def result_simps)

end
