(* ===== verification/Catalog_Builder.thy ===== *)
theory Catalog_Builder
  imports Ontology Schema_Models
begin

text \<open>
  \<open>build_query_semantic_catalog\<close> (\<open>orchestrator/semantic_catalog.py\<close>): the physical aliases of the
  two schemas, then output roles, business concepts, entity roles, result shapes and transforms
  are compiled into one catalog, and every reference is checked on the way.  The two dictionaries
  that the builder fills are functions of the source.  Sets of names are lists read by membership;
  where the code walks a frozen set of sources the order is SQL before graph, which only decides
  which of two errors is raised.  The prompt texts of \<open>_transform_generator_rules\<close> are an argument.
\<close>

record builder =
  bs_specs :: "tool_name \<Rightarrow> (string, alias_spec) dict"
  bs_identities :: "tool_name \<Rightarrow> string list"

record physical_field =
  pf_alias :: string
  pf_path :: string
  pf_terms :: "string list"
  pf_owner_terms :: "string list"
  pf_nullable :: bool
  pf_is_identity :: bool

datatype build_error =
    PhysicalCollision string
  | UnknownPaths string tool_name "string list"
  | PathNotFound string
  | AliasCollision string
  | ConceptAliases string tool_name "string list"
  | RoleAliases string tool_name "string list"
  | NonIdentityKeys string tool_name "string list"
  | NonDisplayLabels string tool_name "string list"
  | UnrelatedKeyOwners string tool_name
  | UnrelatedLabels string tool_name "string list"
  | PredicateAliases string tool_name "string list"
  | NoRoleFor tool_name
  | ShapeValues string tool_name "string list"
  | TransformOutputs string tool_name "string list"
  | UnsupportedTransformRules string
  | NoIdentityAliases
  | NoSharedIdentity

definition before_last_dot :: "string \<Rightarrow> string" where
  "before_last_dot s = (case dropWhile (\<lambda>c. c \<noteq> CHR ''.'') (rev s) of [] \<Rightarrow> s | _ # r \<Rightarrow> rev r)"

definition after_last_dot :: "string \<Rightarrow> string" where
  "after_last_dot s = rev (takeWhile (\<lambda>c. c \<noteq> CHR ''.'') (rev s))"

subsection \<open>Physical aliases\<close>

definition sql_paths :: "sql_schema \<Rightarrow> string list" where
  "sql_paths s = [table_name @ ''.'' @ column_name.
     (table_name, table) \<leftarrow> ss_tables s, (column_name, _) \<leftarrow> tbl_columns table]"

definition sql_fields :: "sql_schema \<Rightarrow> physical_field list" where
  "sql_fields s = [\<lparr>pf_alias = alias, pf_path = table_name @ ''.'' @ column_name,
       pf_terms = alias # column_name # col_aliases column,
       pf_owner_terms = table_name # after_last_dot table_name # tbl_aliases table,
       pf_nullable = col_nullable column, pf_is_identity = col_primary_key column\<rparr>.
     (table_name, table) \<leftarrow> ss_tables s, (column_name, column) \<leftarrow> tbl_columns table,
     alias \<leftarrow> dict_get (tbl_output_aliases table) column_name []]"

definition graph_paths :: "graph_schema \<Rightarrow> string list" where
  "graph_paths g =
     [node_name @ ''.'' @ property_name.
        (node_name, node) \<leftarrow> gs_nodes g, (property_name, _) \<leftarrow> nd_properties node] @
     [relationship_name @ ''.'' @ property_name.
        (relationship_name, relationship) \<leftarrow> gs_relationships g,
        (property_name, _) \<leftarrow> rel_properties relationship]"

definition graph_fields :: "graph_schema \<Rightarrow> physical_field list" where
  "graph_fields g =
     [\<lparr>pf_alias = alias, pf_path = node_name @ ''.'' @ property_name,
       pf_terms = alias # property_name # prop_aliases property,
       pf_owner_terms = node_name # nd_aliases node, pf_nullable = \<not> prop_required property,
       pf_is_identity = (nd_unique_key node = Some property_name)\<rparr>.
     (node_name, node) \<leftarrow> gs_nodes g, (property_name, property) \<leftarrow> nd_properties node,
     alias \<leftarrow> dict_get (nd_output_aliases node) property_name []] @
     [\<lparr>pf_alias = alias, pf_path = relationship_name @ ''.'' @ property_name,
       pf_terms = alias # property_name # prop_aliases property,
       pf_owner_terms = relationship_name # rel_aliases relationship,
       pf_nullable = \<not> prop_required property, pf_is_identity = False\<rparr>.
     (relationship_name, relationship) \<leftarrow> gs_relationships g,
     (property_name, property) \<leftarrow> rel_properties relationship,
     alias \<leftarrow> dict_get (rel_output_aliases relationship) property_name []]"

definition merge_physical_alias ::
    "tool_name \<Rightarrow> physical_field \<Rightarrow> (string, alias_spec) dict \<Rightarrow> build_error + (string, alias_spec) dict" where
  "merge_physical_alias source f target = (case map_of target (pf_alias f) of
     None \<Rightarrow> Inr (AList.update (pf_alias f)
       \<lparr>as_alias = pf_alias f, as_canonical = pf_path f @ '' physical field'',
        as_canonical_source = source, as_sources = [source], as_kind = KPhysical,
        as_value_type = (if pf_is_identity f then VIdentity else VScalar),
        as_schema_paths = [pf_path f], as_terms = fromkeys (pf_terms f),
        as_owner_terms = fromkeys (pf_owner_terms f), as_nullable = pf_nullable f,
        as_grain = [], as_operation = None, as_inputs = [], as_predicates = []\<rparr> target)
   | Some existing \<Rightarrow>
       if as_kind existing \<noteq> KPhysical then Inl (PhysicalCollision (pf_alias f))
       else Inr (AList.update (pf_alias f)
         \<lparr>as_alias = pf_alias f, as_canonical = as_canonical existing,
          as_canonical_source = source, as_sources = as_sources existing, as_kind = KPhysical,
          as_value_type = (if pf_is_identity f \<or> as_value_type existing = VIdentity
                           then VIdentity else as_value_type existing),
          as_schema_paths = as_schema_paths existing @ [pf_path f],
          as_terms = fromkeys (as_terms existing @ pf_terms f),
          as_owner_terms = fromkeys (as_owner_terms existing @ pf_owner_terms f),
          as_nullable = (as_nullable existing \<or> pf_nullable f),
          as_grain = [], as_operation = None, as_inputs = [], as_predicates = []\<rparr> target))"

definition set_specs :: "tool_name \<Rightarrow> (string, alias_spec) dict \<Rightarrow> builder \<Rightarrow> builder" where
  "set_specs source specs b = b\<lparr>bs_specs := (bs_specs b)(source := specs)\<rparr>"

definition add_identity :: "tool_name \<Rightarrow> bool \<Rightarrow> string \<Rightarrow> builder \<Rightarrow> builder" where
  "add_identity source c alias b =
     (if c then b\<lparr>bs_identities := (bs_identities b)(source := List.insert alias (bs_identities b source))\<rparr> else b)"

definition add_physical :: "tool_name \<Rightarrow> physical_field \<Rightarrow> builder \<Rightarrow> build_error + builder" where
  "add_physical source f b =
     rbind (merge_physical_alias source f (bs_specs b source)) (\<lambda>specs.
       Inr (add_identity source (pf_is_identity f) (pf_alias f) (set_specs source specs b)))"

definition empty_builder :: builder where
  "empty_builder = \<lparr>bs_specs = (\<lambda>_. []), bs_identities = (\<lambda>_. [])\<rparr>"

definition compile_physical_aliases :: "sql_schema \<Rightarrow> graph_schema \<Rightarrow> build_error + builder" where
  "compile_physical_aliases s g =
     rbind (rfold (add_physical Sql) (sql_fields s) empty_builder)
       (rfold (add_physical Graph) (graph_fields g))"

subsection \<open>Output roles and business concepts\<close>

definition path_nullable :: "tool_name \<Rightarrow> sql_schema \<Rightarrow> graph_schema \<Rightarrow> string \<Rightarrow> build_error + bool" where
  "path_nullable source s g path = (case source of
     Sql \<Rightarrow> (case map_of (ss_tables s) (before_last_dot path) of
         None \<Rightarrow> Inl (PathNotFound path)
       | Some table \<Rightarrow> (case map_of (tbl_columns table) (after_last_dot path) of
             None \<Rightarrow> Inl (PathNotFound path) | Some column \<Rightarrow> Inr (col_nullable column)))
   | Graph \<Rightarrow> (case split_once CHR ''.'' path of
         None \<Rightarrow> Inl (PathNotFound path)
       | Some (owner, property_name) \<Rightarrow>
           (case (case map_of (gs_nodes g) owner of
                    Some node \<Rightarrow> map_of (nd_properties node) property_name
                  | None \<Rightarrow> (case map_of (gs_relationships g) owner of
                        Some relationship \<Rightarrow> map_of (rel_properties relationship) property_name
                      | None \<Rightarrow> None)) of
              None \<Rightarrow> Inl (PathNotFound path)
            | Some property \<Rightarrow> Inr (\<not> prop_required property))))"

text \<open>\<open>any(...)\<close> over the mappings stops at the first nullable path.\<close>

fun any_nullable :: "tool_name \<Rightarrow> sql_schema \<Rightarrow> graph_schema \<Rightarrow> string list \<Rightarrow> build_error + bool" where
  "any_nullable source s g [] = Inr False"
| "any_nullable source s g (p # ps) = rbind (path_nullable source s g p) (\<lambda>nullable.
     if nullable then Inr True else any_nullable source s g ps)"

definition reject_alias_collision :: "(string, alias_spec) dict \<Rightarrow> string \<Rightarrow> build_error + unit" where
  "reject_alias_collision target alias = require (alias \<notin> set (dict_keys target)) (AliasCollision alias)"

definition add_output_role_source :: "sql_schema \<Rightarrow> graph_schema \<Rightarrow> output_role_definition
    \<Rightarrow> tool_name \<Rightarrow> builder \<Rightarrow> build_error + builder" where
  "add_output_role_source s g role source b =
     (let paths = mappings (or_mappings role) source;
          available = (case source of Sql \<Rightarrow> sql_paths s | Graph \<Rightarrow> graph_paths g);
          unknown = filter (\<lambda>p. p \<notin> set available) paths
      in if unknown \<noteq> [] then Inl (UnknownPaths (or_role_id role) source (sort unknown))
         else rbind (reject_alias_collision (bs_specs b source) (or_alias role)) (\<lambda>_.
              rbind (any_nullable source s g paths) (\<lambda>nullable.
           Inr (add_identity source (or_value_type role = VIdentity) (or_alias role)
             (set_specs source (AList.update (or_alias role)
               \<lparr>as_alias = or_alias role, as_canonical = or_canonical role, as_canonical_source = source,
                as_sources = filter (\<lambda>t. mappings (or_mappings role) t \<noteq> []) [Sql, Graph],
                as_kind = KRole, as_value_type = or_value_type role, as_schema_paths = paths,
                as_terms = or_alias role # or_canonical role # sort_key normalized_term (or_terms role),
                as_owner_terms = fromkeys (map before_last_dot paths), as_nullable = nullable,
                as_grain = [], as_operation = Some RoleProjection, as_inputs = [], as_predicates = []\<rparr>
               (bs_specs b source)) b)))))"

definition add_output_role ::
    "sql_schema \<Rightarrow> graph_schema \<Rightarrow> output_role_definition \<Rightarrow> builder \<Rightarrow> build_error + builder" where
  "add_output_role s g role =
     rfold (add_output_role_source s g role) (filter (\<lambda>t. mappings (or_mappings role) t \<noteq> []) [Sql, Graph])"

definition add_concept_source ::
    "business_concept_definition \<Rightarrow> tool_name \<Rightarrow> builder \<Rightarrow> build_error + builder" where
  "add_concept_source concept source b =
     rbind (reject_alias_collision (bs_specs b source) (bc_alias concept)) (\<lambda>_.
       let missing = filter (\<lambda>a. a \<notin> set (dict_keys (bs_specs b source)))
             (bc_inputs concept @ bc_grain concept @ map pred_field (bc_predicates concept))
       in if missing \<noteq> [] then Inl (ConceptAliases (bc_concept_id concept) source (sort (remdups missing)))
          else Inr (set_specs source (AList.update (bc_alias concept)
            \<lparr>as_alias = bc_alias concept, as_canonical = bc_canonical concept,
             as_canonical_source = hd (bc_sources concept),
             as_sources = filter (\<lambda>t. t \<in> set (bc_sources concept)) [Sql, Graph],
             as_kind = bc_kind concept, as_value_type = (if bc_kind concept = KPath then VPath else VScalar),
             as_schema_paths = [],
             as_terms = bc_alias concept # bc_canonical concept # sort_key normalized_term (bc_terms concept),
             as_owner_terms = [], as_nullable = False, as_grain = bc_grain concept,
             as_operation = Some (bc_operation concept), as_inputs = bc_inputs concept,
             as_predicates = bc_predicates concept\<rparr> (bs_specs b source)) b))"

definition add_concept :: "business_concept_definition \<Rightarrow> builder \<Rightarrow> build_error + builder" where
  "add_concept concept = rfold (add_concept_source concept) (bc_sources concept)"

subsection \<open>Entity roles\<close>

definition physical_owners :: "alias_spec \<Rightarrow> string list" where
  "physical_owners spec = map before_last_dot (as_schema_paths spec)"

definition spec_test :: "(string, alias_spec) dict \<Rightarrow> (alias_spec \<Rightarrow> bool) \<Rightarrow> string \<Rightarrow> bool" where
  "spec_test available P alias = (case map_of available alias of None \<Rightarrow> False | Some spec \<Rightarrow> P spec)"

definition shared_key_owners :: "(string, alias_spec) dict \<Rightarrow> string list \<Rightarrow> string list" where
  "shared_key_owners available ks = (case somes (map (map_of available) ks) of
     [] \<Rightarrow> [] | spec # specs \<Rightarrow> filter (\<lambda>x. \<forall>s \<in> set specs. x \<in> set (physical_owners s)) (physical_owners spec))"

definition name_label :: "string \<Rightarrow> (string, alias_spec) dict \<Rightarrow> (string, alias_spec) dict" where
  "name_label alias available = (case map_of available alias of
     Some spec \<Rightarrow> if as_value_type spec = VScalar
       then AList.update alias (spec\<lparr>as_value_type := VName\<rparr>) available else available
   | None \<Rightarrow> available)"

definition check_projection :: "string \<Rightarrow> tool_name \<Rightarrow> identity_projection_spec
    \<Rightarrow> (string, alias_spec) dict \<Rightarrow> build_error + unit" where
  "check_projection role_id source p available =
     (let unknown = filter (\<lambda>a. a \<notin> set (dict_keys available)) (display_aliases p);
          invalid_keys = filter (spec_test available (\<lambda>s. as_value_type s \<noteq> VIdentity)) (ip_keys p);
          invalid_labels = filter (spec_test available (\<lambda>s. as_value_type s \<in> {VIdentity, VPath} \<or>
             as_kind s \<in> {KAggregate, KDerived, KPath})) (ip_labels p);
          owners = shared_key_owners available (ip_keys p);
          unrelated = filter (spec_test available (\<lambda>s. \<not> list_ex (\<lambda>x. x \<in> set owners) (physical_owners s)))
             (ip_labels p)
      in checks
        [require (unknown = []) (RoleAliases role_id source (sort (remdups unknown))),
         require (invalid_keys = []) (NonIdentityKeys role_id source (sort invalid_keys)),
         require (invalid_labels = []) (NonDisplayLabels role_id source (sort invalid_labels)),
         require (owners \<noteq> []) (UnrelatedKeyOwners role_id source),
         require (unrelated = []) (UnrelatedLabels role_id source (sort unrelated))])"

definition add_projection :: "string \<Rightarrow> tool_name \<times> identity_projection_spec \<Rightarrow> builder \<Rightarrow> build_error + builder" where
  "add_projection role_id = (\<lambda>(source, p) b.
     rbind (check_projection role_id source p (bs_specs b source)) (\<lambda>_.
       Inr (set_specs source (fold name_label (ip_labels p) (bs_specs b source)) b)))"

definition check_predicates :: "string \<Rightarrow> builder \<Rightarrow> tool_name \<times> typed_predicate list \<Rightarrow> build_error + unit" where
  "check_predicates role_id b = (\<lambda>(source, ps).
     let unknown = filter (\<lambda>a. a \<notin> set (dict_keys (bs_specs b source))) (map pred_field ps)
     in require (unknown = []) (PredicateAliases role_id source (sort (remdups unknown))))"

type_synonym role_state = "builder \<times> (string, entity_role_spec) dict"

definition add_entity_role :: "entity_role_definition \<Rightarrow> role_state \<Rightarrow> build_error + role_state" where
  "add_entity_role role = (\<lambda>(b, roles).
     rbind (rfold (add_projection (ed_role_id role)) (ed_identity_projection role) b) (\<lambda>b'.
     rbind (checks (map (check_predicates (ed_role_id role) b') (ed_predicates role))) (\<lambda>_.
       Inr (b', AList.update (ed_role_id role)
         \<lparr>er_role_id = ed_role_id role, er_canonical = ed_canonical role,
          er_terms = ed_role_id role # ed_canonical role # sort_key normalized_term (ed_terms role),
          er_projections = ed_identity_projection role, er_predicates = ed_predicates role\<rparr> roles))))"

definition has_role_for :: "(string, entity_role_spec) dict \<Rightarrow> tool_name \<Rightarrow> bool" where
  "has_role_for roles source \<longleftrightarrow> list_ex (\<lambda>(_, role). source \<in> set (dict_keys (er_projections role))) roles"

subsection \<open>Result shapes and transforms\<close>

definition check_shape_source :: "(tool_name \<Rightarrow> (string, alias_spec) dict) \<Rightarrow> (string, entity_role_spec) dict
    \<Rightarrow> string \<Rightarrow> tool_name \<times> result_shape_source_spec \<Rightarrow> build_error + unit" where
  "check_shape_source specs roles sid = (\<lambda>(source, c).
     let unknown_roles = filter (\<lambda>r. \<not> list_ex (\<lambda>(role_id, role). role_id = r \<and>
             source \<in> set (dict_keys (er_projections role))) roles) (rs_display_entities c);
         unknown_aliases = filter (\<lambda>a. a \<notin> set (dict_keys (specs source))) (rs_required_outputs c @ rs_row_grain c)
     in require (unknown_roles = [] \<and> unknown_aliases = [])
          (ShapeValues sid source (sort (remdups (unknown_roles @ unknown_aliases)))))"

definition compile_shape :: "(tool_name \<Rightarrow> (string, alias_spec) dict) \<Rightarrow> (string, entity_role_spec) dict
    \<Rightarrow> result_shape_definition \<Rightarrow> build_error + string \<times> result_shape_spec" where
  "compile_shape specs roles shape =
     rbind (checks (map (check_shape_source specs roles (sd_shape_id shape)) (sd_sources shape))) (\<lambda>_.
       Inr (sd_shape_id shape,
         \<lparr>shape_id = sd_shape_id shape, shape_canonical = sd_canonical shape,
          trigger_term_groups = map (map normalized_term) (sd_trigger_term_groups shape),
          shape_sources = sd_sources shape\<rparr>))"

definition check_transform_source :: "(tool_name \<Rightarrow> (string, alias_spec) dict) \<Rightarrow> string
    \<Rightarrow> tool_name \<times> string list \<Rightarrow> build_error + unit" where
  "check_transform_source specs tid = (\<lambda>(source, aliases).
     let unknown = filter (\<lambda>a. a \<notin> set (dict_keys (specs source))) aliases
     in require (unknown = []) (TransformOutputs tid source (sort unknown)))"

definition compile_transform :: "(tool_name, string list) dict \<Rightarrow> (tool_name \<Rightarrow> (string, alias_spec) dict)
    \<Rightarrow> transform_definition \<Rightarrow> build_error + string \<times> transform_spec" where
  "compile_transform bom_rules specs t =
     rbind (checks (map (check_transform_source specs (td_transform_id t)) (td_required_outputs t))) (\<lambda>_.
     rbind (require (td_transform_id t = ''bom_shortage_v1'') (UnsupportedTransformRules (td_transform_id t))) (\<lambda>_.
       Inr (td_transform_id t,
         \<lparr>transform_id = td_transform_id t, output_scale = td_output_scale t,
          ts_required_outputs = td_required_outputs t, ts_generator_rules = bom_rules\<rparr>)))"

subsection \<open>The builder\<close>

definition build_query_semantic_catalog :: "(tool_name, string list) dict \<Rightarrow> sql_schema \<Rightarrow> graph_schema
    \<Rightarrow> manufacturing_ontology \<Rightarrow> build_error + semantic_catalog" where
  "build_query_semantic_catalog bom_rules s g o1 =
     rbind (compile_physical_aliases s g) (\<lambda>b0.
     rbind (rfold (add_output_role s g) (mo_output_roles o1) b0) (\<lambda>b1.
     rbind (rfold add_concept (mo_business_concepts o1) b1) (\<lambda>b2.
     rbind (rfold add_entity_role (mo_entity_roles o1) (b2, [])) (\<lambda>(b, roles).
     rbind (checks (map (\<lambda>t. require (has_role_for roles t) (NoRoleFor t)) [Sql, Graph])) (\<lambda>_.
     rbind (rmap (compile_shape (bs_specs b) roles) (mo_result_shapes o1)) (\<lambda>shapes.
     rbind (rmap (compile_transform bom_rules (bs_specs b)) (mo_transforms o1)) (\<lambda>ts.
       if bs_identities b Sql = [] \<or> bs_identities b Graph = [] then Inl NoIdentityAliases
       else let shared = filter (\<lambda>a. a \<in> set (bs_identities b Graph)) (bs_identities b Sql) in
         if shared = [] then Inl NoSharedIdentity
         else Inr \<lparr>ontology_version = mo_ontology_version o1,
              by_tool = [(Sql, bs_specs b Sql), (Graph, bs_specs b Graph)],
              identity_aliases_by_tool = [(Sql, bs_identities b Sql), (Graph, bs_identities b Graph)],
              shared_join_aliases = shared, entity_roles = roles, result_shapes = shapes,
              transforms = ts\<rparr>)))))))"

subsection \<open>Every reference of a built catalog is owned\<close>

definition builder_identity :: "builder \<Rightarrow> tool_name \<Rightarrow> string \<Rightarrow> bool" where
  "builder_identity b source = spec_test (bs_specs b source) (\<lambda>s. as_value_type s = VIdentity)"

definition builder_owned :: "builder \<Rightarrow> tool_name \<Rightarrow> string list" where
  "builder_owned b source = dict_keys (bs_specs b source)"

definition builder_ok :: "builder \<Rightarrow> bool" where
  "builder_ok b \<longleftrightarrow> (\<forall>source. list_all (builder_identity b source) (bs_identities b source))"

text \<open>Later stages only add aliases and keep identities.\<close>

definition builder_le :: "builder \<Rightarrow> builder \<Rightarrow> bool" where
  "builder_le b b' \<longleftrightarrow> (\<forall>source. set (builder_owned b source) \<subseteq> set (builder_owned b' source) \<and>
     (\<forall>a. builder_identity b source a \<longrightarrow> builder_identity b' source a))"

lemma builder_le_refl [simp]: "builder_le b b"
  by (simp add: builder_le_def)

lemma builder_le_trans: "builder_le a b \<Longrightarrow> builder_le b c \<Longrightarrow> builder_le a c"
  unfolding builder_le_def by blast

lemma set_specs_simps [simp]:
  "bs_specs (set_specs source specs b) = (bs_specs b)(source := specs)"
  "bs_identities (set_specs source specs b) = bs_identities b"
  by (simp_all add: set_specs_def)

lemma add_identity_simps [simp]:
  "bs_specs (add_identity source c a b) = bs_specs b"
  "set (bs_identities (add_identity source c a b) t) =
     set (bs_identities b t) \<union> (if c \<and> t = source then {a} else {})"
  by (auto simp: add_identity_def)

lemma spec_test_update:
  "spec_test (AList.update k v d) P a = (if a = k then P v else spec_test d P a)"
  by (simp add: spec_test_def update_conv')

lemma set_update: "set (AList.update k v d) \<subseteq> insert (k, v) (set d)"
  by (induction d) auto

lemma merge_physical_identity:
  assumes "merge_physical_alias source f target = Inr target'"
  shows "spec_test target (\<lambda>s. as_value_type s = VIdentity) a \<or> (a = pf_alias f \<and> pf_is_identity f) \<Longrightarrow>
    spec_test target' (\<lambda>s. as_value_type s = VIdentity) a"
  using assms
  by (auto simp: merge_physical_alias_def spec_test_update spec_test_def update_conv' split: option.splits if_splits)

lemma builder_okI:
  assumes "\<And>t a. a \<in> set (bs_identities b t) \<Longrightarrow> builder_identity b t a"
  shows "builder_ok b"
  using assms by (simp add: builder_ok_def list_all_iff)

lemma builder_okD: "builder_ok b \<Longrightarrow> a \<in> set (bs_identities b t) \<Longrightarrow> builder_identity b t a"
  by (simp add: builder_ok_def list_all_iff)

lemma add_physical_ok:
  assumes "add_physical source f b = Inr b'" and "builder_ok b"
  shows "builder_ok b'"
proof -
  from assms(1) obtain specs where m: "merge_physical_alias source f (bs_specs b source) = Inr specs"
    and b': "b' = add_identity source (pf_is_identity f) (pf_alias f) (set_specs source specs b)"
    by (auto simp: add_physical_def result_simps)
  show ?thesis
  proof (rule builder_okI)
    fix t a
    assume "a \<in> set (bs_identities b' t)"
    then show "builder_identity b' t a"
      using merge_physical_identity[OF m, of a] builder_okD[OF assms(2), of a t]
      by (auto simp: b' builder_identity_def split: if_splits)
  qed
qed

lemma reject_alias_collision_Inr: "reject_alias_collision d a = Inr u \<Longrightarrow> a \<notin> fst ` set d"
  by (auto simp: reject_alias_collision_def result_simps dict_keys_def)

text \<open>Adding a fresh alias keeps all identities; it may become an identity itself.\<close>

lemma add_fresh_ok:
  assumes "builder_ok b" and "a0 \<notin> fst ` set (bs_specs b source)" and "c \<longrightarrow> as_value_type spec = VIdentity"
  shows "builder_ok (add_identity source c a0 (set_specs source (AList.update a0 spec (bs_specs b source)) b))"
    (is "builder_ok ?b'")
proof (rule builder_okI)
  fix t a
  assume "a \<in> set (bs_identities ?b' t)"
  moreover have "\<not> builder_identity b source a0"
    using assms(2) by (auto simp: builder_identity_def spec_test_def dest: map_of_SomeD split: option.splits)
      (metis map_of_SomeD image_eqI fst_conv)
  ultimately show "builder_identity ?b' t a"
    using builder_okD[OF assms(1), of a t] assms(3)
    by (auto simp: builder_identity_def spec_test_update split: if_splits)
qed

lemma add_output_role_source_ok:
  assumes "add_output_role_source s g role source b = Inr b'" and "builder_ok b"
  shows "builder_ok b'"
  using assms
  by (auto simp: add_output_role_source_def Let_def result_simps dest!: reject_alias_collision_Inr
      intro!: add_fresh_ok split: if_splits)

lemma add_concept_source_ok:
  assumes "add_concept_source concept source b = Inr b'" and "builder_ok b"
  shows "builder_ok b'"
  using assms
  by (auto simp: add_concept_source_def Let_def result_simps dest!: reject_alias_collision_Inr
      intro!: add_fresh_ok[where c = False, unfolded add_identity_def, simplified] split: if_splits)

lemma base_builder_ok:
  assumes "compile_physical_aliases s g = Inr b0"
    and "rfold (add_output_role s g) roles b0 = Inr b1" and "rfold add_concept concepts b1 = Inr b2"
  shows "builder_ok b2"
proof -
  have "builder_ok empty_builder" by (simp add: builder_ok_def empty_builder_def)
  moreover from assms(1) obtain b where "rfold (add_physical Sql) (sql_fields s) empty_builder = Inr b"
    "rfold (add_physical Graph) (graph_fields g) b = Inr b0"
    by (auto simp: compile_physical_aliases_def result_simps)
  ultimately have "builder_ok b0"
    by (metis rfold_invariant[of "add_physical Sql" _ _ _ builder_ok] add_physical_ok
        rfold_invariant[of "add_physical Graph" _ _ _ builder_ok])
  with assms(2) have "builder_ok b1"
  proof (rule rfold_invariant)
    fix role b b'
    assume "add_output_role s g role b = Inr b'" and "builder_ok b"
    then show "builder_ok b'"
      unfolding add_output_role_def
      by (rule rfold_invariant) (rule add_output_role_source_ok)
  qed
  with assms(3) show ?thesis
  proof (rule rfold_invariant)
    fix concept b b'
    assume "add_concept concept b = Inr b'" and "builder_ok b"
    then show "builder_ok b'"
      unfolding add_concept_def by (rule rfold_invariant) (rule add_concept_source_ok)
  qed
qed

subsection \<open>Entity roles\<close>

lemma name_label_keeps:
  "fst ` set (name_label l d) = fst ` set d"
  "spec_test d (\<lambda>s. as_value_type s = VIdentity) a \<Longrightarrow> spec_test (name_label l d) (\<lambda>s. as_value_type s = VIdentity) a"
proof -
  show "fst ` set (name_label l d) = fst ` set d"
    by (auto simp: name_label_def dom_update dom_map_of_conv_image_fst[symmetric] update_conv' split: option.splits)
next
  assume "spec_test d (\<lambda>s. as_value_type s = VIdentity) a"
  then show "spec_test (name_label l d) (\<lambda>s. as_value_type s = VIdentity) a"
    by (auto simp: name_label_def spec_test_def update_conv' split: option.splits)
qed

lemma fold_name_label_keeps:
  "fst ` set (fold name_label ls d) = fst ` set d"
  "spec_test d (\<lambda>s. as_value_type s = VIdentity) a \<Longrightarrow>
     spec_test (fold name_label ls d) (\<lambda>s. as_value_type s = VIdentity) a"
  by (induction ls arbitrary: d) (auto simp: name_label_keeps)

definition builder_projection :: "builder \<Rightarrow> tool_name \<times> identity_projection_spec \<Rightarrow> bool" where
  "builder_projection b = (\<lambda>(source, p). set (display_aliases p) \<subseteq> set (builder_owned b source) \<and>
     list_all (builder_identity b source) (ip_keys p))"

lemma builder_projection_mono: "builder_le b b' \<Longrightarrow> builder_projection b x \<Longrightarrow> builder_projection b' x"
  by (auto simp: builder_projection_def builder_le_def list_all_iff split: prod.splits)

lemma check_projection_Inr:
  assumes "check_projection rid source p (bs_specs b source) = Inr u"
  shows "builder_projection b (source, p)"
proof -
  from assms have own: "set (display_aliases p) \<subseteq> set (dict_keys (bs_specs b source))"
    and keys: "\<forall>k \<in> set (ip_keys p). \<not> spec_test (bs_specs b source) (\<lambda>s. as_value_type s \<noteq> VIdentity) k"
    by (auto simp: check_projection_def Let_def result_simps filter_empty_conv)
  have "spec_test (bs_specs b source) (\<lambda>s. as_value_type s = VIdentity) k" if k: "k \<in> set (ip_keys p)" for k
  proof -
    from k own have "k \<in> fst ` set (bs_specs b source)" by (auto simp: display_aliases_def dict_keys_def)
    then obtain spec where "map_of (bs_specs b source) k = Some spec"
      by (metis map_of_eq_None_iff not_None_eq)
    with keys k show ?thesis by (auto simp: spec_test_def)
  qed
  with own show ?thesis by (simp add: builder_projection_def builder_owned_def builder_identity_def list_all_iff)
qed

lemma add_projection_step:
  assumes "add_projection rid x b = Inr b'"
  shows "builder_le b b' \<and> bs_identities b' = bs_identities b \<and> builder_projection b x"
proof -
  obtain source p where x: "x = (source, p)" by (cases x)
  from assms x obtain u where c: "check_projection rid source p (bs_specs b source) = Inr u"
    and b': "b' = set_specs source (fold name_label (ip_labels p) (bs_specs b source)) b"
    by (auto simp: add_projection_def result_simps)
  have "builder_le b b'"
    by (auto simp: b' builder_le_def builder_owned_def builder_identity_def dict_keys_def fold_name_label_keeps
        simp del: image_eqI)
  with check_projection_Inr[OF c] b' x show ?thesis by simp
qed

lemma add_projections:
  assumes "rfold (add_projection rid) ps b = Inr b'"
  shows "builder_le b b' \<and> bs_identities b' = bs_identities b \<and> list_all (builder_projection b') ps"
  using assms
proof (induction ps arbitrary: b)
  case Nil
  then show ?case by simp
next
  case (Cons x ps)
  from Cons.prems obtain c where c: "add_projection rid x b = Inr c" "rfold (add_projection rid) ps c = Inr b'"
    by (auto simp: result_simps)
  from Cons.IH[OF c(2)] add_projection_step[OF c(1)] show ?case
    by (auto intro: builder_le_trans builder_projection_mono)
qed

lemma builder_ok_le: "builder_ok b \<Longrightarrow> builder_le b b' \<Longrightarrow> bs_identities b' = bs_identities b \<Longrightarrow> builder_ok b'"
  by (auto simp: builder_ok_def builder_le_def list_all_iff)

definition builder_role :: "builder \<Rightarrow> entity_role_spec \<Rightarrow> bool" where
  "builder_role b role \<longleftrightarrow> list_all (builder_projection b) (er_projections role) \<and>
     (\<forall>(source, ps) \<in> set (er_predicates role). set (map pred_field ps) \<subseteq> set (builder_owned b source))"

lemma builder_role_mono: "builder_le b b' \<Longrightarrow> builder_role b role \<Longrightarrow> builder_role b' role"
  unfolding builder_role_def list_all_iff
  by (auto intro: builder_projection_mono simp: builder_le_def) (blast dest: builder_projection_mono)?

text \<open>The invariant of the loop over entity roles.\<close>

definition roles_inv :: "entity_role_definition list \<Rightarrow> role_state \<Rightarrow> bool" where
  "roles_inv defs = (\<lambda>(b, roles). builder_ok b \<and> dict_ok roles \<and>
     (\<forall>(rid, role) \<in> set roles. builder_role b role \<and>
        (\<exists>d \<in> set defs. er_projections role = ed_identity_projection d \<and> er_predicates role = ed_predicates d)))"

lemma check_predicates_Inr:
  assumes "checks (map (check_predicates rid b) pss) = Inr u" and "(source, ps) \<in> set pss"
  shows "set (map pred_field ps) \<subseteq> set (builder_owned b source)"
proof -
  from assms have "check_predicates rid b (source, ps) = Inr ()"
    unfolding checks_Inr_iff by (metis image_eqI list.set_map)
  then show ?thesis
    by (auto simp: check_predicates_def Let_def result_simps filter_empty_conv builder_owned_def)
qed

lemma add_entity_role_inv:
  assumes "d \<in> set defs" and "add_entity_role d st = Inr st'" and "roles_inv defs st"
  shows "roles_inv defs st'"
proof -
  obtain b roles where st: "st = (b, roles)" by (cases st)
  from assms(2) st obtain b' u where ps: "rfold (add_projection (ed_role_id d)) (ed_identity_projection d) b = Inr b'"
    and pr: "checks (map (check_predicates (ed_role_id d) b') (ed_predicates d)) = Inr u"
    and st': "st' = (b', AList.update (ed_role_id d)
         \<lparr>er_role_id = ed_role_id d, er_canonical = ed_canonical d,
          er_terms = ed_role_id d # ed_canonical d # sort_key normalized_term (ed_terms d),
          er_projections = ed_identity_projection d, er_predicates = ed_predicates d\<rparr> roles)"
    by (auto simp: add_entity_role_def result_simps)
  let ?new = "\<lparr>er_role_id = ed_role_id d, er_canonical = ed_canonical d,
          er_terms = ed_role_id d # ed_canonical d # sort_key normalized_term (ed_terms d),
          er_projections = ed_identity_projection d, er_predicates = ed_predicates d\<rparr>"
  from add_projections[OF ps] have le: "builder_le b b'" and idn: "bs_identities b' = bs_identities b"
    and pj: "list_all (builder_projection b') (ed_identity_projection d)" by auto
  have new: "builder_role b' ?new"
    using pj check_predicates_Inr[OF pr] by (auto simp: builder_role_def split: prod.splits) blast?
  show ?thesis
    unfolding roles_inv_def st' split_conv
  proof (intro conjI ballI)
    show "builder_ok b'" using assms(3) le idn by (auto simp: roles_inv_def st intro: builder_ok_le)
    show "dict_ok (AList.update (ed_role_id d) ?new roles)" using assms(3) by (simp add: roles_inv_def st)
    fix x
    assume "x \<in> set (AList.update (ed_role_id d) ?new roles)"
    with set_update have "x = (ed_role_id d, ?new) \<or> x \<in> set roles" by fastforce
    then show "case x of (rid, role) \<Rightarrow> builder_role b' role \<and>
        (\<exists>d \<in> set defs. er_projections role = ed_identity_projection d \<and> er_predicates role = ed_predicates d)"
    proof
      assume "x = (ed_role_id d, ?new)"
      with new assms(1) show ?thesis by auto
    next
      assume x: "x \<in> set roles"
      obtain rid role where x': "x = (rid, role)" by (cases x)
      with x assms(3) have "builder_role b role" and
        "\<exists>d \<in> set defs. er_projections role = ed_identity_projection d \<and> er_predicates role = ed_predicates d"
        by (auto simp: roles_inv_def st)
      with builder_role_mono[OF le] x' show ?thesis by simp
    qed
  qed
qed

lemma entity_roles_inv:
  assumes "rfold add_entity_role defs (b2, []) = Inr (b, roles)" and "builder_ok b2"
  shows "roles_inv defs (b, roles)"
  using assms(1)
proof (rule rfold_invariant)
  show "roles_inv defs (b2, [])" using assms(2) by (simp add: roles_inv_def)
qed (rule add_entity_role_inv)

subsection \<open>From the builder to the catalog\<close>

text \<open>The catalog that carries a builder's aliases reads them the same way.\<close>

lemma catalog_of_builder:
  assumes "by_tool cat = [(Sql, bs_specs b Sql), (Graph, bs_specs b Graph)]"
  shows "owned cat source = builder_owned b source" "identity_alias cat source = builder_identity b source"
  using assms
  by (cases source; simp add: owned_def builder_owned_def identity_alias_def builder_identity_def spec_test_def
      dict_get_def fun_eq_iff)+

lemma shape_sources_owned:
  assumes "compile_shape specs roles d = Inr (sid, shape)" and "(source, c) \<in> set (shape_sources shape)"
    and "dict_ok roles"
  shows "set (rs_required_outputs c) \<union> set (rs_row_grain c) \<subseteq> set (dict_keys (specs source))"
    and "r \<in> set (rs_display_entities c) \<Longrightarrow> \<exists>role. map_of roles r = Some role \<and>
        source \<in> set (dict_keys (er_projections role))"
    and "(source, c) \<in> set (sd_sources d)"
proof -
  from assms(1) have src: "shape_sources shape = sd_sources d"
    and ch: "checks (map (check_shape_source specs roles (sd_shape_id d)) (sd_sources d)) = Inr ()"
    by (auto simp: compile_shape_def result_simps)
  with assms(2) have "check_shape_source specs roles (sd_shape_id d) (source, c) = Inr ()"
    unfolding checks_Inr_iff by (metis image_eqI list.set_map)
  then have al: "\<forall>a \<in> set (rs_required_outputs c @ rs_row_grain c). a \<in> set (dict_keys (specs source))"
    and rl: "\<forall>r \<in> set (rs_display_entities c). list_ex (\<lambda>(role_id, role). role_id = r \<and>
             source \<in> set (dict_keys (er_projections role))) roles"
    by (auto simp: check_shape_source_def Let_def result_simps filter_empty_conv)
  from al show "set (rs_required_outputs c) \<union> set (rs_row_grain c) \<subseteq> set (dict_keys (specs source))" by auto
  from src assms(2) show "(source, c) \<in> set (sd_sources d)" by simp
  assume "r \<in> set (rs_display_entities c)"
  with rl obtain role where "(r, role) \<in> set roles" "source \<in> set (dict_keys (er_projections role))"
    by (auto simp: list_ex_iff)
  with assms(3) show "\<exists>role. map_of roles r = Some role \<and> source \<in> set (dict_keys (er_projections role))"
    by (auto simp: dict_ok_def)
qed

lemma transform_outputs_owned:
  assumes "compile_transform rules specs d = Inr (tid, t)" and "(source, outputs) \<in> set (ts_required_outputs t)"
  shows "set outputs \<subseteq> set (dict_keys (specs source)) \<and> (source, outputs) \<in> set (td_required_outputs d)"
proof -
  from assms(1) have t: "ts_required_outputs t = td_required_outputs d"
    and ch: "checks (map (check_transform_source specs (td_transform_id d)) (td_required_outputs d)) = Inr ()"
    by (auto simp: compile_transform_def result_simps)
  with assms(2) have "check_transform_source specs (td_transform_id d) (source, outputs) = Inr ()"
    unfolding checks_Inr_iff by (metis image_eqI list.set_map)
  with t assms(2) show ?thesis
    by (auto simp: check_transform_source_def Let_def result_simps filter_empty_conv)
qed

lemma built_catalogE:
  assumes "build_query_semantic_catalog rules s g o1 = Inr cat"
  obtains b where "roles_inv (mo_entity_roles o1) (b, entity_roles cat)"
    and "by_tool cat = [(Sql, bs_specs b Sql), (Graph, bs_specs b Graph)]"
    and "set (shared_join_aliases cat) = set (bs_identities b Sql) \<inter> set (bs_identities b Graph)"
    and "rmap (compile_shape (bs_specs b) (entity_roles cat)) (mo_result_shapes o1) = Inr (result_shapes cat)"
    and "rmap (compile_transform rules (bs_specs b)) (mo_transforms o1) = Inr (transforms cat)"
proof -
  from assms obtain b0 b1 b2 b roles shapes ts where
    "compile_physical_aliases s g = Inr b0" "rfold (add_output_role s g) (mo_output_roles o1) b0 = Inr b1"
    "rfold add_concept (mo_business_concepts o1) b1 = Inr b2"
    and er: "rfold add_entity_role (mo_entity_roles o1) (b2, []) = Inr (b, roles)"
    and sh: "rmap (compile_shape (bs_specs b) roles) (mo_result_shapes o1) = Inr shapes"
    and ts: "rmap (compile_transform rules (bs_specs b)) (mo_transforms o1) = Inr ts"
    and cat: "by_tool cat = [(Sql, bs_specs b Sql), (Graph, bs_specs b Graph)]"
      "shared_join_aliases cat = filter (\<lambda>a. a \<in> set (bs_identities b Graph)) (bs_identities b Sql)"
      "entity_roles cat = roles" "result_shapes cat = shapes" "transforms cat = ts"
    by (auto simp: build_query_semantic_catalog_def result_simps Let_def split: if_splits)
  from this(1-3) have "builder_ok b2" by (rule base_builder_ok)
  from entity_roles_inv[OF er this] cat sh ts show thesis by (intro that[of b]) auto
qed

lemma built_catalog_ok:
  assumes val: "validate_ontology o1 = Inr ()" and bld: "build_query_semantic_catalog rules s g o1 = Inr cat"
  shows "catalog_ok cat"
  using bld
proof (rule built_catalogE)
  fix b
  assume inv: "roles_inv (mo_entity_roles o1) (b, entity_roles cat)"
    and bt: "by_tool cat = [(Sql, bs_specs b Sql), (Graph, bs_specs b Graph)]"
    and sh: "set (shared_join_aliases cat) = set (bs_identities b Sql) \<inter> set (bs_identities b Graph)"
    and shapes: "rmap (compile_shape (bs_specs b) (entity_roles cat)) (mo_result_shapes o1) = Inr (result_shapes cat)"
    and ts: "rmap (compile_transform rules (bs_specs b)) (mo_transforms o1) = Inr (transforms cat)"
  note cb = catalog_of_builder[OF bt]
  from inv have ok: "builder_ok b" and dk: "dict_ok (entity_roles cat)" by (auto simp: roles_inv_def)
  have role: "role_ok cat role" if r: "(rid, role) \<in> set (entity_roles cat)" for rid role
  proof -
    from r inv obtain d where br: "builder_role b role" and d: "d \<in> set (mo_entity_roles o1)"
      "er_projections role = ed_identity_projection d" "er_predicates role = ed_predicates d"
      by (auto simp: roles_inv_def)
    note vd = validated_ontologyD(1)[OF val d(1)]
    have "projection_ok cat source p" if p: "(source, p) \<in> set (er_projections role)" for source p
    proof -
      from br p have "builder_projection b (source, p)" by (auto simp: builder_role_def list_all_iff)
      with validated_projection[OF vd, of source p] p d(2) show ?thesis
        by (simp add: projection_ok_def cb builder_projection_def)
    qed
    moreover have "source \<in> set (dict_keys (er_projections role)) \<and> set (map pred_field ps) \<subseteq> set (owned cat source)"
      if p: "(source, ps) \<in> set (er_predicates role)" for source ps
    proof -
      from p validated_predicates[OF vd] have "source \<in> set (dict_keys (er_projections role))"
        unfolding d(2,3) dict_keys_def by (metis fst_conv image_eqI list.set_map subsetD)
      moreover from br p have "set (map pred_field ps) \<subseteq> set (builder_owned b source)"
        unfolding builder_role_def by blast
      ultimately show ?thesis by (simp add: cb)
    qed
    ultimately show ?thesis unfolding role_ok_def by blast
  qed
  have shape: "shape_source_ok cat source c"
    if "(sid, shape) \<in> set (result_shapes cat)" "(source, c) \<in> set (shape_sources shape)" for sid shape source c
  proof -
    from rmap_member[OF shapes that(1)] obtain d where d: "d \<in> set (mo_result_shapes o1)"
      "compile_shape (bs_specs b) (entity_roles cat) d = Inr (sid, shape)" by blast
    note so = shape_sources_owned[OF d(2) that(2) dk]
    show ?thesis
      using so(1,2) validated_completion_groups[OF validated_ontologyD(2)[OF val d(1)] so(3)]
      unfolding shape_source_ok_def cb builder_owned_def by blast
  qed
  have trans: "transform_ok cat t" if t: "(tid, t) \<in> set (transforms cat)" for tid t
  proof -
    from rmap_member[OF ts t] obtain d where d: "d \<in> set (mo_transforms o1)"
      "compile_transform rules (bs_specs b) d = Inr (tid, t)" by blast
    note vt = validated_transform_outputs[OF validated_ontologyD(3)[OF val d(1)]]
    from d(2) have td: "ts_required_outputs t = td_required_outputs d"
      by (auto simp: compile_transform_def result_simps)
    show ?thesis
      unfolding transform_ok_def
    proof
      fix source
      have "source \<in> fst ` set (td_required_outputs d)" using vt(1) by (cases source) (auto simp: dict_keys_def)
      then obtain outputs where o: "map_of (td_required_outputs d) source = Some outputs"
        by (metis map_of_eq_None_iff not_None_eq)
      then have m: "(source, outputs) \<in> set (ts_required_outputs t)" using td by (simp add: map_of_SomeD)
      from transform_outputs_owned[OF d(2) m] vt(2)[of source outputs] o td
      show "\<exists>outputs. map_of (ts_required_outputs t) source = Some outputs \<and>
         outputs \<noteq> [] \<and> distinct outputs \<and> set outputs \<subseteq> set (owned cat source)"
        by (auto simp: cb builder_owned_def)
    qed
  qed
  have "identity_alias cat Sql a \<and> identity_alias cat Graph a" if "a \<in> set (shared_join_aliases cat)" for a
    using that sh builder_okD[OF ok] by (auto simp: cb)
  with dk role shape trans show "catalog_ok cat"
    unfolding catalog_ok_def by (auto simp: bt split: prod.splits)
qed

type_synonym catalog_input = "(tool_name, string list) dict \<times> sql_schema \<times> graph_schema \<times> manufacturing_ontology"

definition build_catalog :: "catalog_input \<Rightarrow> build_error + semantic_catalog" where
  "build_catalog = (\<lambda>(rules, s, g, o1). build_query_semantic_catalog rules s g o1)"

definition catalog_input_ok :: "catalog_input \<Rightarrow> bool" where
  "catalog_input_ok = (\<lambda>(rules, s, g, o1). validate_ontology o1 = Inr ())"

interpretation built: catalog_provider build_catalog catalog_input_ok
  by unfold_locales (auto simp: build_catalog_def catalog_input_ok_def intro: built_catalog_ok)

subsection \<open>Properties\<close>

text \<open>C17: Every catalog that \<open>build_query_semantic_catalog\<close> returns for a validated ontology is closed: the
  shared join aliases are identity aliases of both sources, the keys and labels of every entity role, its
  predicates, the outputs, grain and completion groups of every result shape and the outputs of every
  transform are aliases that their source owns, role keys are identities, and the roles a shape displays
  exist for its source.\<close>

theorem built_catalog_is_closed:
  assumes "validate_ontology o1 = Inr ()" and "build_query_semantic_catalog rules s g o1 = Inr cat"
  shows "catalog_ok cat"
  using assms by (rule built_catalog_ok)

definition example_sql_schema :: sql_schema where
  "example_sql_schema = \<lparr>ss_tables = [(''p.t'', \<lparr>tbl_aliases = [],
     tbl_columns = [(''id'', \<lparr>col_type = ''INTEGER'', col_primary_key = True, col_nullable = False, col_aliases = []\<rparr>)],
     tbl_output_aliases = [(''id'', [''pid''])]\<rparr>)],
     ss_joins = []\<rparr>"

definition example_graph_schema :: graph_schema where
  "example_graph_schema = \<lparr>gs_nodes = [(''N'', \<lparr>nd_aliases = [],
     nd_properties = [(''id'', \<lparr>prop_type = ''INTEGER'', prop_required = True, prop_aliases = []\<rparr>),
                      (''nm'', \<lparr>prop_type = ''STRING'', prop_required = True, prop_aliases = []\<rparr>)],
     nd_unique_key = Some ''id'',
     nd_output_aliases = [(''id'', [''pid'']), (''nm'', [''pname''])]\<rparr>)],
     gs_relationships = [], gs_query_policy = None\<rparr>"

definition example_ontology :: manufacturing_ontology where
  "example_ontology = \<lparr>mo_ontology_version = ''v1'',
     mo_output_roles = [\<lparr>or_role_id = ''c'', or_alias = ''cid'', or_canonical = ''comp'',
       or_terms = [], or_value_type = VIdentity,
       or_mappings = \<lparr>sm_sql = [''p.t.id''], sm_graph = [''N.id'']\<rparr>\<rparr>],
     mo_entity_roles = [\<lparr>ed_role_id = ''prod'', ed_canonical = ''x'', ed_terms = [],
       ed_identity_projection = [(Sql, \<lparr>ip_keys = [''pid''], ip_labels = []\<rparr>),
                                 (Graph, \<lparr>ip_keys = [''pid''], ip_labels = [''pname'']\<rparr>)],
       ed_predicates = []\<rparr>],
     mo_business_concepts = [\<lparr>bc_concept_id = ''d'', bc_alias = ''depth'', bc_canonical = ''d'', bc_terms = [],
       bc_kind = KPath, bc_sources = [Graph], bc_grain = [], bc_operation = PathLength, bc_inputs = [], bc_predicates = []\<rparr>],
     mo_result_shapes = [\<lparr>sd_shape_id = ''s'', sd_canonical = ''s'', sd_trigger_term_groups = [[''tree'']],
       sd_sources = [(Graph, \<lparr>rs_display_entities = [''prod''], rs_required_outputs = [''depth''], rs_row_grain = [],
         rs_completion_groups = [[''depth'']], rs_result_invariant = None, rs_min_hops = None\<rparr>)]\<rparr>],
     mo_transforms = [\<lparr>td_transform_id = ''bom_shortage_v1'', td_output_scale = 3,
       td_required_outputs = [(Sql, [''cid'']), (Graph, [''cid'', ''depth''])]\<rparr>]\<rparr>"

definition example_built_catalog :: semantic_catalog where
  "example_built_catalog =
    \<lparr>ontology_version = ''v1'', by_tool = [(Sql, [(''pid'', \<lparr>as_alias = ''pid'',
     as_canonical = ''p.t.id physical field'', as_canonical_source = Sql, as_sources = [Sql], as_kind =
     KPhysical, as_value_type = VIdentity, as_schema_paths = [''p.t.id''], as_terms = [''pid'', ''id''],
     as_owner_terms = [''p.t'', ''t''], as_nullable = False, as_grain = [], as_operation = None,
     as_inputs = [], as_predicates = []\<rparr>), (''cid'', \<lparr>as_alias = ''cid'', as_canonical =
     ''comp'', as_canonical_source = Sql, as_sources = [Sql, Graph], as_kind = KRole, as_value_type =
     VIdentity, as_schema_paths = [''p.t.id''], as_terms = [''cid'', ''comp''], as_owner_terms =
     [''p.t''], as_nullable = False, as_grain = [], as_operation = Some RoleProjection, as_inputs = [],
     as_predicates = []\<rparr>)]), (Graph, [(''pid'', \<lparr>as_alias = ''pid'', 
     as_canonical = ''N.id physical field'', as_canonical_source = Graph, as_sources = [Graph], as_kind = KPhysical,
     as_value_type = VIdentity, as_schema_paths = [''N.id''], as_terms = [''pid'', ''id''],
     as_owner_terms = [''N''], as_nullable = False, as_grain = [], as_operation = None, as_inputs = [],
     as_predicates = []\<rparr>), (''pname'', \<lparr>as_alias = ''pname'', 
     as_canonical = ''N.nm physical field'', as_canonical_source = Graph, as_sources = [Graph], as_kind = KPhysical,
     as_value_type = VName, as_schema_paths = [''N.nm''], as_terms = [''pname'', ''nm''], as_owner_terms
     = [''N''], as_nullable = False, as_grain = [], as_operation = None, as_inputs = [], as_predicates =
     []\<rparr>), (''cid'', \<lparr>as_alias = ''cid'', as_canonical = ''comp'', as_canonical_source =
     Graph, as_sources = [Sql, Graph], as_kind = KRole, as_value_type = VIdentity, as_schema_paths =
     [''N.id''], as_terms = [''cid'', ''comp''], as_owner_terms = [''N''], as_nullable = False, as_grain
     = [], as_operation = Some RoleProjection, as_inputs = [], as_predicates = []\<rparr>), (''depth'',
     \<lparr>as_alias = ''depth'', as_canonical = ''d'', as_canonical_source = Graph, as_sources =
     [Graph], as_kind = KPath, as_value_type = VPath, as_schema_paths = [], as_terms = [''depth'',
     ''d''], as_owner_terms = [], as_nullable = False, as_grain = [], as_operation = Some PathLength,
     as_inputs = [], as_predicates = []\<rparr>)])], identity_aliases_by_tool = [(Sql, [''cid'',
     ''pid'']), (Graph, [''cid'', ''pid''])], shared_join_aliases = [''cid'', ''pid''], entity_roles =
     [(''prod'', \<lparr>er_role_id = ''prod'', er_canonical = ''x'', er_terms = [''prod'', ''x''],
     er_projections = [(Sql, \<lparr>ip_keys = [''pid''], ip_labels = []\<rparr>), (Graph,
     \<lparr>ip_keys = [''pid''], ip_labels = [''pname'']\<rparr>)], er_predicates = []\<rparr>)],
     result_shapes = [(''s'', \<lparr>shape_id = ''s'', shape_canonical = ''s'', trigger_term_groups =
     [[''tree'']], shape_sources = [(Graph, \<lparr>rs_display_entities = [''prod''], rs_required_outputs
     = [''depth''], rs_row_grain = [], rs_completion_groups = [[''depth'']], rs_result_invariant = None,
     rs_min_hops = None\<rparr>)]\<rparr>)], transforms = [(''bom_shortage_v1'', \<lparr>transform_id =
     ''bom_shortage_v1'', output_scale = 3, ts_required_outputs = [(Sql, [''cid'']), (Graph, [''cid'',
     ''depth''])], ts_generator_rules = [(Graph, [''g'']), (Sql, [''s''])]\<rparr>)]\<rparr>"

lemma example_build:
  "validate_ontology example_ontology = Inr ()"
  "build_query_semantic_catalog [(Graph, [''g'']), (Sql, [''s''])] example_sql_schema example_graph_schema example_ontology =
     Inr example_built_catalog"
  by code_simp+

theorem built_catalog_is_closed_witness:
  "catalog_ok example_built_catalog \<and> shared_join_aliases example_built_catalog = [''cid'', ''pid'']"
  using built_catalog_is_closed[OF example_build] by (simp add: example_built_catalog_def)

end
