(* ===== verification/Plan_Outputs.thy ===== *)
theory Plan_Outputs
  imports Planning Catalog_Builder
begin

text \<open>
  Output planning (\<open>orchestrator/nodes/plan_outputs.py\<close>): between routing and execution every
  subquery gets the aliases it must return.  A model chooses aliases and entity roles, with one
  repair attempt; the choice is checked against the catalog and the matched result shape, compiled
  to aliases, completed by join keys and binding sources, and the plan is validated.

  Arguments of the model: \<open>pe_ask\<close> is the chat model (the planning context and the failed replies
  with their errors in, an exception or the reply's content out), \<open>pe_json_loads\<close> is \<open>json.loads\<close>,
  and \<open>pe_path_rule\<close> and \<open>pe_role_rule\<close> are the two prompt texts that the rule compilers format.
  Subqueries without dependencies are planned concurrently by the code; here they are planned in
  order, which only decides which of two errors is raised.
\<close>

record semantic_output_plan =
  op_required :: "string list"
  op_display :: "string list"

datatype output_error =
    EmptyReply
  | BadJson
  | InvalidPlanFields
  | NotAliasArray string
  | EmptyAliasArray string
  | DuplicateAliases string
  | UnavailableAliases string "string list"
  | NothingSelected
  | ShapeIncomplete "string list" "string list"
  | FinalDuplicates string
  | FinalNotOwned string string "string list"
  | MalformedBinding string
  | UnknownProducer string
  | RouteDraftRequired
  | TransformTypeRequired
  | TransformSourceMissing string
  | AliasNotInCatalog string
  | RoleNotInCatalog string
  | PlannerCatalog catalog_error
  | PlannerException string
  | OutputPlanning output_error string
  | InvalidPlan plan_error

record planner_env =
  pe_ask :: "route_subquery \<Rightarrow> (string \<times> string) option \<Rightarrow> (string \<times> output_error) list \<Rightarrow> string + string option"
  pe_json_loads :: "string \<Rightarrow> pyval option"
  pe_path_rule :: string
  pe_role_rule :: "string \<Rightarrow> typed_predicate \<Rightarrow> string"

definition of_catalog :: "catalog_error + 'a \<Rightarrow> output_error + 'a" where
  "of_catalog m = (case m of Inl e \<Rightarrow> Inl (PlannerCatalog e) | Inr x \<Rightarrow> Inr x)"

definition of_plan :: "plan_error + 'a \<Rightarrow> output_error + 'a" where
  "of_plan m = (case m of Inl e \<Rightarrow> Inl (InvalidPlan e) | Inr x \<Rightarrow> Inr x)"

lemma of_catalog_Inr [simp, result_simps]: "of_catalog m = Inr x \<longleftrightarrow> m = Inr x"
  by (cases m) (auto simp: of_catalog_def)

lemma of_plan_Inr [simp, result_simps]: "of_plan m = Inr x \<longleftrightarrow> m = Inr x"
  by (cases m) (auto simp: of_plan_def)

subsection \<open>Reading the model's reply\<close>

definition parse_alias_array ::
    "pyval \<Rightarrow> string \<Rightarrow> string list \<Rightarrow> bool \<Rightarrow> output_error + string list" where
  "parse_alias_array value field_name allowed allow_empty = (case value of
     PList items \<Rightarrow>
       if list_ex (\<lambda>a. \<not> is_str a \<or> blank (str_of a)) items then Inl (NotAliasArray field_name)
       else let outputs = map str_of items; unknown = filter (\<lambda>a. a \<notin> set allowed) outputs in
         if \<not> allow_empty \<and> outputs = [] then Inl (EmptyAliasArray field_name)
         else if \<not> distinct outputs then Inl (DuplicateAliases field_name)
         else if unknown \<noteq> [] then Inl (UnavailableAliases field_name (sort unknown))
         else Inr outputs
   | _ \<Rightarrow> Inl (NotAliasArray field_name))"

definition parse_output_plan ::
    "(string \<Rightarrow> pyval option) \<Rightarrow> string \<Rightarrow> string \<Rightarrow> semantic_catalog \<Rightarrow> output_error + semantic_output_plan" where
  "parse_output_plan json_loads content t cat = (case json_loads content of
     None \<Rightarrow> Inl BadJson
   | Some (PDict raw) \<Rightarrow>
       if set (dict_keys raw) \<noteq> {''requiredOutputs'', ''displayEntities''} then Inl InvalidPlanFields
       else rbind (of_catalog (allowed_aliases cat t)) (\<lambda>aliases.
            rbind (parse_alias_array (dict_get raw ''requiredOutputs'' PNone) ''requiredOutputs'' aliases (t = ''graph'')) (\<lambda>required.
            rbind (of_catalog (allowed_entity_roles cat t)) (\<lambda>roles.
            rbind (parse_alias_array (dict_get raw ''displayEntities'' PNone) ''displayEntities'' roles True) (\<lambda>display.
              if t = ''graph'' \<and> required = [] \<and> display = [] then Inl NothingSelected
              else Inr \<lparr>op_required = required, op_display = display\<rparr>))))
   | Some _ \<Rightarrow> Inl InvalidPlanFields)"

subsection \<open>Compiling the choice\<close>

definition ordered_union :: "string list list \<Rightarrow> string list" where
  "ordered_union groups = fromkeys (concat groups)"

definition compile_semantic_output_plan ::
    "semantic_output_plan \<Rightarrow> semantic_catalog \<Rightarrow> string \<Rightarrow> output_error + string list" where
  "compile_semantic_output_plan plan cat t =
     rbind (rmap (\<lambda>role. of_catalog (identity_projection cat role t)) (op_display plan)) (\<lambda>projections.
       Inr (ordered_union [op_required plan, concat (map display_aliases projections)]))"

definition add_shape_role :: "semantic_catalog \<Rightarrow> string \<Rightarrow> string list \<Rightarrow> string \<Rightarrow> string list
    \<Rightarrow> output_error + string list" where
  "add_shape_role cat t selected role_id display =
     (if role_id \<in> set display then Inr display
      else rbind (of_catalog (identity_projection cat role_id t)) (\<lambda>projection.
        Inr (if list_ex (\<lambda>k. k \<in> set selected) (ip_keys projection) then display @ [role_id] else display)))"

definition complete_group :: "string list \<Rightarrow> string list \<Rightarrow> string list" where
  "complete_group members required =
     (if list_ex (\<lambda>a. a \<in> set required) members then ordered_union [required, members] else required)"

definition conform_output_plan_to_shape :: "semantic_output_plan \<Rightarrow> result_shape_source_spec option
    \<Rightarrow> semantic_catalog \<Rightarrow> string \<Rightarrow> output_error + semantic_output_plan" where
  "conform_output_plan_to_shape plan contract cat t = (case contract of
     None \<Rightarrow> Inr plan
   | Some c \<Rightarrow>
       rbind (rfold (add_shape_role cat t (op_required plan)) (rs_display_entities c) (op_display plan)) (\<lambda>display.
         let required = fold complete_group (rs_completion_groups c) (op_required plan);
             missing_roles = filter (\<lambda>r. r \<notin> set display) (rs_display_entities c);
             missing_outputs = filter (\<lambda>a. a \<notin> set required) (rs_required_outputs c)
         in if missing_roles \<noteq> [] \<or> missing_outputs \<noteq> [] then Inl (ShapeIncomplete missing_roles missing_outputs)
            else Inr \<lparr>op_required = required, op_display = display\<rparr>))"

definition compile_graph_generator_rules ::
    "string \<Rightarrow> semantic_catalog \<Rightarrow> string list \<Rightarrow> output_error + string list" where
  "compile_graph_generator_rules path_rule cat selected =
     rbind (rmap (\<lambda>a. case map_of (dict_get (by_tool cat) Graph []) a of
                    None \<Rightarrow> Inl (AliasNotInCatalog a) | Some spec \<Rightarrow> Inr spec) selected) (\<lambda>specs.
       Inr (if list_ex (\<lambda>s. as_operation s = Some OrderedPathProjection) specs then [path_rule] else []))"

definition role_rules :: "(string \<Rightarrow> typed_predicate \<Rightarrow> string) \<Rightarrow> tool_name \<Rightarrow> string \<times> entity_role_spec \<Rightarrow> string list" where
  "role_rules role_rule source = (\<lambda>(role_id, role). map (role_rule role_id) (dict_get (er_predicates role) source []))"

definition compile_entity_role_generator_rules :: "(string \<Rightarrow> typed_predicate \<Rightarrow> string)
    \<Rightarrow> semantic_output_plan \<Rightarrow> semantic_catalog \<Rightarrow> string \<Rightarrow> output_error + string list" where
  "compile_entity_role_generator_rules role_rule plan cat t =
     rbind (of_catalog (tool_of t)) (\<lambda>source.
     rbind (rmap (\<lambda>role_id. case map_of (entity_roles cat) role_id of
                    None \<Rightarrow> Inl (RoleNotInCatalog role_id)
                  | Some role \<Rightarrow> Inr (role_rules role_rule source (role_id, role))) (op_display plan)) (\<lambda>rules.
       Inr (concat rules)))"

definition check_final :: "string list \<Rightarrow> string \<Rightarrow> string \<times> string list \<Rightarrow> output_error + unit" where
  "check_final allowed t = (\<lambda>(field_name, aliases).
     let unknown = filter (\<lambda>a. a \<notin> set allowed) aliases in checks
       [require (distinct aliases) (FinalDuplicates field_name),
        require (unknown = []) (FinalNotOwned t field_name (sort unknown))])"

definition finalize_required_outputs :: "string list \<Rightarrow> string list \<Rightarrow> string list \<Rightarrow> semantic_catalog
    \<Rightarrow> string \<Rightarrow> output_error + string list" where
  "finalize_required_outputs selected join_keys outgoing cat t =
     rbind (of_catalog (allowed_aliases cat t)) (\<lambda>allowed.
     rbind (checks (map (check_final allowed t)
              [(''selectedOutputs'', selected), (''joinKeys'', join_keys), (''outgoingBindingSources'', outgoing)])) (\<lambda>_.
       Inr (ordered_union [selected, join_keys, outgoing])))"

definition add_outgoing :: "string \<Rightarrow> (string, string list) dict \<Rightarrow> output_error + (string, string list) dict" where
  "add_outgoing source result = (case split_once CHR ''.'' source of
     None \<Rightarrow> Inl (MalformedBinding source)
   | Some (source_id, alias) \<Rightarrow> (case map_of result source_id of
         None \<Rightarrow> Inl (UnknownProducer source_id)
       | Some aliases \<Rightarrow>
           Inr (if alias \<in> set aliases then result else AList.update source_id (aliases @ [alias]) result)))"

definition outgoing_binding_outputs :: "route_subquery list \<Rightarrow> output_error + (string, string list) dict" where
  "outgoing_binding_outputs subs =
     rfold add_outgoing (concat (map (\<lambda>x. map snd (inputBindings x)) subs)) (map (\<lambda>x. (subquery_id x, [])) subs)"

definition with_required_outputs :: "route_subquery \<Rightarrow> string list \<Rightarrow> string list \<Rightarrow> subquery" where
  "with_required_outputs r outputs rules =
     \<lparr>subquery_id = subquery_id r, tool = tool r, question = question r, dependsOn = dependsOn r,
      joinKeys = joinKeys r, inputBindings = inputBindings r, requiredOutputs = outputs, generatorRules = rules\<rparr>"

subsection \<open>Asking the model\<close>

definition read_reply :: "planner_env \<Rightarrow> semantic_catalog \<Rightarrow> string \<Rightarrow> result_shape_source_spec option
    \<Rightarrow> string option \<Rightarrow> output_error + semantic_output_plan" where
  "read_reply env cat t contract content = (case content of
     None \<Rightarrow> Inl EmptyReply
   | Some text \<Rightarrow> rbind (parse_output_plan (pe_json_loads env) text t cat) (\<lambda>parsed.
       conform_output_plan_to_shape parsed contract cat t))"

text \<open>The loop over the attempts; the list holds the attempts that are left.\<close>

fun select_loop :: "planner_env \<Rightarrow> semantic_catalog \<Rightarrow> route_subquery \<Rightarrow> (string \<times> string) option
    \<Rightarrow> result_shape_source_spec option \<Rightarrow> nat list \<Rightarrow> (string \<times> output_error) list
    \<Rightarrow> output_error + semantic_output_plan \<times> nat" where
  "select_loop env cat r context contract [] history = Inl EmptyReply"
| "select_loop env cat r context contract (attempt # rest) history =
     (case pe_ask env r context history of
        Inl e \<Rightarrow> Inl (PlannerException e)
      | Inr content \<Rightarrow>
          (case read_reply env cat (tool r) contract content of
             Inr plan \<Rightarrow> Inr (plan, attempt)
           | Inl e \<Rightarrow>
               let last_content = (case content of None \<Rightarrow> [] | Some text \<Rightarrow> text) in
               if rest = [] then Inl (OutputPlanning e last_content)
               else select_loop env cat r context contract rest (history @ [(last_content, e)])))"

definition select_output_plan :: "planner_env \<Rightarrow> semantic_catalog \<Rightarrow> route_subquery \<Rightarrow> (string \<times> string) option
    \<Rightarrow> result_shape_source_spec option \<Rightarrow> output_error + semantic_output_plan \<times> nat" where
  "select_output_plan env cat r context contract = select_loop env cat r context contract [0, 1] []"

subsection \<open>The node\<close>

record planning_state =
  ps_query :: string
  ps_entity :: pyval
  ps_route :: "route_subquery list option"
  ps_raw_route :: pyval
  ps_transform :: pyval

definition raw_questions :: "pyval \<Rightarrow> (string, string) dict" where
  "raw_questions raw = (case raw of
     PDict d \<Rightarrow> (case map_of d ''subqueries'' of
         Some (PList items) \<Rightarrow> fold (\<lambda>item questions. (case item of
             PDict i \<Rightarrow> (case (map_of i ''id'', map_of i ''question'') of
                 (Some (PStr k), Some (PStr q)) \<Rightarrow> AList.update k q questions
               | _ \<Rightarrow> questions)
           | _ \<Rightarrow> questions)) items []
       | _ \<Rightarrow> [])
   | _ \<Rightarrow> [])"

definition planning_context :: "planning_state \<Rightarrow> route_subquery list \<Rightarrow> route_subquery \<Rightarrow> (string \<times> string) option" where
  "planning_context st subs r =
     (if length subs > 1 then Some (''source responsibility'', question r)
      else (case map_of (raw_questions (ps_raw_route st)) (subquery_id r) of
          None \<Rightarrow> None
        | Some q \<Rightarrow> if q \<noteq> ps_query st then Some (''clarified interpretation'', q) else None))"

text \<open>The selected aliases, the generator rules and the number of repairs of one subquery.\<close>

definition select_outputs :: "planner_env \<Rightarrow> semantic_catalog \<Rightarrow> planning_state \<Rightarrow> route_subquery list \<Rightarrow> route_subquery
    \<Rightarrow> output_error + string list \<times> string list \<times> nat" where
  "select_outputs env cat st subs r = (case ps_transform st of
     PDict d \<Rightarrow> (case map_of d ''type'' of
         Some (PStr tid) \<Rightarrow>
           rbind (of_catalog (transform cat tid)) (\<lambda>spec.
           rbind (of_catalog (tool_of (tool r))) (\<lambda>source.
             (case (map_of (ts_required_outputs spec) source, map_of (ts_generator_rules spec) source) of
                (Some outputs, Some rules) \<Rightarrow> Inr (outputs, rules, 0)
              | _ \<Rightarrow> Inl (TransformSourceMissing (tool r)))))
       | _ \<Rightarrow> Inl TransformTypeRequired)
   | _ \<Rightarrow>
       rbind (of_catalog (tool_of (tool r))) (\<lambda>source.
       rbind (select_output_plan env cat r (planning_context st subs r)
                (map_of (match_result_shape_sources cat (ps_query st) (ps_entity st)) source)) (\<lambda>(plan, repairs).
       rbind (compile_semantic_output_plan plan cat (tool r)) (\<lambda>selected.
       rbind (compile_entity_role_generator_rules (pe_role_rule env) plan cat (tool r)) (\<lambda>rules.
       rbind (if tool r = ''graph'' then compile_graph_generator_rules (pe_path_rule env) cat selected else Inr []) (\<lambda>path_rules.
         Inr (selected, rules @ path_rules, repairs)))))))"

definition plan_one :: "planner_env \<Rightarrow> semantic_catalog \<Rightarrow> planning_state \<Rightarrow> route_subquery list
    \<Rightarrow> (string, string list) dict \<Rightarrow> route_subquery \<Rightarrow> output_error + subquery \<times> nat" where
  "plan_one env cat st subs outgoing r =
     rbind (select_outputs env cat st subs r) (\<lambda>(selected, rules, repairs).
     rbind (finalize_required_outputs selected (joinKeys r) (dict_get outgoing (subquery_id r) []) cat (tool r)) (\<lambda>outputs.
       Inr (with_required_outputs r outputs rules, repairs)))"

record output_plan =
  pl_subqueries :: "subquery list"
  pl_transform :: "bom_shortage_transform option"
  pl_repairs :: nat

definition plan_outputs :: "planner_env \<Rightarrow> semantic_catalog \<Rightarrow> planning_state \<Rightarrow> output_error + output_plan" where
  "plan_outputs env cat st = (case ps_route st of
     None \<Rightarrow> Inl RouteDraftRequired
   | Some subs \<Rightarrow>
       rbind (outgoing_binding_outputs subs) (\<lambda>outgoing.
       rbind (rmap (plan_one env cat st subs outgoing) subs) (\<lambda>planned.
       rbind (of_plan (validate_subqueries (PList (map (encode_subquery \<circ> fst) planned)) False)) (\<lambda>validated.
       rbind (of_plan (validate_result_transform (ps_transform st) validated (Some cat))) (\<lambda>result_transform.
         Inr \<lparr>pl_subqueries = validated, pl_transform = result_transform,
              pl_repairs = sum_list (map snd planned)\<rparr>)))))"

subsection \<open>What the planner may choose\<close>

definition displayable :: "semantic_catalog \<Rightarrow> tool_name \<Rightarrow> string \<Rightarrow> bool" where
  "displayable cat source role_id = (case map_of (entity_roles cat) role_id of
     None \<Rightarrow> False | Some role \<Rightarrow> map_of (er_projections role) source \<noteq> None)"

definition choice_ok :: "semantic_catalog \<Rightarrow> tool_name \<Rightarrow> semantic_output_plan \<Rightarrow> bool" where
  "choice_ok cat source plan \<longleftrightarrow>
     distinct (op_required plan) \<and> set (op_required plan) \<subseteq> set (owned cat source) \<and>
     distinct (op_display plan) \<and> list_all (displayable cat source) (op_display plan) \<and>
     (op_required plan \<noteq> [] \<or> op_display plan \<noteq> [])"

definition covers_shape :: "semantic_output_plan \<Rightarrow> result_shape_source_spec option \<Rightarrow> bool" where
  "covers_shape plan contract = (case contract of None \<Rightarrow> True
   | Some c \<Rightarrow> set (rs_display_entities c) \<subseteq> set (op_display plan) \<and>
              set (rs_required_outputs c) \<subseteq> set (op_required plan))"

definition shape_contract_ok :: "semantic_catalog \<Rightarrow> tool_name \<Rightarrow> result_shape_source_spec option \<Rightarrow> bool" where
  "shape_contract_ok cat source contract = (case contract of None \<Rightarrow> True | Some c \<Rightarrow> shape_source_ok cat source c)"

lemma allowed_aliases_owned:
  assumes "catalog_ok cat" and "tool_of t = Inr source"
  shows "\<exists>xs. allowed_aliases cat t = Inr xs \<and> set xs = set (owned cat source)"
proof -
  from assms(1) have "map_of (by_tool cat) source \<noteq> None" by (cases source) (auto simp: catalog_ok_def)
  with assms(2) show ?thesis by (auto simp: allowed_aliases_def owned_def dict_get_def)
qed

lemma allowed_entity_roles_displayable:
  assumes "catalog_ok cat" and "tool_of t = Inr source" and "allowed_entity_roles cat t = Inr roles" and "r \<in> set roles"
  shows "displayable cat source r"
proof -
  from assms(2-4) obtain role where r: "(r, role) \<in> set (entity_roles cat)"
    "source \<in> set (dict_keys (er_projections role))"
    by (auto simp: allowed_entity_roles_def)
  then have "map_of (entity_roles cat) r = Some role" using assms(1) by (simp add: catalog_ok_def dict_ok_def)
  with r(2) show ?thesis by (simp add: displayable_def map_of_eq_None_iff dict_keys_def)
qed

lemma displayable_projection:
  assumes "catalog_ok cat" and "tool_of t = Inr source" and "displayable cat source r"
  shows "\<exists>role p. map_of (entity_roles cat) r = Some role \<and> identity_projection cat r t = Inr p \<and> projection_ok cat source p"
proof -
  from assms(3) obtain role p where r: "map_of (entity_roles cat) r = Some role" "map_of (er_projections role) source = Some p"
    by (auto simp: displayable_def split: option.splits)
  with assms(1) have "role_ok cat role" by (auto simp: catalog_ok_def dest!: map_of_SomeD)
  with r(2) have "projection_ok cat source p" by (auto simp: role_ok_def dest!: map_of_SomeD)
  with assms(2) r show ?thesis by (simp add: identity_projection_def)
qed

lemma parse_alias_array_Inr:
  assumes "parse_alias_array v f allowed e = Inr outputs"
  shows "distinct outputs \<and> set outputs \<subseteq> set allowed \<and> (outputs = [] \<longrightarrow> e)"
  using assms
  by (auto simp: parse_alias_array_def Let_def filter_empty_conv split: pyval.splits if_splits)

lemma parse_output_plan_choice:
  assumes "catalog_ok cat" and "tool_of t = Inr source" and "parse_output_plan loads content t cat = Inr plan"
  shows "choice_ok cat source plan"
proof -
  from assms(3) obtain raw aliases required roles display where
    al: "allowed_aliases cat t = Inr aliases"
    and rq: "parse_alias_array (dict_get raw ''requiredOutputs'' PNone) ''requiredOutputs'' aliases (t = ''graph'') = Inr required"
    and ro: "allowed_entity_roles cat t = Inr roles"
    and dp: "parse_alias_array (dict_get raw ''displayEntities'' PNone) ''displayEntities'' roles True = Inr display"
    and ne: "\<not> (t = ''graph'' \<and> required = [] \<and> display = [])"
    and plan: "plan = \<lparr>op_required = required, op_display = display\<rparr>"
    by (auto simp: parse_output_plan_def result_simps split: option.splits pyval.splits if_splits)
  from allowed_aliases_owned[OF assms(1,2)] al have "set aliases = set (owned cat source)" by auto
  with parse_alias_array_Inr[OF rq] parse_alias_array_Inr[OF dp] ne plan
    allowed_entity_roles_displayable[OF assms(1,2) ro]
  show ?thesis by (auto simp: choice_ok_def list_all_iff)
qed

lemma complete_group_props:
  "distinct required \<Longrightarrow> distinct (complete_group g required)"
  "set required \<subseteq> set (complete_group g required)"
  "set (complete_group g required) \<subseteq> set required \<union> set g"
  by (auto simp: complete_group_def ordered_union_def)

lemma fold_complete_group:
  "(distinct required \<longrightarrow> distinct (fold complete_group gs required)) \<and>
   set required \<subseteq> set (fold complete_group gs required) \<and>
   set (fold complete_group gs required) \<subseteq> set required \<union> \<Union> (set ` set gs)"
proof (induction gs arbitrary: required)
  case (Cons g gs)
  from Cons.IH[of "complete_group g required"] complete_group_props[where required = required and g = g]
  show ?case by (simp only: fold_simps) (auto simp del: subsetI)
qed simp

lemma add_shape_roles:
  assumes "catalog_ok cat" and "tool_of t = Inr source"
    and "\<forall>r \<in> set rs. displayable cat source r"
    and "rfold (add_shape_role cat t selected) rs display = Inr display'"
    and "distinct display" and "list_all (displayable cat source) display"
  shows "distinct display' \<and> list_all (displayable cat source) display' \<and> set display \<subseteq> set display'"
proof -
  let ?P = "\<lambda>d. distinct d \<and> list_all (displayable cat source) d \<and> set display \<subseteq> set d"
  from assms(4) have "?P display'"
  proof (rule rfold_invariant)
    show "?P display" using assms(5,6) by simp
    fix r d d'
    assume "r \<in> set rs" and P: "?P d" and step: "add_shape_role cat t selected r d = Inr d'"
    from step have "d' = d \<or> (r \<notin> set d \<and> d' = d @ [r])"
      by (auto simp: add_shape_role_def result_simps split: if_splits)
    with P assms(3) \<open>r \<in> set rs\<close> show "?P d'" by auto
  qed
  then show ?thesis .
qed

lemma add_shape_roles_total:
  assumes "catalog_ok cat" and "tool_of t = Inr source" and "\<forall>r \<in> set rs. displayable cat source r"
  shows "\<exists>d. rfold (add_shape_role cat t selected) rs display = Inr d"
  using assms(3)
proof (induction rs arbitrary: display)
  case (Cons r rs)
  from displayable_projection[OF assms(1,2), of r] Cons.prems obtain p where "identity_projection cat r t = Inr p" by auto
  then have "\<exists>d. add_shape_role cat t selected r display = Inr d" by (simp add: add_shape_role_def of_catalog_def)
  with Cons show ?case by auto
qed simp

lemma shape_roles_displayable:
  assumes "catalog_ok cat" and "shape_source_ok cat source c" and "r \<in> set (rs_display_entities c)"
  shows "displayable cat source r"
proof -
  from assms(2,3) obtain role where "map_of (entity_roles cat) r = Some role"
    "source \<in> fst ` set (er_projections role)" unfolding shape_source_ok_def dict_keys_def set_map by blast
  then show ?thesis by (simp add: displayable_def map_of_eq_None_iff)
qed

lemma conform_choice:
  assumes "catalog_ok cat" and "tool_of t = Inr source" and "choice_ok cat source plan"
    and "shape_contract_ok cat source contract"
    and "conform_output_plan_to_shape plan contract cat t = Inr plan'"
  shows "choice_ok cat source plan' \<and> covers_shape plan' contract \<and>
    set (op_required plan) \<subseteq> set (op_required plan') \<and> set (op_display plan) \<subseteq> set (op_display plan')"
proof (cases contract)
  case None
  with assms(3,5) show ?thesis by (simp add: conform_output_plan_to_shape_def covers_shape_def)
next
  case (Some c)
  with assms(4) have sc: "shape_source_ok cat source c" by (simp add: shape_contract_ok_def)
  let ?req = "fold complete_group (rs_completion_groups c) (op_required plan)"
  from assms(5) Some obtain display where
    d: "rfold (add_shape_role cat t (op_required plan)) (rs_display_entities c) (op_display plan) = Inr display"
    and p': "plan' = \<lparr>op_required = ?req, op_display = display\<rparr>"
    and cov: "set (rs_display_entities c) \<subseteq> set display" "set (rs_required_outputs c) \<subseteq> set ?req"
    by (auto simp: conform_output_plan_to_shape_def result_simps Let_def filter_empty_conv split: if_splits)
  have disp: "\<forall>r \<in> set (rs_display_entities c). displayable cat source r"
    using shape_roles_displayable[OF assms(1) sc] by blast
  from add_shape_roles[OF assms(1,2) disp d] assms(3)
  have "distinct display" "list_all (displayable cat source) display" "set (op_display plan) \<subseteq> set display"
    by (auto simp: choice_ok_def)
  moreover from sc have "\<Union> (set ` set (rs_completion_groups c)) \<subseteq> set (owned cat source)"
    by (auto simp: shape_source_ok_def)
  with fold_complete_group[where required = "op_required plan" and gs = "rs_completion_groups c"] assms(3)
  have "distinct ?req" "set (op_required plan) \<subseteq> set ?req" "set ?req \<subseteq> set (owned cat source)"
    unfolding choice_ok_def by (blast, blast, blast)
  ultimately show ?thesis
    using assms(3) cov by (auto simp: choice_ok_def p' covers_shape_def Some)
qed

subsection \<open>Compiled outputs and rules\<close>

lemma compile_choice:
  assumes "catalog_ok cat" and "tool_of t = Inr source" and "choice_ok cat source plan"
  shows "\<exists>selected. compile_semantic_output_plan plan cat t = Inr selected \<and> distinct selected \<and>
    selected \<noteq> [] \<and> set selected \<subseteq> set (owned cat source) \<and> set (op_required plan) \<subseteq> set selected \<and>
    (\<forall>r \<in> set (op_display plan). \<forall>p. identity_projection cat r t = Inr p \<longrightarrow> set (display_aliases p) \<subseteq> set selected)"
proof -
  define proj where "proj r = (SOME p. identity_projection cat r t = Inr p)" for r
  have proj: "identity_projection cat r t = Inr (proj r) \<and> projection_ok cat source (proj r)"
    if r: "r \<in> set (op_display plan)" for r
  proof -
    from assms(3) r have "displayable cat source r" by (simp add: choice_ok_def list_all_iff)
    with displayable_projection[OF assms(1,2)] obtain p where p: "identity_projection cat r t = Inr p" "projection_ok cat source p"
      by blast
    then have "proj r = p" by (simp add: proj_def)
    with p show ?thesis by simp
  qed
  let ?ps = "map proj (op_display plan)"
  have "rmap (\<lambda>role. of_catalog (identity_projection cat role t)) (op_display plan) = Inr ?ps"
    using proj by (intro rmap_all_Inr) (simp add: of_catalog_def)
  then have c: "compile_semantic_output_plan plan cat t =
      Inr (ordered_union [op_required plan, concat (map display_aliases ?ps)])"
    by (simp add: compile_semantic_output_plan_def)
  let ?sel = "ordered_union [op_required plan, concat (map display_aliases ?ps)]"
  have set_sel: "set ?sel = set (op_required plan) \<union> (\<Union>r \<in> set (op_display plan). set (display_aliases (proj r)))"
    by (simp add: ordered_union_def)
  have "set ?sel \<subseteq> set (owned cat source)"
    using proj assms(3) unfolding set_sel by (auto simp: projection_ok_def choice_ok_def)
  note own = this
  have "set ?sel \<noteq> {}"
  proof (cases "op_required plan = []")
    case True
    with assms(3) obtain r where r: "r \<in> set (op_display plan)" by (auto simp: choice_ok_def) (metis list.set_sel(1))
    with proj have "display_aliases (proj r) \<noteq> []" by (auto simp: projection_ok_def display_aliases_def)
    with r show ?thesis unfolding set_sel by (metis UN_I empty_iff set_empty ex_in_conv UnCI)
  next
    case False
    then show ?thesis unfolding set_sel by (metis Un_empty set_empty)
  qed
  then have ne: "?sel \<noteq> []" by force
  have "set (display_aliases p) \<subseteq> set ?sel" if "r \<in> set (op_display plan)" "identity_projection cat r t = Inr p" for r p
    using proj[OF that(1)] that unfolding set_sel by auto
  then have "\<forall>r \<in> set (op_display plan). \<forall>p. identity_projection cat r t = Inr p \<longrightarrow> set (display_aliases p) \<subseteq> set ?sel"
    by blast
  moreover have "distinct ?sel" by (simp add: ordered_union_def)
  moreover have "set (op_required plan) \<subseteq> set ?sel" unfolding set_sel by blast
  ultimately show ?thesis using c ne own by blast
qed

text \<open>The rule texts of a catalog are acceptable when those of all its roles and the path rule are.\<close>

definition catalog_rules :: "planner_env \<Rightarrow> semantic_catalog \<Rightarrow> tool_name \<Rightarrow> string list" where
  "catalog_rules env cat source =
     concat (map (role_rules (pe_role_rule env) source) (entity_roles cat)) @ [pe_path_rule env]"

definition rules_ok :: "planner_env \<Rightarrow> semantic_catalog \<Rightarrow> bool" where
  "rules_ok env cat \<longleftrightarrow> (\<forall>source. string_array_ok (catalog_rules env cat source))"

lemma concat_distinct_parts:
  assumes "distinct (concat (map f xs))" and "distinct ys" and "set ys \<subseteq> set xs" and "distinct xs"
  shows "distinct (concat (map f ys))"
  using assms(2,3)
proof (induction ys)
  case (Cons y ys)
  have part: "distinct (f x)" if "x \<in> set xs" for x
    using assms(1) that by (induction xs) auto
  have disj: "set (f x) \<inter> set (f y) = {}" if "x \<in> set xs" "y \<in> set xs" "x \<noteq> y" for x y
    using assms(1) that by (induction xs) auto
  have "set (f y) \<inter> (\<Union>z \<in> set ys. set (f z)) = {}"
    using disj[of y] Cons.prems by auto blast?
  with Cons part show ?case by auto
qed simp

lemma entity_rules_ok:
  assumes "catalog_ok cat" and "tool_of t = Inr source" and "choice_ok cat source plan" and "rules_ok env cat"
  shows "\<exists>rules. compile_entity_role_generator_rules (pe_role_rule env) plan cat t = Inr rules \<and>
    string_array_ok rules \<and> pe_path_rule env \<notin> set rules"
proof -
  define role where "role r = the (map_of (entity_roles cat) r)" for r
  have role: "map_of (entity_roles cat) r = Some (role r)" if "r \<in> set (op_display plan)" for r
    using that assms(3) by (auto simp: choice_ok_def list_all_iff displayable_def role_def split: option.splits)
  let ?f = "role_rules (pe_role_rule env) source"
  let ?ps = "map (\<lambda>r. (r, role r)) (op_display plan)"
  have "rmap (\<lambda>role_id. case map_of (entity_roles cat) role_id of
                    None \<Rightarrow> Inl (RoleNotInCatalog role_id)
                  | Some role \<Rightarrow> Inr (role_rules (pe_role_rule env) source (role_id, role))) (op_display plan) =
      Inr (map (\<lambda>r. ?f (r, role r)) (op_display plan))"
    using role by (intro rmap_all_Inr) simp
  then have c: "compile_entity_role_generator_rules (pe_role_rule env) plan cat t = Inr (concat (map ?f ?ps))"
    using assms(2) by (simp add: compile_entity_role_generator_rules_def of_catalog_def o_def)
  have sub: "set ?ps \<subseteq> set (entity_roles cat)" using role by (auto dest: map_of_SomeD)
  have all: "distinct (concat (map ?f (entity_roles cat)))" "pe_path_rule env \<notin> set (concat (map ?f (entity_roles cat)))"
    "\<forall>s \<in> set (concat (map ?f (entity_roles cat))). \<not> blank s"
    using assms(4) by (auto simp: rules_ok_def string_array_ok_def catalog_rules_def list_all_iff)
  have "distinct (entity_roles cat)" using assms(1) by (auto simp: catalog_ok_def dict_ok_def distinct_map)
  moreover have "distinct ?ps" using assms(3) by (auto simp: choice_ok_def distinct_map inj_on_def)
  ultimately have "distinct (concat (map ?f ?ps))" using concat_distinct_parts[OF all(1) _ sub] by blast
  moreover have inc: "set (concat (map ?f ?ps)) \<subseteq> set (concat (map ?f (entity_roles cat)))"
    unfolding set_concat set_map by (rule Union_mono, rule image_mono, rule image_mono) (use sub in simp)
  have "string_array_ok (concat (map ?f ?ps))"
    unfolding string_array_ok_def list_all_iff using calculation all(3) inc by blast
  moreover have "pe_path_rule env \<notin> set (concat (map ?f ?ps))" using all(2) inc by blast
  ultimately show ?thesis using c by blast
qed

lemma graph_rules_total:
  assumes "catalog_ok cat" and "set selected \<subseteq> set (owned cat Graph)"
  shows "\<exists>rules. compile_graph_generator_rules path_rule cat selected = Inr rules \<and> (rules = [] \<or> rules = [path_rule])"
proof -
  have "\<exists>spec. map_of (dict_get (by_tool cat) Graph []) a = Some spec" if "a \<in> set selected" for a
    using assms(2) that by (metis dict_keys_def list.set_map map_of_eq_None_iff not_None_eq owned_def subsetD)
  then obtain f where "\<forall>a \<in> set selected. map_of (dict_get (by_tool cat) Graph []) a = Some (f a)" by metis
  then have "rmap (\<lambda>a. case map_of (dict_get (by_tool cat) Graph []) a of
      None \<Rightarrow> Inl (AliasNotInCatalog a) | Some spec \<Rightarrow> Inr spec) selected = Inr (map f selected)"
    by (intro rmap_all_Inr) simp
  then show ?thesis by (simp add: compile_graph_generator_rules_def)
qed

subsection \<open>Binding sources\<close>

definition outgoing_ok :: "semantic_catalog \<Rightarrow> route_subquery list \<Rightarrow> (string, string list) dict \<Rightarrow> bool" where
  "outgoing_ok cat subs result \<longleftrightarrow> set (dict_keys result) = set (ids subs) \<and>
     (\<forall>x \<in> set subs. \<exists>aliases. map_of result (subquery_id x) = Some aliases \<and> distinct aliases \<and>
        (\<forall>source. tool_of (tool x) = Inr source \<longrightarrow> set aliases \<subseteq> set (owned cat source)))"

text \<open>A binding source that the route validation accepted names a subquery and an alias its source owns.\<close>

definition producer_owns :: "semantic_catalog \<Rightarrow> route_subquery list \<Rightarrow> string \<Rightarrow> bool" where
  "producer_owns cat subs src \<longleftrightarrow> (\<exists>d out p. split_once CHR ''.'' src = Some (d, out) \<and> p \<in> set subs \<and>
     subquery_id p = d \<and> (\<forall>source. tool_of (tool p) = Inr source \<longrightarrow> out \<in> set (owned cat source)))"

lemma add_outgoing_step:
  assumes "distinct (ids subs)" and "producer_owns cat subs src" and "outgoing_ok cat subs result"
  shows "\<exists>result'. add_outgoing src result = Inr result' \<and> outgoing_ok cat subs result' \<and>
    (\<forall>k a. a \<in> set (dict_get result k []) \<longrightarrow> a \<in> set (dict_get result' k [])) \<and>
    (\<forall>d out. split_once CHR ''.'' src = Some (d, out) \<longrightarrow> out \<in> set (dict_get result' d []))"
proof -
  from assms(2) obtain d out p where s: "split_once CHR ''.'' src = Some (d, out)" and p: "p \<in> set subs" "subquery_id p = d"
    and own: "\<forall>source. tool_of (tool p) = Inr source \<longrightarrow> out \<in> set (owned cat source)"
    by (auto simp: producer_owns_def)
  from assms(3) p obtain aliases where al: "map_of result d = Some aliases" "distinct aliases"
    "\<forall>source. tool_of (tool p) = Inr source \<longrightarrow> set aliases \<subseteq> set (owned cat source)"
    by (auto simp: outgoing_ok_def)
  show ?thesis
  proof (cases "out \<in> set aliases")
    case True
    with s al assms(3) show ?thesis by (auto simp: add_outgoing_def dict_get_def)
  next
    case False
    let ?r = "AList.update d (aliases @ [out]) result"
    have upd: "map_of ?r k = (if k = d then Some (aliases @ [out]) else map_of result k)" for k
      by (simp add: update_conv')
    have same: "x = p" if "x \<in> set subs" "subquery_id x = d" for x
      using that p assms(1) by (auto simp: distinct_map inj_on_def)
    have keys: "set (dict_keys ?r) = set (ids subs)"
      using assms(3) p by (auto simp: outgoing_ok_def dict_keys_def dom_map_of_conv_image_fst[symmetric] upd
          dom_def split: if_splits) (metis assms(3) domI)?
    have "outgoing_ok cat subs ?r"
      unfolding outgoing_ok_def
    proof (intro conjI ballI)
      show "set (dict_keys ?r) = set (ids subs)" by (rule keys)
      fix x
      assume x: "x \<in> set subs"
      show "\<exists>aliases. map_of ?r (subquery_id x) = Some aliases \<and> distinct aliases \<and>
        (\<forall>source. tool_of (tool x) = Inr source \<longrightarrow> set aliases \<subseteq> set (owned cat source))"
      proof (cases "subquery_id x = d")
        case True
        with same[OF x] al(2,3) own False show ?thesis by (auto simp: upd)
      next
        case False
        with assms(3) x show ?thesis by (auto simp: upd outgoing_ok_def)
      qed
    qed
    with s al(1) False show ?thesis by (auto simp: add_outgoing_def dict_get_def upd)
  qed
qed

lemma add_outgoing_all:
  assumes "distinct (ids subs)" and "\<forall>src \<in> set srcs. producer_owns cat subs src" and "outgoing_ok cat subs result"
  shows "\<exists>result'. rfold add_outgoing srcs result = Inr result' \<and> outgoing_ok cat subs result' \<and>
    (\<forall>k a. a \<in> set (dict_get result k []) \<longrightarrow> a \<in> set (dict_get result' k [])) \<and>
    (\<forall>src \<in> set srcs. \<forall>d out. split_once CHR ''.'' src = Some (d, out) \<longrightarrow> out \<in> set (dict_get result' d []))"
  using assms(2,3)
proof (induction srcs arbitrary: result)
  case (Cons src srcs)
  from add_outgoing_step[OF assms(1), of cat src result] Cons.prems obtain r1 where r1:
    "add_outgoing src result = Inr r1" "outgoing_ok cat subs r1"
    "\<forall>k a. a \<in> set (dict_get result k []) \<longrightarrow> a \<in> set (dict_get r1 k [])"
    "\<forall>d out. split_once CHR ''.'' src = Some (d, out) \<longrightarrow> out \<in> set (dict_get r1 d [])" by auto
  from Cons.IH[of r1] Cons.prems(1) r1(2) obtain r2 where r2:
    "rfold add_outgoing srcs r1 = Inr r2" "outgoing_ok cat subs r2"
    "\<forall>k a. a \<in> set (dict_get r1 k []) \<longrightarrow> a \<in> set (dict_get r2 k [])"
    "\<forall>src \<in> set srcs. \<forall>d out. split_once CHR ''.'' src = Some (d, out) \<longrightarrow> out \<in> set (dict_get r2 d [])" by auto
  from r1 r2 show ?case by (intro exI[of _ r2]) auto
qed simp

lemma route_bindings_owned:
  assumes "catalog_ok cat" and "route_wf shared (Some cat) subs" and "x \<in> set subs" and "src \<in> set (map snd (inputBindings x))"
  shows "producer_owns cat subs src"
proof -
  from assms(2-4) have "route_binding_ok (Some cat) subs x src" by (auto simp: route_wf_def list_all_iff)
  note ok = this
  then obtain d out where s: "split_once CHR ''.'' src = Some (d, out)"
    by (auto simp: route_binding_ok_def split: option.split_asm)
  with ok obtain p where p: "find_subquery subs d = Some p" by (cases "find_subquery subs d") (auto simp: route_binding_ok_def)
  with ok s obtain allowed where al: "allowed_aliases cat (tool p) = Inr allowed" "out \<in> set allowed"
    by (cases "allowed_aliases cat (tool p)") (auto simp: route_binding_ok_def)
  from p have "p \<in> set subs" "subquery_id p = d" by (auto simp: find_subquery_def find_Some_iff)
  moreover have "out \<in> set (owned cat source)" if "tool_of (tool p) = Inr source" for source
    using allowed_aliases_owned[OF assms(1) that] al by auto
  ultimately show ?thesis using s by (auto simp: producer_owns_def)
qed

lemma outgoing_total:
  assumes "catalog_ok cat" and "route_wf shared (Some cat) subs"
  shows "\<exists>outgoing. outgoing_binding_outputs subs = Inr outgoing \<and> outgoing_ok cat subs outgoing \<and>
    (\<forall>x \<in> set subs. \<forall>src \<in> set (map snd (inputBindings x)). \<forall>d out. split_once CHR ''.'' src = Some (d, out) \<longrightarrow>
       out \<in> set (dict_get outgoing d []))"
proof -
  have d: "distinct (ids subs)" using assms(2) by (simp add: route_wf_def)
  let ?start = "map (\<lambda>x. (subquery_id x, [])) subs :: (string, string list) dict"
  have "map_of ?start (subquery_id x) = Some []" if "x \<in> set subs" for x
    using that by (induction subs) auto
  then have "outgoing_ok cat subs ?start" by (auto simp: outgoing_ok_def dict_keys_def o_def)
  moreover have "\<forall>src \<in> set (concat (map (\<lambda>x. map snd (inputBindings x)) subs)). producer_owns cat subs src"
    using route_bindings_owned[OF assms] by auto
  ultimately show ?thesis
    using add_outgoing_all[OF d, of "concat (map (\<lambda>x. map snd (inputBindings x)) subs)" cat ?start]
    unfolding outgoing_binding_outputs_def set_concat set_map by fastforce
qed

lemma finalize_total:
  assumes "catalog_ok cat" and "tool_of t = Inr source" and "distinct selected" and "distinct ks" and "distinct outs"
    and "set selected \<union> set ks \<union> set outs \<subseteq> set (owned cat source)"
  shows "finalize_required_outputs selected ks outs cat t = Inr (ordered_union [selected, ks, outs])"
proof -
  from allowed_aliases_owned[OF assms(1,2)] obtain xs where "allowed_aliases cat t = Inr xs" "set xs = set (owned cat source)"
    by blast
  with assms(3-6) have "check_final xs t (f, al) = Inr ()" if "al \<in> {selected, ks, outs}" for f al
    using that by (auto simp: check_final_def Let_def result_simps filter_empty_conv simp del: checks.simps)
  with \<open>allowed_aliases cat t = Inr xs\<close> show ?thesis
    by (simp add: finalize_required_outputs_def of_catalog_def)
qed

subsection \<open>The repair loop\<close>

lemma select_loop_sound:
  assumes "select_loop env cat r ctx contract attempts history = Inr (plan, n)"
  shows "n \<in> set attempts \<and> (\<exists>content. read_reply env cat (tool r) contract content = Inr plan)"
  using assms
  by (induction env cat r ctx contract attempts history rule: select_loop.induct)
    (auto simp: Let_def split: sum.splits if_splits)

lemma read_reply_choice:
  assumes "catalog_ok cat" and "tool_of t = Inr source" and "shape_contract_ok cat source contract"
    and "read_reply env cat t contract content = Inr plan"
  shows "choice_ok cat source plan \<and> covers_shape plan contract"
proof -
  from assms(4) obtain reply parsed where "parse_output_plan (pe_json_loads env) reply t cat = Inr parsed"
    and c: "conform_output_plan_to_shape parsed contract cat t = Inr plan"
    by (auto simp: read_reply_def result_simps split: option.splits)
  from parse_output_plan_choice[OF assms(1,2) this(1)] conform_choice[OF assms(1,2) _ assms(3) c] show ?thesis by blast
qed

lemma best_contracts_subset: "c \<in> set (best_contracts cs) \<Longrightarrow> c \<in> snd ` set cs"
  by (force simp: best_contracts_def split: option.splits)

lemma matched_contract_ok:
  assumes "catalog_ok cat"
  shows "shape_contract_ok cat source (map_of (match_result_shape_sources cat q e) source)"
proof (cases "map_of (match_result_shape_sources cat q e) source")
  case None
  then show ?thesis by (simp add: shape_contract_ok_def)
next
  case (Some c)
  let ?text = "shape_comparison_text q e"
  from Some have "(source, c) \<in> set (match_shape_sources cat ?text)"
    unfolding match_result_shape_sources_def by (rule map_of_SomeD)
  then have "c \<in> set (best_contracts (shape_candidates cat ?text source))"
    by (auto simp: match_shape_sources_def Let_def split: if_splits)
  from best_contracts_subset[OF this] obtain sid shape where "(sid, shape) \<in> set (result_shapes cat)"
    "(source, c) \<in> set (shape_sources shape)"
    by (auto simp: shape_candidates_def split: option.splits dest!: map_of_SomeD map_of_SomeD[OF sym])
  with assms Some show ?thesis by (auto simp: catalog_ok_def shape_contract_ok_def)
qed

subsection \<open>Planning one subquery\<close>

definition contract_for :: "semantic_catalog \<Rightarrow> planning_state \<Rightarrow> tool_name \<Rightarrow> result_shape_source_spec option" where
  "contract_for cat st source = map_of (match_result_shape_sources cat (ps_query st) (ps_entity st)) source"

definition model_choice :: "planner_env \<Rightarrow> semantic_catalog \<Rightarrow> planning_state \<Rightarrow> route_subquery list \<Rightarrow> route_subquery
    \<Rightarrow> output_error + semantic_output_plan \<times> nat" where
  "model_choice env cat st subs r = rbind (of_catalog (tool_of (tool r))) (\<lambda>source.
     select_output_plan env cat r (planning_context st subs r) (contract_for cat st source))"

text \<open>What a planned subquery promises: it keeps the route, returns its join keys and the values later subqueries
  bind, and only aliases of its source.\<close>

definition planned_base :: "semantic_catalog \<Rightarrow> (string, string list) dict \<Rightarrow> route_subquery \<Rightarrow> subquery \<Rightarrow> bool" where
  "planned_base cat outgoing r x \<longleftrightarrow> with_required_outputs r (requiredOutputs x) (generatorRules x) = x \<and>
     distinct (requiredOutputs x) \<and> requiredOutputs x \<noteq> [] \<and> string_array_ok (generatorRules x) \<and>
     set (joinKeys r) \<union> set (dict_get outgoing (subquery_id r) []) \<subseteq> set (requiredOutputs x) \<and>
     (\<forall>source. tool_of (tool r) = Inr source \<longrightarrow> set (requiredOutputs x) \<subseteq> set (owned cat source))"

text \<open>When the model chose the outputs, all it chose, the identity of every displayed role and the outputs of the
  matched shape are returned too.\<close>

definition planned_ok :: "semantic_catalog \<Rightarrow> planning_state \<Rightarrow> (string, string list) dict \<Rightarrow> semantic_output_plan
    \<Rightarrow> route_subquery \<Rightarrow> subquery \<Rightarrow> bool" where
  "planned_ok cat st outgoing plan r x \<longleftrightarrow> planned_base cat outgoing r x \<and>
     set (op_required plan) \<subseteq> set (requiredOutputs x) \<and>
     (\<forall>source. tool_of (tool r) = Inr source \<longrightarrow> covers_shape plan (contract_for cat st source)) \<and>
     (\<forall>role \<in> set (op_display plan). \<forall>p. identity_projection cat role (tool r) = Inr p \<longrightarrow>
        set (display_aliases p) \<subseteq> set (requiredOutputs x))"

lemma model_choice_sound:
  assumes "catalog_ok cat" and "tool_of (tool r) = Inr source" and "model_choice env cat st subs r = Inr (plan, n)"
  shows "choice_ok cat source plan \<and> covers_shape plan (contract_for cat st source) \<and> n \<le> 1"
proof -
  from assms(2,3) have "select_loop env cat r (planning_context st subs r) (contract_for cat st source) [0, 1] [] = Inr (plan, n)"
    by (simp add: model_choice_def select_output_plan_def of_catalog_def del: select_loop.simps)
  from select_loop_sound[OF this] obtain content where "n \<le> 1"
    and rr: "read_reply env cat (tool r) (contract_for cat st source) content = Inr plan" by auto
  have "shape_contract_ok cat source (contract_for cat st source)"
    unfolding contract_for_def by (rule matched_contract_ok[OF assms(1)])
  from read_reply_choice[OF assms(1,2) this rr] \<open>n \<le> 1\<close> show ?thesis by blast
qed

lemma string_array_snoc: "string_array_ok xs \<Longrightarrow> a \<notin> set xs \<Longrightarrow> \<not> blank a \<Longrightarrow> string_array_ok (xs @ [a])"
  by (simp add: string_array_ok_def)

lemma select_outputs_total:
  assumes ok: "catalog_ok cat" and rules: "rules_ok env cat" and t: "tool_of (tool r) = Inr source"
    and none: "\<nexists>d. ps_transform st = PDict d"
    and mc: "model_choice env cat st subs r = Inr (plan, n)"
  shows "\<exists>selected rules. select_outputs env cat st subs r = Inr (selected, rules, n) \<and> distinct selected \<and> selected \<noteq> [] \<and>
     set selected \<subseteq> set (owned cat source) \<and> set (op_required plan) \<subseteq> set selected \<and> string_array_ok rules \<and>
     (\<forall>role \<in> set (op_display plan). \<forall>p. identity_projection cat role (tool r) = Inr p \<longrightarrow>
        set (display_aliases p) \<subseteq> set selected)"
proof -
  from model_choice_sound[OF ok t mc] have ch: "choice_ok cat source plan" by blast
  from compile_choice[OF ok t ch] obtain selected where
    c: "compile_semantic_output_plan plan cat (tool r) = Inr selected" and sel: "distinct selected" "selected \<noteq> []"
    "set selected \<subseteq> set (owned cat source)" "set (op_required plan) \<subseteq> set selected"
    "\<forall>role \<in> set (op_display plan). \<forall>p. identity_projection cat role (tool r) = Inr p \<longrightarrow> set (display_aliases p) \<subseteq> set selected"
    by blast
  from entity_rules_ok[OF ok t ch rules] obtain rs where
    rs: "compile_entity_role_generator_rules (pe_role_rule env) plan cat (tool r) = Inr rs"
    "string_array_ok rs" "pe_path_rule env \<notin> set rs" by blast
  have pb: "\<not> blank (pe_path_rule env)"
    using rules by (auto simp: rules_ok_def string_array_ok_def catalog_rules_def)
  let ?path = "if tool r = ''graph'' then compile_graph_generator_rules (pe_path_rule env) cat selected else Inr []"
  have "\<exists>ps. ?path = Inr ps \<and> string_array_ok (rs @ ps)"
  proof (cases "tool r = ''graph''")
    case True
    with t have "source = Graph" by (simp add: tool_of_def)
    with sel(3) graph_rules_total[OF ok, of selected "pe_path_rule env"] True rs string_array_snoc[OF rs(2,3) pb]
    show ?thesis by auto
  qed (use rs in simp)
  then obtain ps where ps: "?path = Inr ps" "string_array_ok (rs @ ps)" by blast
  have "select_output_plan env cat r (planning_context st subs r)
       (map_of (match_result_shape_sources cat (ps_query st) (ps_entity st)) source) = Inr (plan, n)"
    using mc t by (simp add: model_choice_def contract_for_def of_catalog_def)
  with none t c rs ps(1) have "select_outputs env cat st subs r = Inr (selected, rs @ ps, n)"
    unfolding select_outputs_def by (cases "ps_transform st") (simp_all add: of_catalog_def)
  with sel ps(2) show ?thesis by blast
qed

lemma plan_one_total:
  assumes ok: "catalog_ok cat" and rules: "rules_ok env cat" and r: "r \<in> set subs" and t: "tool_of (tool r) = Inr source"
    and none: "\<nexists>d. ps_transform st = PDict d"
    and mc: "model_choice env cat st subs r = Inr (plan, n)"
    and out: "outgoing_ok cat subs outgoing"
    and ks: "distinct (joinKeys r)" "set (joinKeys r) \<subseteq> set (owned cat source)"
  shows "\<exists>x. plan_one env cat st subs outgoing r = Inr (x, n) \<and> planned_ok cat st outgoing plan r x"
proof -
  from select_outputs_total[OF ok rules t none mc] obtain selected rs where
    s: "select_outputs env cat st subs r = Inr (selected, rs, n)" "distinct selected" "selected \<noteq> []"
     "set selected \<subseteq> set (owned cat source)" "set (op_required plan) \<subseteq> set selected" "string_array_ok rs"
     "\<forall>role \<in> set (op_display plan). \<forall>p. identity_projection cat role (tool r) = Inr p \<longrightarrow> set (display_aliases p) \<subseteq> set selected"
    by blast
  let ?o = "dict_get outgoing (subquery_id r) []"
  from out r obtain aliases where "map_of outgoing (subquery_id r) = Some aliases" "distinct aliases"
    "\<forall>source. tool_of (tool r) = Inr source \<longrightarrow> set aliases \<subseteq> set (owned cat source)"
    unfolding outgoing_ok_def by blast
  with t have o: "distinct ?o" "set ?o \<subseteq> set (owned cat source)" by (simp_all add: dict_get_def)
  let ?out = "ordered_union [selected, joinKeys r, ?o]"
  have set_out: "set ?out = set selected \<union> set (joinKeys r) \<union> set ?o" by (auto simp: ordered_union_def)
  from finalize_total[OF ok t s(2) ks(1) o(1)] s(4) ks(2) o(2)
  have "plan_one env cat st subs outgoing r = Inr (with_required_outputs r ?out rs, n)"
    by (simp add: plan_one_def s(1))
  moreover have "?out \<noteq> []"
    by (metis s(3) set_out Un_empty set_empty)
  then have "planned_ok cat st outgoing plan r (with_required_outputs r ?out rs)"
    using s(4-7) ks(2) o(2) t model_choice_sound[OF ok t mc] set_out
    unfolding planned_ok_def planned_base_def with_required_outputs_def
    by (simp add: ordered_union_def) blast
  ultimately show ?thesis by blast
qed

subsection \<open>The validated plan\<close>

definition plain_aliases :: "semantic_catalog \<Rightarrow> bool" where
  "plain_aliases cat \<longleftrightarrow> (\<forall>source. \<forall>a \<in> set (owned cat source). \<not> blank a \<and> CHR ''.'' \<notin> set a)"

definition keeps_route :: "route_subquery \<Rightarrow> subquery \<Rightarrow> bool" where
  "keeps_route r x \<longleftrightarrow> with_required_outputs r (requiredOutputs x) (generatorRules x) = x"

lemma keeps_route_fields:
  assumes "keeps_route r x"
  shows "subquery_id x = subquery_id r" "tool x = tool r" "question x = question r" "dependsOn x = dependsOn r"
    "joinKeys x = joinKeys r" "inputBindings x = inputBindings r"
proof -
  from assms obtain outs rules where x: "x = with_required_outputs r outs rules" unfolding keeps_route_def by metis
  show "subquery_id x = subquery_id r" "tool x = tool r" "question x = question r" "dependsOn x = dependsOn r"
    "joinKeys x = joinKeys r" "inputBindings x = inputBindings r"
    unfolding x with_required_outputs_def by simp_all
qed

lemma keeps_routes:
  assumes "list_all2 keeps_route rs xs"
  shows "ids xs = ids rs" "map tool xs = map tool rs" "map joinKeys xs = map joinKeys rs"
    "deps_before_from D xs = deps_before_from D rs"
proof -
  show "ids xs = ids rs" "map tool xs = map tool rs" "map joinKeys xs = map joinKeys rs"
    using assms by (induction rule: list_all2_induct) (auto dest: keeps_route_fields)
  show "deps_before_from D xs = deps_before_from D rs"
    using assms by (induction arbitrary: D rule: list_all2_induct) (simp_all add: keeps_route_fields(1,4))
qed

lemma same_join_keys_iff: "same_join_keys xs \<longleftrightarrow> (\<forall>k \<in> set (map joinKeys xs). k = hd (map joinKeys xs))"
  by (cases xs) (auto simp: same_join_keys_def list_all_iff)

lemma planned_item_wf:
  assumes "plain_aliases cat" and "route_wf shared (Some cat) subs" and "catalog_ok cat" and "r \<in> set subs"
    and "planned_base cat outgoing r x"
  shows "item_wf False x"
proof -
  note f = keeps_route_fields[of r x]
  from assms(5) have k: "keeps_route r x" by (simp add: planned_base_def keeps_route_def)
  from assms(2,4) have rw: "route_item_wf r" by (simp add: route_wf_def list_all_iff)
  then have "\<exists>source. tool_of (tool r) = Inr source" by (auto simp: route_item_wf_def SUPPORTED_TOOLS_def tool_of_def)
  with assms(1,5) have out: "string_array_ok (requiredOutputs x)"
    unfolding planned_base_def plain_aliases_def string_array_ok_def list_all_iff by blast
  have dots: "count_list src CHR ''.'' = 1" if src: "src \<in> set (map snd (inputBindings r))" for src
  proof -
    from route_bindings_owned[OF assms(3,2,4) src] obtain d out p where
      s: "split_once CHR ''.'' src = Some (d, out)" and p: "p \<in> set subs" "\<forall>source. tool_of (tool p) = Inr source \<longrightarrow> out \<in> set (owned cat source)"
      by (auto simp: producer_owns_def)
    from assms(2) p(1) have "route_item_wf p" by (simp add: route_wf_def list_all_iff)
    then have "\<exists>source. tool_of (tool p) = Inr source" by (auto simp: route_item_wf_def SUPPORTED_TOOLS_def tool_of_def)
    with p(2) assms(1) have "CHR ''.'' \<notin> set out" by (auto simp: plain_aliases_def)
    with split_once_SomeD[OF s] show ?thesis by (simp add: count_list_0_iff)
  qed
  have "route_item_wf x" using rw by (simp add: route_item_wf_def f[OF k])
  with out dots assms(5) show ?thesis
    by (auto simp: item_wf_def f[OF k] planned_base_def list_all_iff)
qed

lemma planned_sources_wf:
  assumes "route_wf shared (Some cat) subs" and "catalog_ok cat"
    and all: "list_all2 (planned_base cat outgoing) subs xs"
    and out: "\<forall>x \<in> set subs. \<forall>src \<in> set (map snd (inputBindings x)). \<forall>d out. split_once CHR ''.'' src = Some (d, out) \<longrightarrow>
       out \<in> set (dict_get outgoing d [])"
    and x: "r \<in> set subs" "planned_base cat outgoing r x"
  shows "sources_wf xs x"
proof -
  from x(2) have k: "keeps_route r x" by (simp add: planned_base_def keeps_route_def)
  note f = keeps_route_fields[OF k]
  from assms(1) x(1) have rw: "subquery_id r \<notin> set (dependsOn r)"
    "list_all (route_binding_ok (Some cat) subs r) (map snd (inputBindings r))"
    "set (dependsOn r) = set (concat (map binding_source (map snd (inputBindings r))))"
    by (auto simp: route_wf_def list_all_iff)
  have "binding_ok xs x src" if src: "src \<in> set (map snd (inputBindings r))" for src
  proof -
    from route_bindings_owned[OF assms(2,1) x(1) src] obtain d o1 p where
      s: "split_once CHR ''.'' src = Some (d, o1)" and p: "p \<in> set subs" "subquery_id p = d"
      by (auto simp: producer_owns_def)
    from rw(2) src have "route_binding_ok (Some cat) subs r src" by (simp only: list_all_iff)
    with s have dep: "d \<in> set (dependsOn r)" by (simp add: route_binding_ok_def)
    from list_all2_memberD1[OF all p(1)] obtain y where y: "y \<in> set xs" "planned_base cat outgoing p y" by blast
    then have "keeps_route p y" by (simp add: planned_base_def keeps_route_def)
    from keeps_route_fields(1)[OF this] p(2) have "subquery_id y = d" by simp
    moreover from out x(1) src s have "o1 \<in> set (dict_get outgoing d [])" by blast
    with y(2) p(2) have "o1 \<in> set (requiredOutputs y)" unfolding planned_base_def by blast
    ultimately show ?thesis using s dep y(1) by (auto simp: binding_ok_def f list_ex_iff)
  qed
  with rw(1,3) show ?thesis by (simp only: sources_wf_def f list_all_iff) simp
qed

lemma planned_plan_wf:
  assumes "route_wf shared (Some cat) subs" and "catalog_ok cat" and "plain_aliases cat"
    and all: "list_all2 (planned_base cat outgoing) subs xs"
    and out: "\<forall>x \<in> set subs. \<forall>src \<in> set (map snd (inputBindings x)). \<forall>d out. split_once CHR ''.'' src = Some (d, out) \<longrightarrow>
       out \<in> set (dict_get outgoing d [])"
  shows "plan_wf False xs"
proof -
  have kr: "list_all2 keeps_route subs xs"
    using all by (rule list_all2_mono) (auto simp: planned_base_def keeps_route_def)
  note k = keeps_routes[OF kr]
  have len: "length xs = length subs" using all by (simp add: list_all2_lengthD)
  from assms(1) have r: "subs \<noteq> []" "length subs \<le> MAX_SUBQUERIES" "distinct (ids subs)" "distinct (map tool subs)"
    "deps_before subs" "same_join_keys subs" by (auto simp: route_wf_def)
  have items: "item_wf False x \<and> sources_wf xs x" if x: "x \<in> set xs" for x
  proof -
    from list_all2_memberD2[OF all x] obtain r where "r \<in> set subs" "planned_base cat outgoing r x" by blast
    with planned_item_wf[OF assms(3,1,2)] planned_sources_wf[OF assms(1,2) all out] show ?thesis by blast
  qed
  show ?thesis
    unfolding plan_wf_def same_join_keys_iff[of xs] k
    using r len items same_join_keys_iff[of subs] by (auto simp: list_all_iff)
qed

lemma plan_one_model_error:
  assumes "tool_of (tool r) = Inr source" and "\<nexists>d. ps_transform st = PDict d" and "model_choice env cat st subs r = Inl e"
  shows "plan_one env cat st subs outgoing r = Inl e"
proof -
  have "select_outputs env cat st subs r = Inl e"
    using assms unfolding select_outputs_def
    by (cases "ps_transform st") (simp_all add: model_choice_def contract_for_def of_catalog_def)
  then show ?thesis by (simp add: plan_one_def)
qed

text \<open>The result of planning over one catalog, case by case.\<close>

definition planning_outcome :: "planner_env \<Rightarrow> semantic_catalog \<Rightarrow> planning_state \<Rightarrow> route_subquery list
    \<Rightarrow> output_error + output_plan \<Rightarrow> bool" where
  "planning_outcome env cat st subs res = (case res of
     Inl e \<Rightarrow> \<exists>r \<in> set subs. model_choice env cat st subs r = Inl e
   | Inr p \<Rightarrow> pl_transform p = None \<and> plan_wf False (pl_subqueries p) \<and> pl_repairs p \<le> length subs \<and>
       (\<exists>outgoing. outgoing_binding_outputs subs = Inr outgoing \<and>
          list_all2 (\<lambda>r x. \<exists>plan n. model_choice env cat st subs r = Inr (plan, n) \<and> planned_ok cat st outgoing plan r x)
            subs (pl_subqueries p)))"

lemma route_tools:
  assumes "route_wf shared catalog subs" and "r \<in> set subs"
  shows "\<exists>source. tool_of (tool r) = Inr source"
proof -
  from assms have "route_item_wf r" by (simp add: route_wf_def list_all_iff)
  then show ?thesis by (auto simp: route_item_wf_def SUPPORTED_TOOLS_def tool_of_def)
qed

lemma route_join_keys:
  assumes "catalog_ok cat" and "route_wf (shared_join_aliases cat) (Some cat) subs" and "r \<in> set subs"
  shows "distinct (joinKeys r) \<and> set (joinKeys r) \<subseteq> set (owned cat source)"
proof -
  from assms(2,3) have "route_item_wf r" "set (joinKeys r) \<subseteq> set (shared_join_aliases cat)"
    by (auto simp: route_wf_def list_all_iff)
  moreover have "set (shared_join_aliases cat) \<subseteq> set (owned cat source)"
    using assms(1) identity_alias_owned[of cat source] by (cases source) (auto simp: catalog_ok_def)
  ultimately show ?thesis by (auto simp: route_item_wf_def string_array_ok_def)
qed

lemma repairs_bounded: "\<forall>y \<in> set ys. snd y \<le> (1 :: nat) \<Longrightarrow> sum_list (map snd ys) \<le> length ys"
  by (induction ys) auto

lemma plan_outputs_outcome:
  assumes ok: "catalog_ok cat" and plain: "plain_aliases cat" and rules: "rules_ok env cat"
    and route: "ps_route st = Some subs" "route_wf (shared_join_aliases cat) (Some cat) subs"
    and none: "ps_transform st = PNone"
  shows "planning_outcome env cat st subs (plan_outputs env cat st)"
proof -
  from outgoing_total[OF ok route(2)] obtain outgoing where og: "outgoing_binding_outputs subs = Inr outgoing"
    "outgoing_ok cat subs outgoing" and bound: "\<forall>x \<in> set subs. \<forall>src \<in> set (map snd (inputBindings x)). \<forall>d out.
      split_once CHR ''.'' src = Some (d, out) \<longrightarrow> out \<in> set (dict_get outgoing d [])" by blast
  have nt: "\<nexists>d. ps_transform st = PDict d" using none by simp
  show ?thesis
  proof (cases "rmap (plan_one env cat st subs outgoing) subs")
    case (Inl e)
    from rmap_Inl[OF this] obtain r where r: "r \<in> set subs" "plan_one env cat st subs outgoing r = Inl e" by blast
    from route_tools[OF route(2) r(1)] obtain source where t: "tool_of (tool r) = Inr source" by blast
    have "model_choice env cat st subs r = Inl e"
    proof (cases "model_choice env cat st subs r")
      case (Inl e')
      with plan_one_model_error[OF t nt] r(2) show ?thesis by simp
    next
      case (Inr c)
      with plan_one_total[OF ok rules r(1) t nt _ og(2)] route_join_keys[OF ok route(2) r(1)] r(2)
      show ?thesis by (cases c) fastforce
    qed
    with r(1) show ?thesis
      by (auto simp: planning_outcome_def plan_outputs_def route(1) og(1) Inl)
  next
    case (Inr planned)
    have all: "list_all2 (\<lambda>r y. \<exists>plan. model_choice env cat st subs r = Inr (plan, snd y) \<and>
        planned_ok cat st outgoing plan r (fst y) \<and> snd y \<le> 1) subs planned"
      using Inr[unfolded rmap_Inr_iff]
    proof (rule list.rel_mono_strong)
      fix r y
      assume r: "r \<in> set subs" and "y \<in> set planned" and y: "plan_one env cat st subs outgoing r = Inr y"
      from route_tools[OF route(2) r] obtain source where t: "tool_of (tool r) = Inr source" by blast
      show "\<exists>plan. model_choice env cat st subs r = Inr (plan, snd y) \<and> planned_ok cat st outgoing plan r (fst y) \<and> snd y \<le> 1"
      proof (cases "model_choice env cat st subs r")
        case (Inl e)
        with plan_one_model_error[OF t nt] y show ?thesis by simp
      next
        case (Inr c)
        obtain plan n where c: "c = (plan, n)" by (cases c)
        from plan_one_total[OF ok rules r t nt Inr[unfolded c] og(2)] route_join_keys[OF ok route(2) r] y
          model_choice_sound[OF ok t Inr[unfolded c]] Inr c
        show ?thesis by fastforce
      qed
    qed
    let ?xs = "map fst planned"
    have xs: "list_all2 (\<lambda>r x. \<exists>plan n. model_choice env cat st subs r = Inr (plan, n) \<and> planned_ok cat st outgoing plan r x) subs ?xs"
      unfolding list_all2_map2 by (rule list_all2_mono[OF all]) blast
    then have "list_all2 (planned_base cat outgoing) subs ?xs"
      by (rule list_all2_mono) (auto simp: planned_ok_def)
    from planned_plan_wf[OF route(2) ok plain this bound] have wf: "plan_wf False ?xs" .
    have len: "length planned = length subs" using all by (simp add: list_all2_lengthD)
    have "snd y \<le> 1" if "y \<in> set planned" for y using list_all2_memberD2[OF all that] by blast
    with repairs_bounded[of planned] len have "sum_list (map snd planned) \<le> length subs" by simp
    moreover have "plan_outputs env cat st = Inr \<lparr>pl_subqueries = ?xs, pl_transform = None,
        pl_repairs = sum_list (map snd planned)\<rparr>"
      using validate_subqueries_complete[OF wf]
      by (simp add: plan_outputs_def route(1) og(1) Inr of_plan_def none validate_result_transform_def
          validate_transform_shape_def)
    ultimately show ?thesis
      using xs wf og(1) by (auto simp: planning_outcome_def)
  qed
qed

subsection \<open>Planning a formal transform\<close>

lemma fromkeys_absorb: "distinct xs \<Longrightarrow> set ys \<subseteq> set xs \<Longrightarrow> fromkeys (xs @ ys) = xs"
proof -
  let ?f = "\<lambda>x acc. if x \<in> set acc then acc else acc @ [x]"
  have "set ys \<subseteq> set acc \<Longrightarrow> fold ?f ys acc = acc" for acc by (induction ys) auto
  then show "distinct xs \<Longrightarrow> set ys \<subseteq> set xs \<Longrightarrow> fromkeys (xs @ ys) = xs"
    using fromkeys_distinct[of xs] by (simp add: fromkeys_def)
qed

definition encode_transform :: "bom_shortage_transform option \<Rightarrow> pyval" where
  "encode_transform t = (case t of None \<Rightarrow> PNone
   | Some x \<Rightarrow> PDict [(''type'', PStr ''bom_shortage_v1''), (''productionQty'', productionQty x)])"

definition transform_plannable :: "semantic_catalog \<Rightarrow> bool" where
  "transform_plannable cat = (case map_of (transforms cat) ''bom_shortage_v1'' of
     None \<Rightarrow> False
   | Some spec \<Rightarrow> list_all (\<lambda>source. (case (map_of (ts_required_outputs spec) source, map_of (ts_generator_rules spec) source) of
         (Some outputs, Some rules) \<Rightarrow> ''componentId'' \<in> set outputs \<and> string_array_ok rules
       | _ \<Rightarrow> False)) [Sql, Graph])"

lemma encode_transform_valid:
  "positive_finite (productionQty t) \<Longrightarrow> validate_transform_shape (encode_transform (Some t)) = Inr (Some t)"
  by (cases t; auto simp: positive_finite_def encode_transform_def validate_transform_shape_def TRANSFORM_FIELDS_def
      dict_keys_def split: pyval.splits pyfloat.splits)

lemma plan_outputs_transform:
  assumes ok: "catalog_ok cat" and plain: "plain_aliases cat" and plannable: "transform_plannable cat"
    and route: "ps_route st = Some subs" "route_wf (shared_join_aliases cat) (Some cat) subs"
    and bom: "validate_bom_shortage_route subs = Inr ()"
    and t: "ps_transform st = encode_transform (Some t)" "positive_finite (productionQty t)"
  shows "\<exists>p. plan_outputs env cat st = Inr p \<and> pl_transform p = Some t \<and> pl_repairs p = 0 \<and> plan_wf False (pl_subqueries p)"
proof -
  from bom obtain graph sql where gs: "subs = [graph, sql]" "tool graph = ''graph''" "tool sql = ''sql''"
    "joinKeys graph = [''componentId'']" "joinKeys sql = [''componentId'']"
    "inputBindings sql = [(''componentIds'', subquery_id graph @ ''.componentId'')]"
    by (auto simp: validate_bom_shortage_route_def split: if_splits list.splits)
  from plannable obtain spec go so gr sr where sp: "map_of (transforms cat) ''bom_shortage_v1'' = Some spec"
    "map_of (ts_required_outputs spec) Graph = Some go" "map_of (ts_required_outputs spec) Sql = Some so"
    "map_of (ts_generator_rules spec) Graph = Some gr" "map_of (ts_generator_rules spec) Sql = Some sr"
    "''componentId'' \<in> set go" "''componentId'' \<in> set so" "string_array_ok gr" "string_array_ok sr"
    by (auto simp: transform_plannable_def split: option.splits)
  from ok sp(1) have tok: "transform_ok cat spec" by (auto simp: catalog_ok_def dest!: map_of_SomeD)
  then have own: "distinct go" "set go \<subseteq> set (owned cat Graph)" "distinct so" "set so \<subseteq> set (owned cat Sql)"
    using sp(2,3) by (auto simp: transform_ok_def) (metis option.inject subsetD)+
  have safe: "safe_identifier (subquery_id graph)" "subquery_id graph \<noteq> subquery_id sql"
    using route(2) by (auto simp: gs(1) route_wf_def route_item_wf_def)
  have nob: "inputBindings graph = []"
  proof (rule ccontr)
    assume "inputBindings graph \<noteq> []"
    then obtain b where b: "b \<in> set (map snd (inputBindings graph))" by (cases "inputBindings graph") auto
    with route(2) have "route_binding_ok (Some cat) subs graph b" "dependsOn graph = []"
      by (auto simp: gs(1) route_wf_def list_all_iff)
    then show False by (auto simp: route_binding_ok_def split: option.splits)
  qed
  let ?og = "[(subquery_id graph, [''componentId'']), (subquery_id sql, [])]"
  have og: "outgoing_binding_outputs subs = Inr ?og"
    using safe compiled_binding_round_trip[OF safe(1), of "''componentId''"]
    by (simp add: outgoing_binding_outputs_def gs nob add_outgoing_def)
  have tg: "tool_of (tool graph) = Inr Graph" "tool_of (tool sql) = Inr Sql" by (simp_all add: tool_of_def gs)
  have one: "plan_one env cat st subs ?og r = Inr (with_required_outputs r outs rules, 0)"
    if r: "tool_of (tool r) = Inr source" "joinKeys r = [''componentId'']" "set (dict_get ?og (subquery_id r) []) \<subseteq> {''componentId''}"
      "distinct (dict_get ?og (subquery_id r) [])"
      and o: "map_of (ts_required_outputs spec) source = Some outs" "map_of (ts_generator_rules spec) source = Some rules"
        "''componentId'' \<in> set outs" "distinct outs" "set outs \<subseteq> set (owned cat source)" for r source outs rules
  proof -
    have "select_outputs env cat st subs r = Inr (outs, rules, 0)"
      by (simp add: select_outputs_def t encode_transform_def transform_def sp(1) of_catalog_def r(1) o)
    moreover have "finalize_required_outputs outs (joinKeys r) (dict_get ?og (subquery_id r) []) cat (tool r) =
        Inr (ordered_union [outs, joinKeys r, dict_get ?og (subquery_id r) []])"
      using r o by (intro finalize_total[OF ok]) auto
    moreover have "ordered_union [outs, joinKeys r, dict_get ?og (subquery_id r) []] = outs"
      using fromkeys_absorb[OF o(4), of "joinKeys r @ dict_get ?og (subquery_id r) []"] r(2,3) o(3)
      by (auto simp: ordered_union_def)
    ultimately show ?thesis by (simp add: plan_one_def)
  qed
  let ?xs = "[with_required_outputs graph go gr, with_required_outputs sql so sr]"
  have planned: "rmap (plan_one env cat st subs ?og) subs = Inr (map (\<lambda>x. (x, 0)) ?xs)"
    using one[OF tg(1) gs(4) _ _ sp(2,4,6) own(1,2)] one[OF tg(2) gs(5) _ _ sp(3,5,7) own(3,4)] safe(2)
    by (simp add: gs(1) dict_get_def)
  have ne: "go \<noteq> []" "so \<noteq> []" using sp(6,7) by auto
  have base: "list_all2 (planned_base cat ?og) subs ?xs"
    using own sp(6-9) gs tg safe ne by (auto simp: planned_base_def with_required_outputs_def dict_get_def)
  have "\<forall>x \<in> set subs. \<forall>src \<in> set (map snd (inputBindings x)). \<forall>d out. split_once CHR ''.'' src = Some (d, out) \<longrightarrow>
      out \<in> set (dict_get ?og d [])"
    using compiled_binding_round_trip[OF safe(1), of "''componentId''"] by (auto simp: gs nob dict_get_def)
  from planned_plan_wf[OF route(2) ok plain base this] have wf: "plan_wf False ?xs" .
  have "validate_bom_shortage_route ?xs = Inr ()"
    using bom by (simp add: validate_bom_shortage_route_def gs(1) with_required_outputs_def split: if_splits)
  then have "validate_result_transform (ps_transform st) ?xs (Some cat) = Inr (Some t)"
    by (simp add: validate_result_transform_def t encode_transform_valid[OF t(2)] transform_def sp(1-3) gs(2,3)
        with_required_outputs_def)
  with validate_subqueries_complete[OF wf] show ?thesis
    using wf by (simp add: plan_outputs_def route(1) og planned of_plan_def o_def)
qed

subsection \<open>Planning over a provided catalog\<close>

context catalog_provider
begin

lemma planning_over_built_catalog:
  assumes "accepted i" and "build i = Inr cat" and "plain_aliases cat" and "rules_ok env cat"
    and "ps_route st = Some subs" and "route_wf (shared_join_aliases cat) (Some cat) subs"
    and "ps_transform st = PNone"
  shows "planning_outcome env cat st subs (plan_outputs env cat st)"
  using plan_outputs_outcome[OF built_ok[OF assms(1,2)]] assms(3-7) by blast

end

subsection \<open>Properties\<close>


definition example_reply :: pyval where
  "example_reply = PDict [(''requiredOutputs'', PList [PStr ''depth'']), (''displayEntities'', PList [PStr ''prod''])]"

text \<open>A model that first forgets the fields and then repairs its reply.\<close>

definition example_planner :: planner_env where
  "example_planner = \<lparr>pe_ask = (\<lambda>r context history. Inr (if history = [] then Some ''x'' else Some ''y'')),
     pe_json_loads = (\<lambda>content. if content = ''y'' then Some example_reply else Some (PDict [])),
     pe_path_rule = ''path'', pe_role_rule = (\<lambda>r p. r @ pred_field p)\<rparr>"

definition example_route_item :: route_subquery where
  "example_route_item = \<lparr>subquery_id = ''g'', tool = ''graph'', question = ''q'', dependsOn = [],
     joinKeys = [''cid''], inputBindings = []\<rparr>"

definition example_planning_state :: planning_state where
  "example_planning_state = \<lparr>ps_query = ''tree'', ps_entity = PNone, ps_route = Some [example_route_item],
     ps_raw_route = PNone, ps_transform = PNone\<rparr>"


end
