(* ===== verification/Route_Query.thy ===== *)
theory Route_Query
  imports Plan_Outputs
begin

text \<open>
  Routing (\<open>orchestrator/nodes/route_query.py\<close>, \<open>parse_route_draft\<close> of \<open>planning.py\<close>): a model drafts
  subqueries, the draft is parsed and validated, compared with the sources that the catalog infers
  from the question, and repaired at most once.

  Arguments of the model: \<open>re_ask\<close> is the chat model (the failed replies and their errors in, an
  exception or the content out), \<open>re_json_loads\<close> is \<open>json.loads\<close>, and \<open>re_quantity_conflict\<close> tells
  whether the question names, with a Korean counter, a production quantity other than the given one
  (\<open>explicit_production_quantity\<close>; the model's strings have no Hangul).
\<close>

record route_draft =
  rd_tool_plan :: "string list"
  rd_subqueries :: "route_subquery list"
  rd_transform :: "bom_shortage_transform option"

datatype route_error =
    EmptyRoute
  | BadRouteJson
  | InvalidRouteFields
  | QuantityMismatch
  | SourcesConflict "tool_name list"
  | InvalidRoute plan_error
  | RouteException string
  | RoutePlan route_error string

record route_env =
  re_ask :: "(string \<times> route_error) list \<Rightarrow> string + string option"
  re_json_loads :: "string \<Rightarrow> pyval option"
  re_quantity_conflict :: "string \<Rightarrow> pyval \<Rightarrow> bool"
  re_shared_aliases :: "string list"
  re_catalog :: "semantic_catalog option"

definition of_route :: "plan_error + 'a \<Rightarrow> route_error + 'a" where
  "of_route m = (case m of Inl e \<Rightarrow> Inl (InvalidRoute e) | Inr x \<Rightarrow> Inr x)"

lemma of_route_Inr [simp, result_simps]: "of_route m = Inr x \<longleftrightarrow> m = Inr x"
  by (cases m) (auto simp: of_route_def)

subsection \<open>Parsing a draft\<close>

definition parse_route_draft :: "route_env \<Rightarrow> string \<Rightarrow> string \<Rightarrow> route_error + route_draft" where
  "parse_route_draft env content query = (case re_json_loads env content of
     None \<Rightarrow> Inl BadRouteJson
   | Some (PDict raw) \<Rightarrow>
       if set (dict_keys raw) \<noteq> {''subqueries'', ''resultTransform''} then Inl InvalidRouteFields
       else rbind (of_route (validate_route_subqueries (dict_get raw ''subqueries'' PNone)
                     (re_shared_aliases env) (re_catalog env))) (\<lambda>subs.
            rbind (of_route (validate_transform_shape (dict_get raw ''resultTransform'' PNone))) (\<lambda>t.
            rbind (of_route (derive_tool_plan subs)) (\<lambda>tools.
            rbind (case t of
                     None \<Rightarrow> Inr ()
                   | Some x \<Rightarrow>
                       if re_quantity_conflict env query (productionQty x) then Inl QuantityMismatch
                       else of_route (validate_bom_shortage_route subs)) (\<lambda>_.
              Inr \<lparr>rd_tool_plan = tools, rd_subqueries = subs, rd_transform = t\<rparr>))))
   | Some _ \<Rightarrow> Inl InvalidRouteFields)"

subsection \<open>The node\<close>

text \<open>A route for one source runs the original question instead of the model's paraphrase.\<close>

definition restore_question :: "string \<Rightarrow> route_subquery list \<Rightarrow> route_subquery list" where
  "restore_question query subs = (case subs of [x] \<Rightarrow> [x\<lparr>question := query\<rparr>] | _ \<Rightarrow> subs)"

definition source_text :: "tool_name \<Rightarrow> string" where
  "source_text s = (case s of Sql \<Rightarrow> ''sql'' | Graph \<Rightarrow> ''graph'')"

definition read_route :: "route_env \<Rightarrow> string \<Rightarrow> tool_name list option \<Rightarrow> string option
    \<Rightarrow> route_error + route_draft \<times> pyval" where
  "read_route env query expected content = (case content of
     None \<Rightarrow> Inl EmptyRoute
   | Some reply \<Rightarrow> (case re_json_loads env reply of
         None \<Rightarrow> Inl BadRouteJson
       | Some raw \<Rightarrow>
           rbind (parse_route_draft env reply query) (\<lambda>plan.
             (case expected of
                Some sources \<Rightarrow>
                  if rd_transform plan = None \<and>
                     set (rd_tool_plan plan) \<noteq> source_text ` set sources
                  then Inl (SourcesConflict sources)
                  else Inr (plan\<lparr>rd_subqueries := restore_question query (rd_subqueries plan)\<rparr>, raw)
              | None \<Rightarrow> Inr (plan\<lparr>rd_subqueries := restore_question query (rd_subqueries plan)\<rparr>, raw)))))"

text \<open>\<open>except (JSONDecodeError, ValueError)\<close>.\<close>

definition repairable :: "route_error \<Rightarrow> bool" where
  "repairable e = (case e of InvalidRoute pe \<Rightarrow> is_value_error pe | _ \<Rightarrow> True)"

record route_result =
  rr_draft :: route_draft
  rr_raw :: pyval
  rr_repairs :: nat

fun route_loop :: "route_env \<Rightarrow> string \<Rightarrow> tool_name list option \<Rightarrow> nat list \<Rightarrow> (string \<times> route_error) list
    \<Rightarrow> route_error + route_result" where
  "route_loop env query expected [] history = Inl EmptyRoute"
| "route_loop env query expected (attempt # rest) history =
     (case re_ask env history of
        Inl e \<Rightarrow> Inl (RouteException e)
      | Inr content \<Rightarrow>
          (case read_route env query expected content of
             Inr (plan, raw) \<Rightarrow> Inr \<lparr>rr_draft = plan, rr_raw = raw, rr_repairs = attempt\<rparr>
           | Inl e \<Rightarrow>
               let last_content = (case content of None \<Rightarrow> [] | Some reply \<Rightarrow> reply) in
               if \<not> repairable e then Inl e
               else if rest = [] then Inl (RoutePlan e last_content)
               else route_loop env query expected rest (history @ [(last_content, e)])))"

definition expected_sources :: "route_env \<Rightarrow> string \<Rightarrow> pyval \<Rightarrow> tool_name list option" where
  "expected_sources env query entity =
     (case re_catalog env of None \<Rightarrow> None | Some cat \<Rightarrow> infer_required_sources cat query entity)"

definition route_query :: "route_env \<Rightarrow> string \<Rightarrow> pyval \<Rightarrow> route_error + route_result" where
  "route_query env query entity = route_loop env query (expected_sources env query entity) [0, 1] []"

text \<open>The label of the routing metric.\<close>

definition route_label :: "string list \<Rightarrow> string" where
  "route_label tools = (case remdups tools of
     [] \<Rightarrow> ''UNKNOWN''
   | [t] \<Rightarrow> if t = ''sql'' then ''SQL'' else if t = ''graph'' then ''GRAPH'' else ''UNKNOWN''
   | _ \<Rightarrow> ''HYBRID'')"

subsection \<open>What a returned route guarantees\<close>

definition route_ok :: "route_env \<Rightarrow> string \<Rightarrow> tool_name list option \<Rightarrow> route_draft \<Rightarrow> bool" where
  "route_ok env query expected d \<longleftrightarrow>
     (\<not> blank query \<longrightarrow> route_wf (re_shared_aliases env) (re_catalog env) (rd_subqueries d)) \<and>
     rd_tool_plan d = map tool (rd_subqueries d) \<and> rd_tool_plan d \<noteq> [] \<and> distinct (rd_tool_plan d) \<and>
     (length (rd_subqueries d) = 1 \<longrightarrow> question (hd (rd_subqueries d)) = query) \<and>
     (case rd_transform d of
        None \<Rightarrow> \<forall>sources. expected = Some sources \<longrightarrow> set (rd_tool_plan d) = source_text ` set sources
      | Some t \<Rightarrow> positive_finite (productionQty t) \<and> \<not> re_quantity_conflict env query (productionQty t) \<and>
          validate_bom_shortage_route (rd_subqueries d) = Inr ())"

lemma restore_question_simps:
  "map tool (restore_question q subs) = map tool subs" "length (restore_question q subs) = length subs"
  by (auto simp: restore_question_def split: list.splits)

lemma restore_question_wf:
  assumes "route_wf shared catalog subs" and "\<not> blank q"
  shows "route_wf shared catalog (restore_question q subs)"
proof (cases "\<exists>x. subs = [x]")
  case True
  then obtain x where x: "subs = [x]" by blast
  have nodep: "dependsOn x = []" using assms(1) x by (auto simp: route_wf_def)
  then have nosrc: "binding_source src = []" if "src \<in> set (map snd (inputBindings x))" for src
    using assms(1) x that by (auto simp: route_wf_def)
  have "inputBindings x = []"
  proof (rule ccontr)
    assume "inputBindings x \<noteq> []"
    then obtain src where src: "src \<in> set (map snd (inputBindings x))" by (cases "inputBindings x") auto
    with assms(1) x have "route_binding_ok catalog subs x src" by (auto simp: route_wf_def list_all_iff)
    with nodep show False by (auto simp: route_binding_ok_def split: option.splits)
  qed
  with assms nodep show ?thesis
    by (simp add: x restore_question_def route_wf_def route_item_wf_def same_join_keys_def)
next
  case False
  then have "restore_question q subs = subs" by (auto simp: restore_question_def split: list.splits)
  with assms(1) show ?thesis by simp
qed

lemma validated_route_tool_plan:
  assumes "route_wf shared catalog subs" and "derive_tool_plan subs = Inr tools"
  shows "tools = map tool subs"
proof -
  have "topological_order subs = Inr subs"
    using assms(1) by (intro topological_order_sorted) (auto simp: route_wf_def MAX_SUBQUERIES_def)
  with assms(2) show ?thesis by (simp add: derive_tool_plan_def)
qed

lemma parse_route_draft_ok:
  assumes "parse_route_draft env content query = Inr plan"
  shows "route_wf (re_shared_aliases env) (re_catalog env) (rd_subqueries plan) \<and>
    rd_tool_plan plan = map tool (rd_subqueries plan) \<and>
    (\<forall>t. rd_transform plan = Some t \<longrightarrow> positive_finite (productionQty t) \<and>
       \<not> re_quantity_conflict env query (productionQty t) \<and> validate_bom_shortage_route (rd_subqueries plan) = Inr ())"
proof -
  from assms obtain raw subs t tools where
    v: "validate_route_subqueries (dict_get raw ''subqueries'' PNone) (re_shared_aliases env) (re_catalog env) = Inr subs"
    and ts: "validate_transform_shape (dict_get raw ''resultTransform'' PNone) = Inr t"
    and dt: "derive_tool_plan subs = Inr tools"
    and c: "(case t of None \<Rightarrow> Inr () | Some x \<Rightarrow>
       if re_quantity_conflict env query (productionQty x) then Inl QuantityMismatch
       else of_route (validate_bom_shortage_route subs)) = Inr ()"
    and p: "plan = \<lparr>rd_tool_plan = tools, rd_subqueries = subs, rd_transform = t\<rparr>"
    by (auto simp: parse_route_draft_def result_simps split: option.splits pyval.splits if_splits)
  note wf = validate_route_subqueries_sound[OF v]
  from wf validated_route_tool_plan[OF wf dt] validate_transform_shape_positive c ts p show ?thesis
    by (auto split: if_splits)
qed

lemma read_route_ok:
  assumes "read_route env query expected content = Inr (plan, raw)"
  shows "route_ok env query expected plan"
proof -
  from assms obtain reply d where d: "parse_route_draft env reply query = Inr d"
    and plan: "plan = d\<lparr>rd_subqueries := restore_question query (rd_subqueries d)\<rparr>"
    and ex: "rd_transform d = None \<longrightarrow> (\<forall>sources. expected = Some sources \<longrightarrow> set (rd_tool_plan d) = source_text ` set sources)"
    by (cases content; cases expected) (auto simp: read_route_def result_simps split: option.split_asm if_split_asm)
  from parse_route_draft_ok[OF d] have wf: "route_wf (re_shared_aliases env) (re_catalog env) (rd_subqueries d)"
    and tp: "rd_tool_plan d = map tool (rd_subqueries d)"
    and tr: "\<And>t. rd_transform d = Some t \<Longrightarrow> positive_finite (productionQty t) \<and>
       \<not> re_quantity_conflict env query (productionQty t) \<and> validate_bom_shortage_route (rd_subqueries d) = Inr ()" by auto
  have two: "restore_question query (rd_subqueries d) = rd_subqueries d"
    if "validate_bom_shortage_route (rd_subqueries d) = Inr ()"
    using that by (auto simp: validate_bom_shortage_route_def restore_question_def split: if_splits list.splits)
  have "question (hd (restore_question query (rd_subqueries d))) = query" if "length (rd_subqueries d) = 1"
    using that by (cases "rd_subqueries d") (auto simp: restore_question_def)
  with wf tp tr two ex restore_question_wf[OF wf] show ?thesis
    by (auto simp: route_ok_def plan restore_question_simps route_wf_def split: option.splits)
qed

lemma route_loop_ok:
  assumes "route_loop env query expected attempts history = Inr r"
  shows "route_ok env query expected (rr_draft r) \<and> rr_repairs r \<in> set attempts"
  using assms
  by (induction env query expected attempts history rule: route_loop.induct)
    (auto simp: Let_def dest: read_route_ok split: sum.splits if_splits)

definition planning_state_of :: "string \<Rightarrow> pyval \<Rightarrow> route_result \<Rightarrow> planning_state" where
  "planning_state_of query entity r = \<lparr>ps_query = query, ps_entity = entity,
     ps_route = Some (rd_subqueries (rr_draft r)), ps_raw_route = rr_raw r,
     ps_transform = encode_transform (rd_transform (rr_draft r))\<rparr>"

lemma route_query_ok:
  assumes "route_query env query entity = Inr r"
  shows "route_ok env query (expected_sources env query entity) (rr_draft r) \<and> rr_repairs r \<le> 1"
  using route_loop_ok[OF assms[unfolded route_query_def]] by auto

context catalog_provider
begin

lemma routed_questions_plan:
  assumes "accepted i" and "build i = Inr cat" and "plain_aliases cat" and "rules_ok penv cat"
    and "re_catalog env = Some cat" and "re_shared_aliases env = shared_join_aliases cat"
    and q: "\<not> blank query" and r: "route_query env query entity = Inr r"
    and tp: "rd_transform (rr_draft r) = None \<or> transform_plannable cat"
  shows "case plan_outputs penv cat (planning_state_of query entity r) of
     Inl e \<Rightarrow> rd_transform (rr_draft r) = None \<and> (\<exists>x \<in> set (rd_subqueries (rr_draft r)).
         model_choice penv cat (planning_state_of query entity r) (rd_subqueries (rr_draft r)) x = Inl e)
   | Inr p \<Rightarrow> plan_wf False (pl_subqueries p) \<and> pl_transform p = rd_transform (rr_draft r)"
proof -
  note ok = built_ok[OF assms(1,2)]
  let ?st = "planning_state_of query entity r"
  from route_query_ok[OF r] q assms(5,6) have ro: "route_ok env query (expected_sources env query entity) (rr_draft r)"
    and wf: "route_wf (shared_join_aliases cat) (Some cat) (rd_subqueries (rr_draft r))"
    by (auto simp: route_ok_def)
  have st: "ps_route ?st = Some (rd_subqueries (rr_draft r))" "ps_transform ?st = encode_transform (rd_transform (rr_draft r))"
    by (simp_all add: planning_state_of_def)
  show ?thesis
  proof (cases "rd_transform (rr_draft r)")
    case None
    then have "ps_transform ?st = PNone" by (simp add: st encode_transform_def)
    from planning_over_built_catalog[OF assms(1-4) st(1) wf this] None show ?thesis
      by (auto simp: planning_outcome_def split: sum.splits)
  next
    case (Some t)
    with ro have "positive_finite (productionQty t)" "validate_bom_shortage_route (rd_subqueries (rr_draft r)) = Inr ()"
      by (auto simp: route_ok_def)
    moreover from Some tp have "transform_plannable cat" by simp
    ultimately show ?thesis
      using plan_outputs_transform[OF ok assms(3) _ st(1) wf, of t penv] Some st(2) by auto
  qed
qed

end

subsection \<open>Properties\<close>

text \<open>C22: Every route that \<open>route_query\<close> returns, after at most one repair, is a validated route whose
  \<open>tool_plan\<close> is the order of its subqueries; a route for one source runs the original question; without a
  formal transform it uses exactly the sources that the catalog infers from the question, and with one it has
  a positive quantity that does not contradict the question and the Graph to SQL contract.\<close>

theorem route_query_returns_validated_routes:
  assumes "route_query env query entity = Inr r"
  shows "rr_repairs r \<le> 1 \<and> route_ok env query (expected_sources env query entity) (rr_draft r)"
  using route_query_ok[OF assms] by blast

definition example_route_json :: pyval where
  "example_route_json = PDict [(''subqueries'', PList [PDict [(''id'', PStr ''g''), (''tool'', PStr ''graph''),
     (''question'', PStr ''p''), (''dependsOn'', PList []), (''joinKeys'', PList []), (''inputBindings'', PList [])]]),
     (''resultTransform'', PNone)]"

text \<open>A router whose first reply is no JSON.\<close>

definition example_router :: route_env where
  "example_router = \<lparr>re_ask = (\<lambda>history. Inr (if history = [] then Some ''x'' else Some ''y'')),
     re_json_loads = (\<lambda>content. if content = ''y'' then Some example_route_json else None),
     re_quantity_conflict = (\<lambda>_ _. False), re_shared_aliases = [''cid'', ''pid''],
     re_catalog = Some example_built_catalog\<rparr>"

definition example_route_result :: route_result where
  "example_route_result = \<lparr>rr_draft = \<lparr>rd_tool_plan = [''graph''],
       rd_subqueries = [\<lparr>subquery_id = ''g'', tool = ''graph'', question = ''tree'', dependsOn = [],
          joinKeys = [], inputBindings = []\<rparr>], rd_transform = None\<rparr>,
     rr_raw = example_route_json, rr_repairs = 1\<rparr>"

lemma example_routing: "route_query example_router ''tree'' PNone = Inr example_route_result"
  by code_simp

theorem route_query_returns_validated_routes_witness:
  "expected_sources example_router ''tree'' PNone = Some [Graph] \<and>
   route_ok example_router ''tree'' (Some [Graph]) (rr_draft example_route_result)"
proof -
  have e: "expected_sources example_router ''tree'' PNone = Some [Graph]" by code_simp
  from route_query_returns_validated_routes[OF example_routing] e show ?thesis by simp
qed

text \<open>From question to execution plan: over a built catalog, planning a routed question raises only what the
  output model raises, and never for a formal transform; the plan it returns is well formed and keeps the
  route's transform.\<close>

theorem routed_questions_always_plan:
  assumes "validate_ontology o1 = Inr ()" and "build_query_semantic_catalog bom_rules s g o1 = Inr cat"
    and "plain_aliases cat" and "rules_ok penv cat"
    and "re_catalog env = Some cat" and "re_shared_aliases env = shared_join_aliases cat"
    and "\<not> blank query" and "route_query env query entity = Inr r"
    and "rd_transform (rr_draft r) = None \<or> transform_plannable cat"
  shows "case plan_outputs penv cat (planning_state_of query entity r) of
     Inl e \<Rightarrow> rd_transform (rr_draft r) = None \<and> (\<exists>x \<in> set (rd_subqueries (rr_draft r)).
         model_choice penv cat (planning_state_of query entity r) (rd_subqueries (rr_draft r)) x = Inl e)
   | Inr p \<Rightarrow> plan_wf False (pl_subqueries p) \<and> pl_transform p = rd_transform (rr_draft r)"
  by (rule built.routed_questions_plan[of "(bom_rules, s, g, o1)"])
    (use assms in \<open>simp_all add: catalog_input_ok_def build_catalog_def\<close>)

theorem routed_questions_always_plan_witness:
  "\<exists>p. plan_outputs example_planner example_built_catalog (planning_state_of ''tree'' PNone example_route_result) = Inr p \<and>
     plan_wf False (pl_subqueries p) \<and> pl_transform p = None"
proof -
  let ?res = "plan_outputs example_planner example_built_catalog (planning_state_of ''tree'' PNone example_route_result)"
  have all: "(\<forall>source. P source) \<longleftrightarrow> P Sql \<and> P Graph" for P by (metis tool_name.exhaust)
  have plain: "plain_aliases example_built_catalog" unfolding plain_aliases_def all by code_simp
  have rules: "rules_ok example_planner example_built_catalog" unfolding rules_ok_def all by code_simp
  have c: "re_catalog example_router = Some example_built_catalog"
    "re_shared_aliases example_router = shared_join_aliases example_built_catalog"
    by (simp_all add: example_router_def example_built_catalog_def)
  have nb: "\<not> blank ''tree''" by code_simp
  have none: "rd_transform (rr_draft example_route_result) = None" by (simp add: example_route_result_def)
  have "\<not> isl ?res" by code_simp
  with routed_questions_always_plan[OF example_build plain rules c nb example_routing disjI1[OF none]] none show ?thesis
    by (auto split: sum.splits)
qed

end
