(* ===== verification/Bindings.thy ===== *)
theory Bindings
  imports Py_Prelude
begin

text \<open>
  Input bindings (\<open>orchestrator/bindings.py\<close>): the columns of the upstream rows that a dependent
  query receives, in row order and with repetitions.
\<close>

datatype binding_error =
    SourceNotSplit string
  | DependencyMissing string
  | DependencyNotList string
  | BoundRowNotObject string nat
  | BoundFieldMissing string nat string

fun project_rows :: "string \<Rightarrow> string \<Rightarrow> nat \<Rightarrow> pyval list \<Rightarrow> binding_error + pyval list" where
  "project_rows dep field i [] = Inr []"
| "project_rows dep field i (v # vs) = (case v of
     PDict d \<Rightarrow> (case map_of d field of
         None \<Rightarrow> Inl (BoundFieldMissing dep i field)
       | Some x \<Rightarrow> rbind (project_rows dep field (Suc i) vs) (\<lambda>xs. Inr (x # xs)))
   | _ \<Rightarrow> Inl (BoundRowNotObject dep i))"

definition collect_binding :: "(string, pyval) dict \<Rightarrow> string \<times> string \<Rightarrow> (string, pyval list) dict
    \<Rightarrow> binding_error + (string, pyval list) dict" where
  "collect_binding upstream = (\<lambda>(input_name, source) acc.
     (case split_once CHR ''.'' source of
        None \<Rightarrow> Inl (SourceNotSplit source)
      | Some (dep, field) \<Rightarrow> (case map_of upstream dep of
            None \<Rightarrow> Inl (DependencyMissing dep)
          | Some (PList rows) \<Rightarrow>
              rbind (project_rows dep field 0 rows) (\<lambda>projected.
                Inr (AList.update input_name projected acc))
          | Some _ \<Rightarrow> Inl (DependencyNotList dep))))"

definition collect_input_bindings :: "(string, string) dict \<Rightarrow> (string, pyval) dict
    \<Rightarrow> binding_error + (string, pyval list) dict" where
  "collect_input_bindings bindings upstream = rfold (collect_binding upstream) bindings []"

definition field_of :: "string \<Rightarrow> pyval \<Rightarrow> pyval" where
  "field_of field v = (case v of PDict d \<Rightarrow> the (map_of d field) | _ \<Rightarrow> PNone)"

definition row_has :: "string \<Rightarrow> pyval \<Rightarrow> bool" where
  "row_has field v \<longleftrightarrow> (\<exists>d. v = PDict d \<and> map_of d field \<noteq> None)"

lemma project_rows_Inr_iff:
  "project_rows dep field i vs = Inr xs \<longleftrightarrow> (\<forall>v \<in> set vs. row_has field v) \<and> xs = map (field_of field) vs"
proof (induction vs arbitrary: i xs)
  case Nil
  then show ?case by auto
next
  case (Cons v vs)
  then show ?case
    by (cases v) (auto simp: row_has_def field_of_def rbind_Inr_iff split: option.splits)
qed

text \<open>A binding that can be projected: its dependency answered a list whose rows all have the field.\<close>

definition bindable :: "(string, pyval) dict \<Rightarrow> string \<Rightarrow> bool" where
  "bindable upstream source \<longleftrightarrow> (\<exists>dep field rows. split_once CHR ''.'' source = Some (dep, field) \<and>
     map_of upstream dep = Some (PList rows) \<and> (\<forall>v \<in> set rows. row_has field v))"

definition bound_values :: "(string, pyval) dict \<Rightarrow> string \<Rightarrow> pyval list" where
  "bound_values upstream source = (case split_once CHR ''.'' source of
     Some (dep, field) \<Rightarrow> (case map_of upstream dep of
         Some (PList rows) \<Rightarrow> map (field_of field) rows | _ \<Rightarrow> [])
   | None \<Rightarrow> [])"

lemma collect_binding_Inr_iff:
  "collect_binding upstream (k, src) acc = Inr acc' \<longleftrightarrow>
     bindable upstream src \<and> acc' = AList.update k (bound_values upstream src) acc"
  by (auto simp: collect_binding_def bindable_def bound_values_def rbind_Inr_iff project_rows_Inr_iff
      split: option.splits pyval.splits)

lemma collect_fold_Inr_iff:
  "distinct (map fst acc @ map fst bindings) \<Longrightarrow>
     rfold (collect_binding upstream) bindings acc = Inr res \<longleftrightarrow>
       (\<forall>src \<in> snd ` set bindings. bindable upstream src) \<and>
       res = acc @ map (\<lambda>(k, src). (k, bound_values upstream src)) bindings"
proof (induction bindings arbitrary: acc)
  case Nil
  then show ?case by auto
next
  case (Cons b bindings)
  obtain k src where b: "b = (k, src)" by (cases b)
  let ?acc = "acc @ [(k, bound_values upstream src)]"
  have up: "AList.update k (bound_values upstream src) acc = ?acc"
    using Cons.prems by (intro update_new_key) (auto simp: b)
  have "rfold (collect_binding upstream) (b # bindings) acc = Inr res \<longleftrightarrow>
      bindable upstream src \<and> rfold (collect_binding upstream) bindings ?acc = Inr res"
    by (auto simp: b rbind_Inr_iff collect_binding_Inr_iff up)
  also have "\<dots> \<longleftrightarrow> bindable upstream src \<and> (\<forall>s \<in> snd ` set bindings. bindable upstream s) \<and>
      res = ?acc @ map (\<lambda>(k, src). (k, bound_values upstream src)) bindings"
    using Cons.prems by (subst Cons.IH) (auto simp: b)
  finally show ?case by (auto simp: b)
qed

lemma collect_input_bindings_Inr_iff:
  "dict_ok bindings \<Longrightarrow> collect_input_bindings bindings upstream = Inr res \<longleftrightarrow>
     (\<forall>src \<in> snd ` set bindings. bindable upstream src) \<and>
     res = map (\<lambda>(k, src). (k, bound_values upstream src)) bindings"
  using collect_fold_Inr_iff[of "[]" bindings upstream res] by (simp add: collect_input_bindings_def dict_ok_def)

end
