(* ===== verification/Retry_Agent.thy ===== *)
theory Retry_Agent
  imports Query_Failures Semantic_Catalog
begin

text \<open>
  The generate / check / execute / retry cycle that both query agents share
  (\<open>orchestrator/subgraphs/retry_agent.py\<close>), with the two configurations of \<open>sql_agent.py\<close> and
  \<open>cypher_agent.py\<close>.  The injected functions (the model call, the guard, the contract checks, the
  database) are fields of a configuration.  The generator sees the whole state and the executor the
  number of the attempt, so that two calls with the same query may answer differently.  \<open>Inl\<close> is an
  exception that leaves the compiled graph.  Logging, metrics, events and the two redacted query
  copies made for them are not part of the state.
\<close>

definition MAX_ATTEMPTS :: nat where
  "MAX_ATTEMPTS = 3"

definition NON_RETRYABLE_GUARD_REASONS :: "string list" where
  "NON_RETRYABLE_GUARD_REASONS = [''UNKNOWN_TABLE'', ''UNKNOWN_LABEL_OR_RELATIONSHIP'']"

text \<open>The violations of a result invariant, each with the index of its row.\<close>

datatype invariant_violation =
    DepthNotInteger nat
  | DepthBelowMinimum nat int
  | PathIdsLength nat
  | PathNamesLength nat
  | QuantitiesLength nat

text \<open>The texts kept in \<open>error\<close> and \<open>retry_feedback\<close>, one constructor per site.\<close>

datatype retry_text =
    EMPTY_RESULT
  | ValidationError
  | GuardBlocked "string option"
  | ContractText string
  | ExecutionError
  | ConnectionError
  | InternalError
  | MissingAliases nat "string list"
  | InvariantText invariant_violation
  | ExceptionText string

record attempt =
  at_query :: string
  at_error :: "retry_text option"

record diagnostic =
  dg_stage :: string
  dg_reason_code :: string
  dg_error_type :: "string option"
  dg_sqlstate :: "string option"
  dg_recovered :: bool
  dg_attempt :: nat
  dg_retry_scheduled :: bool

datatype retry_empty_reason = NoData | Inconclusive

text \<open>\<open>retry_feedback\<close> is absent until the first tool run; the other optional keys have defaults.\<close>

record retry_state =
  ra_query :: string
  ra_source_scope :: "string option"
  ra_entity :: pyval
  ra_schema :: string
  ra_messages :: "string list"
  ra_result :: pyval
  ra_error :: "retry_text option"
  ra_attempt_count :: nat
  ra_attempts :: "attempt list"
  ra_empty_retried :: bool
  ra_retryable :: bool
  ra_empty_reason :: "retry_empty_reason option"
  ra_truncated :: bool
  ra_required_outputs :: "string list"
  ra_input_bindings :: "(string, pyval list) dict"
  ra_business_rules :: "string list"
  ra_failure :: "query_failure option"
  ra_diagnostics :: "diagnostic list"
  ra_retry_feedback :: "retry_text option option"

datatype feedback = EmptyResultFeedback | ErrorFeedback retry_text

datatype retry_escape = QueryInfrastructureError | ResultNotIterable

record retry_config =
  rc_tool :: string
  rc_generate :: "retry_state \<Rightarrow> string option \<Rightarrow> feedback option \<Rightarrow> py_exception + string"
  rc_execute :: "nat \<Rightarrow> string \<Rightarrow> py_exception + pyval"
  rc_connection_exceptions :: "string list"
  rc_retryable_exceptions :: "string list"
  rc_guard :: "(string \<Rightarrow> py_exception + guard_result) option"
  rc_query_contract_error :: "(string \<Rightarrow> string list \<Rightarrow> string option) option"
  rc_result_contract_error :: "(pyval list \<Rightarrow> retry_state \<Rightarrow> py_exception + invariant_violation option) option"

definition classify_empty_result :: "attempt list \<Rightarrow> retry_empty_reason" where
  "classify_empty_result prior =
     (if list_ex (\<lambda>a. at_error a \<noteq> None \<and> at_error a \<noteq> Some EMPTY_RESULT) prior
      then Inconclusive else NoData)"

definition feedback_text :: "retry_text option \<Rightarrow> feedback option" where
  "feedback_text err = (case err of
     None \<Rightarrow> None
   | Some EMPTY_RESULT \<Rightarrow> Some EmptyResultFeedback
   | Some t \<Rightarrow> Some (ErrorFeedback t))"

text \<open>The \<open>agent\<close> node: a failed model call always leaves as an infrastructure error.\<close>

definition agent :: "retry_config \<Rightarrow> retry_state \<Rightarrow> retry_escape + retry_state" where
  "agent cfg st =
     (let previous = (if ra_messages st = [] then None else Some (last (ra_messages st)));
          fb = (case ra_retry_feedback st of Some f \<Rightarrow> f | None \<Rightarrow> ra_error st)
      in (case rc_generate cfg st previous (feedback_text fb) of
            Inl _ \<Rightarrow> Inl QueryInfrastructureError
          | Inr query_text \<Rightarrow>
              Inr (st\<lparr>ra_messages := ra_messages st @ [query_text],
                      ra_attempt_count := ra_attempt_count st + 1\<rparr>)))"

subsection \<open>The tools node\<close>

text \<open>\<open>failure\<close>: the update of every refused or failed attempt.\<close>

definition failure :: "retry_state \<Rightarrow> retry_text \<Rightarrow> bool \<Rightarrow> query_failure \<Rightarrow> string \<Rightarrow> string
    \<Rightarrow> py_exception option \<Rightarrow> retry_text option \<Rightarrow> retry_state" where
  "failure st message retryable safe_failure stage reason_code err fb =
     st\<lparr>ra_error := Some message,
        ra_retry_feedback := Some (Some (case fb of Some f \<Rightarrow> f | None \<Rightarrow> message)),
        ra_result := PNone,
        ra_attempts := ra_attempts st @ [\<lparr>at_query = last (ra_messages st), at_error = Some message\<rparr>],
        ra_diagnostics := ra_diagnostics st @
          [\<lparr>dg_stage = stage, dg_reason_code = reason_code,
            dg_error_type = map_option exc_type err,
            dg_sqlstate = Option.bind err exc_sqlstate, dg_recovered = False,
            dg_attempt = ra_attempt_count st,
            dg_retry_scheduled = (retryable \<and> ra_attempt_count st < MAX_ATTEMPTS)\<rparr>],
        ra_retryable := retryable,
        ra_failure := Some safe_failure\<rparr>"

definition internal_validation_failure :: "retry_config \<Rightarrow> retry_state \<Rightarrow> py_exception \<Rightarrow> retry_state" where
  "internal_validation_failure cfg st e =
     failure st ValidationError False
       (make_query_failure ''QUERY_VALIDATION_INTERNAL_ERROR'' ''validation'' ''INTERNAL_QUERY_FAILURE''
          Internal False (Some (rc_tool cfg)) False)
       ''validation'' ''QUERY_VALIDATION_INTERNAL_ERROR'' (Some e) None"

definition check_guard :: "retry_config \<Rightarrow> retry_state \<Rightarrow> retry_state option" where
  "check_guard cfg st = (case rc_guard cfg of
     None \<Rightarrow> None
   | Some guard \<Rightarrow> (case guard (last (ra_messages st)) of
         Inl e \<Rightarrow> Some (internal_validation_failure cfg st e)
       | Inr g \<Rightarrow>
           if gr_allowed g then None
           else Some (failure st (GuardBlocked (gr_reason_code g))
             (case gr_reason_code g of None \<Rightarrow> True | Some c \<Rightarrow> c \<notin> set NON_RETRYABLE_GUARD_REASONS)
             (make_query_failure ''QUERY_POLICY_BLOCKED'' ''validation'' ''POLICY_BLOCKED''
                UserCorrectable False (Some (rc_tool cfg)) False)
             ''validation''
             (case gr_reason_code g of
                Some (c # cs) \<Rightarrow> c # cs | _ \<Rightarrow> ''QUERY_POLICY_BLOCKED'') None None)))"

definition contract_failure :: "retry_config \<Rightarrow> retry_state \<Rightarrow> retry_text \<Rightarrow> string \<Rightarrow> string \<Rightarrow> retry_state" where
  "contract_failure cfg st message stage reason_code =
     failure st message True
       (make_query_failure ''QUERY_CONTRACT_FAILED'' ''validation'' ''QUERY_INVALID'' UserCorrectable
          True (Some (rc_tool cfg)) False)
       stage reason_code None None"

definition check_contract :: "retry_config \<Rightarrow> retry_state \<Rightarrow> retry_state option" where
  "check_contract cfg st = (case rc_query_contract_error cfg of
     None \<Rightarrow> None
   | Some contract \<Rightarrow> (case contract (last (ra_messages st)) (ra_required_outputs st) of
         None \<Rightarrow> None
       | Some text \<Rightarrow>
           Some (contract_failure cfg st (ContractText text) ''validation'' ''QUERY_CONTRACT_FAILED'')))"

definition lower :: "string \<Rightarrow> string" where
  "lower = map (\<lambda>c. if is_ascii_upper c then char_of (code c + 32) else c)"

definition is_timeout :: "py_exception \<Rightarrow> bool" where
  "is_timeout e \<longleftrightarrow> substring ''timeout'' (lower (exc_type e)) \<or> substring ''canceled'' (lower (exc_type e))"

definition execution_failure :: "retry_config \<Rightarrow> retry_state \<Rightarrow> py_exception \<Rightarrow> retry_state" where
  "execution_failure cfg st e =
     (if exc_instance e (rc_retryable_exceptions cfg)
      then let c = (if is_timeout e then ''QUERY_TIMEOUT'' else ''QUERY_EXECUTION_FAILED'') in
        failure st ExecutionError True
          (make_query_failure c ''execution'' (if is_timeout e then ''TIMEOUT'' else ''QUERY_INVALID'')
             UserCorrectable True (Some (rc_tool cfg)) False)
          ''execution'' c (Some e) (Some (ExceptionText (exc_text e)))
      else if exc_instance e (rc_connection_exceptions cfg)
      then failure st ConnectionError False
          (make_query_failure ''INFRASTRUCTURE_UNAVAILABLE'' ''execution'' ''CONNECTION_ERROR''
             Infrastructure True (Some (rc_tool cfg)) False)
          ''execution'' ''INFRASTRUCTURE_UNAVAILABLE'' (Some e) None
      else failure st InternalError False
          (make_query_failure ''INTERNAL_QUERY_FAILURE'' ''execution'' ''INTERNAL_QUERY_FAILURE''
             Internal False (Some (rc_tool cfg)) False)
          ''execution'' ''INTERNAL_QUERY_FAILURE'' (Some e) None)"

text \<open>The batch of a production executor, or the bare value of an injected one.\<close>

definition normalize_executed :: "pyval \<Rightarrow> pyval \<times> bool" where
  "normalize_executed executed = (case executed of
     PDict d \<Rightarrow> (case (map_of d ''rows'', map_of d ''truncated'') of
         (Some (PList rows), Some (PBool trunc)) \<Rightarrow> (PList rows, trunc)
       | _ \<Rightarrow> (executed, False))
   | _ \<Rightarrow> (executed, False))"

definition empty_outcome :: "retry_state \<Rightarrow> pyval \<Rightarrow> bool \<Rightarrow> retry_state" where
  "empty_outcome st result trunc =
     (let can_retry = (\<not> ra_empty_retried st \<and> ra_attempt_count st < MAX_ATTEMPTS);
          st' = st\<lparr>ra_result := result, ra_truncated := trunc, ra_failure := None,
            ra_attempts := ra_attempts st @
              [\<lparr>at_query = last (ra_messages st), at_error = Some EMPTY_RESULT\<rparr>],
            ra_diagnostics := ra_diagnostics st @
              [\<lparr>dg_stage = ''result'', dg_reason_code = ''EMPTY_RESULT'', dg_error_type = None,
                dg_sqlstate = None, dg_recovered = False, dg_attempt = ra_attempt_count st,
                dg_retry_scheduled = can_retry\<rparr>]\<rparr>
      in if can_retry
         then st'\<lparr>ra_error := Some EMPTY_RESULT, ra_retry_feedback := Some (Some EMPTY_RESULT),
                  ra_retryable := True, ra_empty_retried := True\<rparr>
         else st'\<lparr>ra_error := None, ra_retry_feedback := Some None,
                  ra_empty_reason := Some (classify_empty_result (ra_attempts st)),
                  ra_retryable := False\<rparr>)"

text \<open>Iteration over a value, as \<open>for row in result\<close> does it.\<close>

definition py_iter :: "pyval \<Rightarrow> pyval list option" where
  "py_iter v = (case v of
     PList xs \<Rightarrow> Some xs
   | PDict d \<Rightarrow> Some (map (\<lambda>(k, _). PStr k) d)
   | PStr s \<Rightarrow> Some (map (\<lambda>c. PStr [c]) s)
   | _ \<Rightarrow> None)"

definition has_field :: "pyval \<Rightarrow> string \<Rightarrow> bool" where
  "has_field v alias = (case v of PDict d \<Rightarrow> alias \<in> set (dict_keys d) | _ \<Rightarrow> False)"

fun missing_outputs :: "string list \<Rightarrow> nat \<Rightarrow> pyval list \<Rightarrow> (nat \<times> string list) option" where
  "missing_outputs required i [] = None"
| "missing_outputs required i (v # vs) =
     (let missing = filter (\<lambda>a. \<not> has_field v a) required in
      if missing \<noteq> [] then Some (i, missing) else missing_outputs required (Suc i) vs)"

definition success :: "retry_state \<Rightarrow> pyval \<Rightarrow> bool \<Rightarrow> retry_state" where
  "success st result trunc =
     st\<lparr>ra_result := result, ra_error := None, ra_retry_feedback := Some None, ra_empty_reason := None,
        ra_attempts := ra_attempts st @ [\<lparr>at_query = last (ra_messages st), at_error = None\<rparr>],
        ra_diagnostics := map (\<lambda>d. d\<lparr>dg_recovered := True\<rparr>) (ra_diagnostics st),
        ra_retryable := False, ra_truncated := trunc, ra_failure := None\<rparr>"

definition execute_and_classify :: "retry_config \<Rightarrow> retry_state \<Rightarrow> retry_escape + retry_state" where
  "execute_and_classify cfg st =
     (case rc_execute cfg (ra_attempt_count st) (last (ra_messages st)) of
        Inl e \<Rightarrow> Inr (execution_failure cfg st e)
      | Inr executed \<Rightarrow> (case normalize_executed executed of (result, trunc) \<Rightarrow>
          if \<not> py_truthy result then Inr (empty_outcome st result trunc)
          else (case py_iter result of
              None \<Rightarrow> Inl ResultNotIterable
            | Some values \<Rightarrow> (case missing_outputs (ra_required_outputs st) 0 values of
                  Some (i, missing) \<Rightarrow> Inr (contract_failure cfg st (MissingAliases i missing)
                    ''result_contract'' ''REQUIRED_ALIAS_MISSING'')
                | None \<Rightarrow> (case rc_result_contract_error cfg of
                      None \<Rightarrow> Inr (success st result trunc)
                    | Some contract \<Rightarrow> (case contract values st of
                          Inl e \<Rightarrow> Inr (internal_validation_failure cfg st e)
                        | Inr (Some text) \<Rightarrow> Inr (contract_failure cfg st (InvariantText text)
                            ''result_invariant'' ''RESULT_INVARIANT_VIOLATION'')
                        | Inr None \<Rightarrow> Inr (success st result trunc)))))))"

definition tools :: "retry_config \<Rightarrow> retry_state \<Rightarrow> retry_escape + retry_state" where
  "tools cfg st = (case check_guard cfg st of
     Some st' \<Rightarrow> Inr st'
   | None \<Rightarrow> (case check_contract cfg st of
         Some st' \<Rightarrow> Inr st'
       | None \<Rightarrow> execute_and_classify cfg st))"

definition should_retry :: "retry_state \<Rightarrow> bool" where
  "should_retry st \<longleftrightarrow> ra_error st \<noteq> None \<and> ra_retryable st \<and> ra_attempt_count st < MAX_ATTEMPTS"

lemma failure_frame [simp]:
  "ra_attempt_count (failure st m r f s c e fb) = ra_attempt_count st"
  "ra_messages (failure st m r f s c e fb) = ra_messages st"
  "ra_required_outputs (failure st m r f s c e fb) = ra_required_outputs st"
  "ra_empty_retried (failure st m r f s c e fb) = ra_empty_retried st"
  "ra_empty_reason (failure st m r f s c e fb) = ra_empty_reason st"
  "ra_error (failure st m r f s c e fb) = Some m"
  "ra_retryable (failure st m r f s c e fb) = r"
  "ra_failure (failure st m r f s c e fb) = Some f"
  "ra_result (failure st m r f s c e fb) = PNone"
  "ra_attempts (failure st m r f s c e fb) =
     ra_attempts st @ [\<lparr>at_query = last (ra_messages st), at_error = Some m\<rparr>]"
  by (simp_all add: failure_def)

text \<open>Every outcome of \<open>tools\<close> is a failure, an empty result or a success.\<close>

datatype tool_outcome = Failed retry_text bool query_failure | Empty pyval bool | Succeeded pyval bool

definition is_outcome :: "retry_state \<Rightarrow> tool_outcome \<Rightarrow> retry_state \<Rightarrow> bool" where
  "is_outcome st oc st' = (case oc of
     Failed m r f \<Rightarrow> m \<noteq> EMPTY_RESULT \<and> (\<exists>s c e fb. st' = failure st m r f s c e fb)
   | Empty result trunc \<Rightarrow> \<not> py_truthy result \<and> st' = empty_outcome st result trunc
   | Succeeded result trunc \<Rightarrow> py_truthy result \<and> st' = success st result trunc)"

lemma failure_outcome: "m \<noteq> EMPTY_RESULT \<Longrightarrow> \<exists>oc. is_outcome st oc (failure st m r f s c e fb)"
  by (rule exI[of _ "Failed m r f"]) (auto simp: is_outcome_def)

lemma tools_outcome:
  assumes "tools cfg st = Inr st'"
  shows "\<exists>oc. is_outcome st oc st'"
proof -
  have val: "\<exists>oc. is_outcome st oc (internal_validation_failure cfg st e)" for e
    unfolding internal_validation_failure_def by (intro failure_outcome) simp
  have con: "m \<noteq> EMPTY_RESULT \<Longrightarrow> \<exists>oc. is_outcome st oc (contract_failure cfg st m s c)" for m s c
    unfolding contract_failure_def by (rule failure_outcome)
  have exe: "\<exists>oc. is_outcome st oc (execution_failure cfg st e)" for e
    unfolding execution_failure_def Let_def by (simp add: failure_outcome)
  have emp: "\<not> py_truthy r \<Longrightarrow> \<exists>oc. is_outcome st oc (empty_outcome st r t)" for r t
    by (rule exI[of _ "Empty r t"]) (simp add: is_outcome_def)
  have suc: "py_truthy r \<Longrightarrow> \<exists>oc. is_outcome st oc (success st r t)" for r t
    by (rule exI[of _ "Succeeded r t"]) (simp add: is_outcome_def)
  show ?thesis
    using assms
    by (auto simp: tools_def check_guard_def check_contract_def execute_and_classify_def val con exe emp
        suc failure_outcome split: option.splits sum.splits if_splits prod.splits)
qed

lemma outcome_attempt_count:
  "is_outcome st oc st' \<Longrightarrow> ra_attempt_count st' = ra_attempt_count st \<and> ra_messages st' = ra_messages st"
  by (cases oc) (auto simp: is_outcome_def empty_outcome_def success_def Let_def)

text \<open>The compiled graph: \<open>agent\<close>, \<open>tools\<close>, and the conditional edge back to \<open>agent\<close>.\<close>

function run_agent :: "retry_config \<Rightarrow> retry_state \<Rightarrow> retry_escape + retry_state" where
  "run_agent cfg st = rbind (agent cfg st) (\<lambda>st1. rbind (tools cfg st1) (\<lambda>st2.
     if should_retry st2 then run_agent cfg st2 else Inr st2))"
  by auto
termination
proof (relation "measure (\<lambda>(_, st). MAX_ATTEMPTS - ra_attempt_count st)", goal_cases)
  case 1
  then show ?case by simp
next
  case (2 cfg st st1 st2)
  from 2(1) have "ra_attempt_count st1 = Suc (ra_attempt_count st)"
    by (auto simp: agent_def Let_def split: sum.splits)
  moreover from tools_outcome[OF 2(2)] have "ra_attempt_count st2 = ra_attempt_count st1"
    using outcome_attempt_count by blast
  ultimately show ?case using 2(3) by (auto simp: should_retry_def)
qed

declare run_agent.simps [simp del]

subsection \<open>What the loop maintains\<close>

definition empties :: "attempt list \<Rightarrow> nat" where
  "empties xs = length (filter (\<lambda>a. at_error a = Some EMPTY_RESULT) xs)"

text \<open>The state in which the \<open>agent\<close> node is entered.\<close>

definition retry_inv :: "retry_state \<Rightarrow> bool" where
  "retry_inv st \<longleftrightarrow> map at_query (ra_attempts st) = ra_messages st \<and>
     length (ra_messages st) = ra_attempt_count st \<and> ra_attempt_count st < MAX_ATTEMPTS \<and>
     empties (ra_attempts st) = (if ra_empty_retried st then 1 else 0) \<and> ra_empty_reason st = None"

definition initial_retry_state :: "retry_state \<Rightarrow> bool" where
  "initial_retry_state st \<longleftrightarrow> ra_messages st = [] \<and> ra_result st = PNone \<and> ra_error st = None \<and>
     ra_attempt_count st = 0 \<and> ra_attempts st = [] \<and> \<not> ra_empty_retried st \<and> ra_empty_reason st = None \<and>
     \<not> ra_truncated st \<and> ra_failure st = None \<and> ra_diagnostics st = [] \<and> ra_retry_feedback st = None"

lemma initial_retry_inv: "initial_retry_state st \<Longrightarrow> retry_inv st"
  by (simp add: initial_retry_state_def retry_inv_def empties_def MAX_ATTEMPTS_def)

text \<open>What holds of the state that leaves the graph.\<close>

definition accepted_rows :: "string list \<Rightarrow> pyval \<Rightarrow> bool" where
  "accepted_rows required result \<longleftrightarrow> (\<exists>vals. py_iter result = Some vals \<and>
     (\<forall>v \<in> set vals. \<forall>a \<in> set required. has_field v a))"

definition retry_final :: "retry_state \<Rightarrow> bool" where
  "retry_final st \<longleftrightarrow> map at_query (ra_attempts st) = ra_messages st \<and>
     length (ra_messages st) = ra_attempt_count st \<and> 1 \<le> ra_attempt_count st \<and>
     ra_attempt_count st \<le> MAX_ATTEMPTS \<and> empties (ra_attempts st) \<le> 2 \<and>
     (case ra_error st of
        None \<Rightarrow> ra_failure st = None \<and>
          (if py_truthy (ra_result st)
           then ra_empty_reason st = None \<and> accepted_rows (ra_required_outputs st) (ra_result st)
           else ra_empty_reason st = Some (classify_empty_result (butlast (ra_attempts st))))
      | Some m \<Rightarrow> m \<noteq> EMPTY_RESULT \<and> ra_result st = PNone \<and> ra_failure st \<noteq> None \<and>
          ra_empty_reason st = None \<and> (\<not> ra_retryable st \<or> ra_attempt_count st = MAX_ATTEMPTS))"

lemma agent_Inr:
  assumes "agent cfg st = Inr st1"
  obtains q where "st1 = st\<lparr>ra_messages := ra_messages st @ [q], ra_attempt_count := ra_attempt_count st + 1\<rparr>"
  using assms by (auto simp: agent_def Let_def split: sum.splits)

lemma agent_frame: "agent cfg st = Inr st1 \<Longrightarrow> ra_required_outputs st1 = ra_required_outputs st"
  by (erule agent_Inr) simp

lemma missing_outputs_None:
  "missing_outputs required i vs = None \<longleftrightarrow> (\<forall>v \<in> set vs. \<forall>a \<in> set required. has_field v a)"
  by (induction vs arbitrary: i) (auto simp: Let_def filter_empty_conv)

text \<open>An attempt succeeds only through the guard, the query contract and both result checks.\<close>

definition passes_checks :: "retry_config \<Rightarrow> retry_state \<Rightarrow> string \<Rightarrow> bool" where
  "passes_checks cfg st q \<longleftrightarrow>
     (\<forall>guard. rc_guard cfg = Some guard \<longrightarrow> (\<exists>g. guard q = Inr g \<and> gr_allowed g)) \<and>
     (\<forall>contract. rc_query_contract_error cfg = Some contract \<longrightarrow> contract q (ra_required_outputs st) = None)"

lemma checks_iff:
  "check_guard cfg st = None \<and> check_contract cfg st = None \<longleftrightarrow> passes_checks cfg st (last (ra_messages st))"
  by (auto simp: check_guard_def check_contract_def passes_checks_def split: option.splits sum.splits)

lemma failure_errors [simp]:
  "ra_error (internal_validation_failure cfg st e) = Some ValidationError"
  "ra_error (contract_failure cfg st m s c) = Some m"
  "ra_error (execution_failure cfg st e) \<noteq> None"
  by (simp_all add: internal_validation_failure_def contract_failure_def execution_failure_def Let_def)

lemma tools_success:
  assumes "tools cfg st = Inr st'" and "ra_error st' = None" and "py_truthy (ra_result st')"
  shows "passes_checks cfg st (last (ra_messages st)) \<and> accepted_rows (ra_required_outputs st) (ra_result st') \<and>
    (\<forall>contract. rc_result_contract_error cfg = Some contract \<longrightarrow>
       (\<exists>vals. py_iter (ra_result st') = Some vals \<and> contract vals st = Inr None))"
proof -
  have guards: "check_guard cfg st = None \<and> check_contract cfg st = None"
    using assms(1,2)
    by (auto simp: tools_def check_guard_def check_contract_def split: option.splits sum.splits if_splits)
  then have "execute_and_classify cfg st = Inr st'" using assms(1) by (simp add: tools_def)
  then obtain r t vals where r: "py_truthy r" "py_iter r = Some vals"
    "missing_outputs (ra_required_outputs st) 0 vals = None" "st' = success st r t"
    "\<forall>contract. rc_result_contract_error cfg = Some contract \<longrightarrow> contract vals st = Inr None"
    using assms(2,3)
    by (auto simp: execute_and_classify_def empty_outcome_def Let_def
        split: sum.splits prod.splits if_splits option.splits)
  with guards checks_iff[of cfg st] show ?thesis
    by (auto simp: accepted_rows_def success_def missing_outputs_None)
qed

lemma outcome_inv:
  assumes inv: "retry_inv st" and ag: "agent cfg st = Inr st1" and oc: "is_outcome st1 oc st2"
    and again: "should_retry st2"
  shows "retry_inv st2"
proof -
  from agent_Inr[OF ag] obtain q where
    st1: "st1 = st\<lparr>ra_messages := ra_messages st @ [q], ra_attempt_count := ra_attempt_count st + 1\<rparr>" .
  show ?thesis
    using inv oc again
    by (cases oc) (auto simp: st1 is_outcome_def retry_inv_def empties_def should_retry_def
        empty_outcome_def success_def Let_def split: if_splits)
qed

lemma empties_snoc: "empties (xs @ [a]) = empties xs + (if at_error a = Some EMPTY_RESULT then 1 else 0)"
  by (simp add: empties_def)

lemma outcome_final:
  assumes inv: "retry_inv st" and ag: "agent cfg st = Inr st1" and tl: "tools cfg st1 = Inr st2"
    and stop: "\<not> should_retry st2"
  shows "retry_final st2"
proof -
  from agent_Inr[OF ag] obtain q where
    st1: "st1 = st\<lparr>ra_messages := ra_messages st @ [q], ra_attempt_count := ra_attempt_count st + 1\<rparr>" .
  from tools_outcome[OF tl] obtain oc where oc: "is_outcome st1 oc st2" by blast
  show ?thesis
  proof (cases oc)
    case (Failed m r f)
    with oc inv stop show ?thesis
      by (auto simp: st1 is_outcome_def retry_inv_def retry_final_def empties_snoc should_retry_def)
  next
    case (Empty r t)
    with oc inv stop show ?thesis
      by (auto simp: st1 is_outcome_def retry_inv_def retry_final_def empties_snoc should_retry_def
          empty_outcome_def Let_def split: if_splits)
  next
    case (Succeeded r t)
    with oc tools_success[OF tl] have "accepted_rows (ra_required_outputs st1) (ra_result st2)"
      by (auto simp: is_outcome_def success_def)
    with Succeeded oc inv show ?thesis
      by (auto simp: st1 is_outcome_def retry_inv_def retry_final_def empties_snoc success_def)
  qed
qed

lemma step_frame:
  assumes "agent cfg st = Inr st1" and "tools cfg st1 = Inr st2"
  shows "ra_required_outputs st1 = ra_required_outputs st" "ra_required_outputs st2 = ra_required_outputs st"
proof -
  from assms(1) show *: "ra_required_outputs st1 = ra_required_outputs st" by (rule agent_frame)
  from tools_outcome[OF assms(2)] obtain oc where "is_outcome st1 oc st2" by blast
  with * show "ra_required_outputs st2 = ra_required_outputs st"
    by (cases oc) (auto simp: is_outcome_def empty_outcome_def success_def Let_def)
qed

lemma run_agent_Inr:
  assumes "run_agent cfg st = Inr st'"
  obtains st1 st2 where "agent cfg st = Inr st1" "tools cfg st1 = Inr st2"
    "should_retry st2 \<longrightarrow> run_agent cfg st2 = Inr st'" "\<not> should_retry st2 \<longrightarrow> st' = st2"
proof -
  from assms obtain st1 st2 where "agent cfg st = Inr st1" "tools cfg st1 = Inr st2"
    "(if should_retry st2 then run_agent cfg st2 else Inr st2) = Inr st'"
    unfolding run_agent.simps[of cfg st] rbind_Inr_iff by blast
  then show ?thesis by (intro that) (auto split: if_splits)
qed

lemma run_agent_final:
  "retry_inv st \<Longrightarrow> run_agent cfg st = Inr st' \<Longrightarrow>
     retry_final st' \<and> ra_required_outputs st' = ra_required_outputs st \<and>
     (ra_error st' = None \<longrightarrow> py_truthy (ra_result st') \<longrightarrow> passes_checks cfg st (last (ra_messages st')))"
proof (induction cfg st rule: run_agent.induct)
  case (1 cfg st)
  from run_agent_Inr[OF 1(3)] obtain st1 st2 where
    ag: "agent cfg st = Inr st1" and tl: "tools cfg st1 = Inr st2"
    and more: "should_retry st2 \<longrightarrow> run_agent cfg st2 = Inr st'"
    and stop: "\<not> should_retry st2 \<longrightarrow> st' = st2" .
  have same: "passes_checks cfg x q = passes_checks cfg st q"
    if "ra_required_outputs x = ra_required_outputs st" for x q
    using that by (simp add: passes_checks_def)
  show ?case
  proof (cases "should_retry st2")
    case True
    from tools_outcome[OF tl] obtain oc where "is_outcome st1 oc st2" by blast
    from outcome_inv[OF 1(2) ag this True] have "retry_inv st2" .
    from 1(1)[OF ag tl True this more[rule_format, OF True]] step_frame[OF ag tl] same[of st2]
    show ?thesis by simp
  next
    case False
    from tools_outcome[OF tl] outcome_attempt_count have "ra_messages st2 = ra_messages st1" by blast
    with tools_success[OF tl] same[of st1] step_frame[OF ag tl]
    have "ra_error st2 = None \<longrightarrow> py_truthy (ra_result st2) \<longrightarrow> passes_checks cfg st (last (ra_messages st2))"
      by simp
    with outcome_final[OF 1(2) ag tl False] stop[rule_format, OF False] step_frame(2)[OF ag tl]
    show ?thesis by blast
  qed
qed

lemma tools_execute_cong:
  assumes "\<And>n q. passes_checks cfg st q \<Longrightarrow> rc_execute cfg n q = ex n q"
  shows "tools (cfg\<lparr>rc_execute := ex\<rparr>) st = tools cfg st"
proof -
  have same: "check_guard (cfg\<lparr>rc_execute := ex\<rparr>) st = check_guard cfg st"
    "check_contract (cfg\<lparr>rc_execute := ex\<rparr>) st = check_contract cfg st"
    "execution_failure (cfg\<lparr>rc_execute := ex\<rparr>) st e = execution_failure cfg st e"
    "internal_validation_failure (cfg\<lparr>rc_execute := ex\<rparr>) st e = internal_validation_failure cfg st e"
    "contract_failure (cfg\<lparr>rc_execute := ex\<rparr>) st m s c = contract_failure cfg st m s c" for e m s c
    by (auto simp: check_guard_def check_contract_def execution_failure_def contract_failure_def
        internal_validation_failure_def split: option.splits sum.splits)
  show ?thesis
  proof (cases "check_guard cfg st = None \<and> check_contract cfg st = None")
    case True
    with assms[of "last (ra_messages st)" "ra_attempt_count st"] checks_iff[of cfg st]
    have "rc_execute cfg (ra_attempt_count st) (last (ra_messages st)) =
        ex (ra_attempt_count st) (last (ra_messages st))" by blast
    then have "execute_and_classify (cfg\<lparr>rc_execute := ex\<rparr>) st = execute_and_classify cfg st"
      unfolding execute_and_classify_def
      by (auto simp: same split: sum.splits option.splits prod.splits)
    with True show ?thesis by (simp add: tools_def same)
  next
    case False
    then show ?thesis by (auto simp: tools_def same split: option.splits)
  qed
qed

lemma run_agent_execute_cong:
  "(\<And>n q. passes_checks cfg st q \<Longrightarrow> rc_execute cfg n q = ex n q) \<Longrightarrow>
     run_agent (cfg\<lparr>rc_execute := ex\<rparr>) st = run_agent cfg st"
proof (induction cfg st rule: run_agent.induct)
  case (1 cfg st)
  let ?c = "cfg\<lparr>rc_execute := ex\<rparr>"
  have ag: "agent ?c st = agent cfg st" by (simp add: agent_def)
  have tl: "tools ?c st1 = tools cfg st1" if "agent cfg st = Inr st1" for st1
  proof (rule tools_execute_cong)
    fix n q
    assume "passes_checks cfg st1 q"
    moreover from that have "ra_required_outputs st1 = ra_required_outputs st" by (rule agent_frame)
    ultimately have "passes_checks cfg st q" by (simp add: passes_checks_def)
    then show "rc_execute cfg n q = ex n q" by (rule 1(2))
  qed
  have rec: "run_agent ?c st2 = run_agent cfg st2"
    if "agent cfg st = Inr st1" "tools cfg st1 = Inr st2" "should_retry st2" for st1 st2
  proof (rule 1(1)[OF that])
    fix n q
    assume "passes_checks cfg st2 q"
    then have "passes_checks cfg st q" using step_frame[OF that(1,2)] by (simp add: passes_checks_def)
    then show "rc_execute cfg n q = ex n q" by (rule 1(2))
  qed
  have "rbind (agent cfg st) (\<lambda>st1. rbind (tools ?c st1) (\<lambda>st2. if should_retry st2 then run_agent ?c st2 else Inr st2))
     = rbind (agent cfg st) (\<lambda>st1. rbind (tools cfg st1) (\<lambda>st2. if should_retry st2 then run_agent cfg st2 else Inr st2))"
    by (intro rbind_cong refl) (auto simp: tl rec intro!: rbind_cong)
  then show ?case by (subst (1 2) run_agent.simps) (simp add: ag)
qed

text \<open>A run ends with a state unless the model call fails or the database answers a non-iterable value.\<close>

definition answers_rows :: "retry_config \<Rightarrow> bool" where
  "answers_rows cfg \<longleftrightarrow> (\<forall>n q v. rc_execute cfg n q = Inr v \<longrightarrow>
     py_truthy (fst (normalize_executed v)) \<longrightarrow> py_iter (fst (normalize_executed v)) \<noteq> None)"

lemma tools_total: "answers_rows cfg \<Longrightarrow> \<exists>st'. tools cfg st = Inr st'"
proof -
  assume rows: "answers_rows cfg"
  have "\<exists>st'. execute_and_classify cfg st = Inr st'"
  proof (cases "rc_execute cfg (ra_attempt_count st) (last (ra_messages st))")
    case (Inl e)
    then show ?thesis by (simp add: execute_and_classify_def)
  next
    case (Inr v)
    obtain r t where rt: "normalize_executed v = (r, t)" by (cases "normalize_executed v")
    with rows Inr have "py_truthy r \<longrightarrow> (\<exists>vals. py_iter r = Some vals)"
      unfolding answers_rows_def by (metis fst_conv not_None_eq)
    with Inr rt show ?thesis
      by (auto simp: execute_and_classify_def split: option.splits sum.splits)
  qed
  then show ?thesis by (auto simp: tools_def split: option.splits)
qed

lemma run_agent_total:
  assumes "\<And>st p f. \<exists>q. rc_generate cfg st p f = Inr q" and "answers_rows cfg"
  shows "\<exists>st'. run_agent cfg st = Inr st'"
  using assms
proof (induction cfg st rule: run_agent.induct)
  case (1 cfg st)
  have "\<exists>st1. agent cfg st = Inr st1"
    using 1(2) by (simp add: agent_def Let_def) (metis sum.simps(6))
  then obtain st1 where st1: "agent cfg st = Inr st1" ..
  from tools_total[OF 1(3)] obtain st2 where st2: "tools cfg st1 = Inr st2" by blast
  show ?case
  proof (cases "should_retry st2")
    case True
    from 1(1)[OF st1 st2 True 1(2,3)] True st1 st2 show ?thesis by (simp add: run_agent.simps[of cfg st])
  next
    case False
    with st1 st2 show ?thesis by (simp add: run_agent.simps[of cfg st])
  qed
qed

subsection \<open>The contract of a query agent\<close>

text \<open>
  What the plan executor relies on: an agent invoked on a fresh state keeps the required outputs and,
  when it returns, ends in a final state.
\<close>

locale query_agent =
  fixes invoke :: "retry_state \<Rightarrow> retry_escape + retry_state"
  assumes invoke_final: "initial_retry_state st \<Longrightarrow> invoke st = Inr st' \<Longrightarrow>
    retry_final st' \<and> ra_required_outputs st' = ra_required_outputs st"
begin

lemma asked: "initial_retry_state st \<Longrightarrow> invoke st = Inr st' \<Longrightarrow> ra_messages st' \<noteq> []"
  using invoke_final[of st st'] by (auto simp: retry_final_def)

lemma error_iff_failure:
  "initial_retry_state st \<Longrightarrow> invoke st = Inr st' \<Longrightarrow> ra_error st' \<noteq> None \<longleftrightarrow> ra_failure st' \<noteq> None"
  using invoke_final[of st st'] by (auto simp: retry_final_def split: option.splits)

lemma answered_rows:
  "initial_retry_state st \<Longrightarrow> invoke st = Inr st' \<Longrightarrow> ra_error st' = None \<Longrightarrow>
     py_truthy (ra_result st') \<Longrightarrow> accepted_rows (ra_required_outputs st) (ra_result st')"
  using invoke_final[of st st'] by (auto simp: retry_final_def)

lemma failed_result:
  "initial_retry_state st \<Longrightarrow> invoke st = Inr st' \<Longrightarrow> ra_error st' \<noteq> None \<Longrightarrow> ra_result st' = PNone"
  using invoke_final[of st st'] by (auto simp: retry_final_def)

end

interpretation retry: query_agent "run_agent cfg" for cfg
proof
  fix st st'
  assume "initial_retry_state st" "run_agent cfg st = Inr st'"
  then show "retry_final st' \<and> ra_required_outputs st' = ra_required_outputs st"
    using run_agent_final[OF initial_retry_inv] by blast
qed

subsection \<open>Properties\<close>

text \<open>C7: Whatever the model, the guard, the contracts and the database answer, a run of the retry graph
  that returns made between one and three attempts, recorded each generated query once, saw at most two
  empty results (one retried, one accepted), and ends in exactly one of three ways: accepted rows, an
  accepted empty result whose reason is INCONCLUSIVE exactly when an earlier attempt really failed, or an
  error other than EMPTY_RESULT with a user-safe failure and no result, after a non-retryable failure or
  the third attempt.\<close>

theorem retry_agent_final_state:
  assumes "initial_retry_state st" and "run_agent cfg st = Inr st'"
  shows "retry_final st'"
  using retry.invoke_final[OF assms] by simp

definition example_retry_state :: retry_state where
  "example_retry_state = \<lparr>ra_query = ''q'', ra_source_scope = None, ra_entity = PNone, ra_schema = [],
     ra_messages = [], ra_result = PNone, ra_error = None, ra_attempt_count = 0, ra_attempts = [],
     ra_empty_retried = False, ra_retryable = False, ra_empty_reason = None, ra_truncated = False,
     ra_required_outputs = [''id''], ra_input_bindings = [], ra_business_rules = [], ra_failure = None,
     ra_diagnostics = [], ra_retry_feedback = None\<rparr>"

text \<open>A database that answers nothing, then rows; the guard refuses every query but \<open>ask\<close>.\<close>

definition example_config :: retry_config where
  "example_config = \<lparr>rc_tool = ''sql'', rc_generate = (\<lambda>st p f. Inr ''ask''),
     rc_execute = (\<lambda>n q. Inr (if n = 1 then PList [] else PList [PDict [(''id'', PInt 7)]])),
     rc_connection_exceptions = [], rc_retryable_exceptions = [],
     rc_guard = Some (\<lambda>q. Inr \<lparr>gr_allowed = (q = ''ask''), gr_reason_code = Some ''UNKNOWN_TABLE''\<rparr>),
     rc_query_contract_error = None, rc_result_contract_error = None\<rparr>"

definition example_answer :: retry_state where
  "example_answer = projr (run_agent example_config example_retry_state)"

lemma example_initial: "initial_retry_state example_retry_state"
  by (simp add: initial_retry_state_def example_retry_state_def)

lemma example_run: "run_agent example_config example_retry_state = Inr example_answer"
  by code_simp

theorem retry_agent_final_state_witness:
  "retry_final example_answer \<and> ra_attempt_count example_answer = 2 \<and> ra_error example_answer = None"
proof -
  have "ra_attempt_count example_answer = 2 \<and> ra_error example_answer = None" by code_simp
  with retry_agent_final_state[OF example_initial example_run] show ?thesis by simp
qed

text \<open>Rows leave the retry graph only if the last generated query was allowed by the guard and met the
  query contract, and every row is a dictionary with all required outputs.\<close>

theorem retry_agent_answers_are_checked:
  assumes "initial_retry_state st" and "run_agent cfg st = Inr st'" and "ra_error st' = None"
    and "py_truthy (ra_result st')"
  shows "passes_checks cfg st (last (ra_messages st')) \<and>
    accepted_rows (ra_required_outputs st) (ra_result st')"
  using run_agent_final[OF initial_retry_inv[OF assms(1)] assms(2)] retry.answered_rows[OF assms] assms(3,4)
  by simp

theorem retry_agent_answers_are_checked_witness:
  "passes_checks example_config example_retry_state ''ask'' \<and>
   accepted_rows [''id''] (PList [PDict [(''id'', PInt 7)]])"
proof -
  have ok: "ra_error example_answer = None" "py_truthy (ra_result example_answer)"
    "ra_messages example_answer = [''ask'', ''ask'']"
    "ra_result example_answer = PList [PDict [(''id'', PInt 7)]]" by code_simp+
  have "ra_required_outputs example_retry_state = [''id'']" by (simp add: example_retry_state_def)
  with retry_agent_answers_are_checked[OF example_initial example_run ok(1,2)] ok(3,4) show ?thesis by simp
qed

text \<open>The retry graph executes nothing but queries that the guard allowed and the query contract
  accepted: changing what the database does on any other query changes no run.\<close>

theorem retry_agent_executes_only_checked_queries:
  assumes "\<And>n q. passes_checks cfg st q \<Longrightarrow> rc_execute cfg n q = ex n q"
  shows "run_agent (cfg\<lparr>rc_execute := ex\<rparr>) st = run_agent cfg st"
  using assms by (rule run_agent_execute_cong)

theorem retry_agent_executes_only_checked_queries_witness:
  "run_agent (example_config\<lparr>rc_execute := (\<lambda>n q. if q = ''DROP'' then Inr (PBool True)
     else rc_execute example_config n q)\<rparr>) example_retry_state = Inr example_answer"
proof -
  have "rc_execute example_config n q =
      (\<lambda>n q. if q = ''DROP'' then Inr (PBool True) else rc_execute example_config n q) n q"
    if "passes_checks example_config example_retry_state q" for n q
    using that by (auto simp: passes_checks_def example_config_def)
  from retry_agent_executes_only_checked_queries[OF this] example_run show ?thesis by simp
qed

text \<open>The retry graph always returns a state when the model call succeeds and the database answers
  batches or lists: no verdict of the guard, no contract and no database error raises out of it.\<close>

theorem retry_agent_returns:
  assumes "\<And>st p f. \<exists>q. rc_generate cfg st p f = Inr q" and "answers_rows cfg"
  shows "\<exists>st'. run_agent cfg st = Inr st'"
  using assms by (rule run_agent_total)

theorem retry_agent_returns_witness: "\<exists>st'. run_agent example_config example_retry_state = Inr st'"
  by (rule retry_agent_returns)
     (auto simp: example_config_def answers_rows_def normalize_executed_def py_iter_def)

end
