(* ===== verification/Query_Execution.thy ===== *)
theory Query_Execution
  imports Retry_Agent
begin

text \<open>
  The two production executors (\<open>orchestrator/execution/\<close>) and the agents' handling of their
  errors.  A database is a function from the number of the call and the query to the driver's
  exception or to all rows the query selects; the drivers' \<open>fetchmany(n)\<close> and \<open>fetch(n)\<close> return the
  first \<open>n\<close> of them.  Sessions, transactions and the closing rollback have no value in the model.
\<close>

type_synonym database = "nat \<Rightarrow> string \<Rightarrow> py_exception + row list"

text \<open>\<open>items[:n]\<close>: a negative bound counts from the end.\<close>

definition py_take :: "int \<Rightarrow> 'a list \<Rightarrow> 'a list" where
  "py_take n xs = (if 0 \<le> n then take (nat n) xs else take (length xs - nat (- n)) xs)"

definition make_batch :: "row list \<Rightarrow> int \<Rightarrow> pyval" where
  "make_batch items row_limit =
     PDict [(''rows'', PList (map PDict (py_take row_limit items))),
            (''truncated'', PBool (row_limit < int (length items)))]"

definition fetch :: "int \<Rightarrow> row list \<Rightarrow> row list" where
  "fetch n rows = take (nat n) rows"

definition execute_with_limit :: "database \<Rightarrow> int \<Rightarrow> nat \<Rightarrow> string \<Rightarrow> py_exception + pyval" where
  "execute_with_limit db row_limit n query =
     rbind (db n query) (\<lambda>rows. Inr (make_batch (fetch (row_limit + 1) rows) row_limit))"

lemma make_batch_rows:
  assumes "0 \<le> row_limit"
  shows "make_batch (fetch (row_limit + 1) rows) row_limit =
    PDict [(''rows'', PList (map PDict (take (nat row_limit) rows))),
           (''truncated'', PBool (nat row_limit < length rows))]"
proof -
  have "take (nat row_limit) (take (nat (row_limit + 1)) rows) = take (nat row_limit) rows"
    using assms by (simp add: min_def nat_add_distrib)
  moreover have "row_limit < int (length (take (nat (row_limit + 1)) rows)) \<longleftrightarrow> nat row_limit < length rows"
    using assms by (auto simp: min_def)
  ultimately show ?thesis using assms by (simp add: make_batch_def fetch_def py_take_def)
qed

lemma normalize_batch: "normalize_executed (make_batch items row_limit) =
   (PList (map PDict (py_take row_limit items)), row_limit < int (length items))"
  by (simp add: normalize_executed_def make_batch_def)

subsection \<open>The SQL agent\<close>

definition SQL_CONNECTION_EXCEPTIONS :: "string list" where
  "SQL_CONNECTION_EXCEPTIONS = [''OperationalError'']"

definition SQL_RETRYABLE_EXCEPTIONS :: "string list" where
  "SQL_RETRYABLE_EXCEPTIONS = [''SyntaxError'', ''UndefinedColumn'', ''UndefinedTable'',
     ''UndefinedFunction'', ''InvalidColumnReference'', ''QueryCanceled'']"

type_synonym generator = "retry_state \<Rightarrow> string option \<Rightarrow> feedback option \<Rightarrow> py_exception + string"

type_synonym guard = "string \<Rightarrow> py_exception + guard_result"

definition sql_agent_config :: "generator \<Rightarrow> (nat \<Rightarrow> string \<Rightarrow> py_exception + pyval) \<Rightarrow> guard \<Rightarrow> retry_config" where
  "sql_agent_config generate_sql execute_sql guard = \<lparr>rc_tool = ''sql'', rc_generate = generate_sql,
     rc_execute = execute_sql, rc_connection_exceptions = SQL_CONNECTION_EXCEPTIONS,
     rc_retryable_exceptions = SQL_RETRYABLE_EXCEPTIONS, rc_guard = Some guard,
     rc_query_contract_error = None, rc_result_contract_error = None\<rparr>"

subsection \<open>The Cypher agent\<close>

definition CYPHER_CONNECTION_EXCEPTIONS :: "string list" where
  "CYPHER_CONNECTION_EXCEPTIONS = [''ServiceUnavailable'', ''SessionExpired'', ''AuthError'']"

definition CYPHER_RETRYABLE_EXCEPTIONS :: "string list" where
  "CYPHER_RETRYABLE_EXCEPTIONS = [''CypherSyntaxError'', ''CypherTypeError'', ''ConstraintError'',
     ''_CypherQueryTimeoutError'']"

text \<open>
  The wrapper repackages a \<open>ClientError\<close> with the timeout code; the driver's \<open>code\<close> attribute is
  given by a function on exceptions.
\<close>

definition TIMEOUT_ERROR_CODE :: string where
  "TIMEOUT_ERROR_CODE = ''Neo.ClientError.Transaction.TransactionTimedOutClientConfiguration''"

definition wrap_execute_cypher :: "(py_exception \<Rightarrow> string option) \<Rightarrow> (nat \<Rightarrow> string \<Rightarrow> py_exception + pyval)
    \<Rightarrow> nat \<Rightarrow> string \<Rightarrow> py_exception + pyval" where
  "wrap_execute_cypher neo4j_code execute_cypher n cypher = (case execute_cypher n cypher of
     Inr v \<Rightarrow> Inr v
   | Inl e \<Rightarrow>
       if exc_instance e [''ClientError''] \<and> neo4j_code e = Some TIMEOUT_ERROR_CODE
       then Inl \<lparr>exc_type = ''_CypherQueryTimeoutError'', exc_bases = [''Exception''],
                 exc_text = exc_text e, exc_sqlstate = None\<rparr>
       else Inl e)"

definition attribute_error :: py_exception where
  "attribute_error = \<lparr>exc_type = ''AttributeError'', exc_bases = [''Exception''], exc_text = [],
     exc_sqlstate = None\<rparr>"

definition list_length :: "pyval \<Rightarrow> nat option" where
  "list_length v = (case v of PList xs \<Rightarrow> Some (length xs) | _ \<Rightarrow> None)"

definition bom_row_violation :: "string list \<Rightarrow> int \<Rightarrow> nat \<Rightarrow> row \<Rightarrow> invariant_violation option" where
  "bom_row_violation required min_hops i r = (case dict_get r ''depth'' PNone of
     PInt depth \<Rightarrow>
       let path_ids = list_length (dict_get r ''pathProductIds'' PNone) in
       if depth < min_hops then Some (DepthBelowMinimum i min_hops)
       else if map_option int path_ids \<noteq> Some (depth + 1) then Some (PathIdsLength i)
       else if ''pathProductNames'' \<in> set required \<and>
               list_length (dict_get r ''pathProductNames'' PNone) \<noteq> path_ids
       then Some (PathNamesLength i)
       else if ''quantityPerAssembly'' \<in> set required \<and>
               map_option int (list_length (dict_get r ''quantityPerAssembly'' PNone)) \<noteq> Some depth
       then Some (QuantitiesLength i)
       else None
   | _ \<Rightarrow> Some (DepthNotInteger i))"

fun bom_path_violation :: "string list \<Rightarrow> int \<Rightarrow> nat \<Rightarrow> pyval list
    \<Rightarrow> py_exception + invariant_violation option" where
  "bom_path_violation required min_hops i [] = Inr None"
| "bom_path_violation required min_hops i (v # vs) = (case v of
     PDict r \<Rightarrow> (case bom_row_violation required min_hops i r of
         Some x \<Rightarrow> Inr (Some x)
       | None \<Rightarrow> bom_path_violation required min_hops (Suc i) vs)
   | _ \<Rightarrow> Inl attribute_error)"

definition result_contract_error :: "semantic_catalog \<Rightarrow> pyval list \<Rightarrow> retry_state
    \<Rightarrow> py_exception + invariant_violation option" where
  "result_contract_error catalog rows st =
     (case result_invariant_for_outputs catalog ''graph'' (ra_required_outputs st) of
        Inr (Some (invariant_id, min_hops)) \<Rightarrow>
          if invariant_id \<noteq> ''bom_path_v1'' then Inr None
          else bom_path_violation (ra_required_outputs st) min_hops 0 rows
      | _ \<Rightarrow> Inr None)"

definition cypher_agent_config :: "generator \<Rightarrow> (nat \<Rightarrow> string \<Rightarrow> py_exception + pyval)
    \<Rightarrow> (py_exception \<Rightarrow> string option) \<Rightarrow> guard \<Rightarrow> (string \<Rightarrow> string list \<Rightarrow> string option)
    \<Rightarrow> semantic_catalog option \<Rightarrow> retry_config" where
  "cypher_agent_config generate_cypher execute_cypher neo4j_code guard contract catalog =
     \<lparr>rc_tool = ''graph'', rc_generate = generate_cypher,
      rc_execute = wrap_execute_cypher neo4j_code execute_cypher,
      rc_connection_exceptions = CYPHER_CONNECTION_EXCEPTIONS,
      rc_retryable_exceptions = CYPHER_RETRYABLE_EXCEPTIONS, rc_guard = Some guard,
      rc_query_contract_error = Some contract,
      rc_result_contract_error = map_option result_contract_error catalog\<rparr>"

subsection \<open>Answers of the production agents\<close>

definition answers_lists :: "retry_config \<Rightarrow> bool" where
  "answers_lists cfg \<longleftrightarrow> (\<forall>n q v. rc_execute cfg n q = Inr v \<longrightarrow> (\<exists>rows. fst (normalize_executed v) = PList rows))"

lemma tools_list:
  assumes "answers_lists cfg" and "tools cfg st = Inr st'" and "ra_error st' = None"
  shows "\<exists>rows. ra_result st' = PList rows"
proof -
  have "check_guard cfg st = None" "check_contract cfg st = None"
    using assms(2,3)
    by (auto simp: tools_def check_guard_def check_contract_def split: option.splits sum.splits if_splits)
  with assms(2) have "execute_and_classify cfg st = Inr st'" by (simp add: tools_def)
  then obtain v where "rc_execute cfg (ra_attempt_count st) (last (ra_messages st)) = Inr v"
    "ra_result st' = fst (normalize_executed v)"
    using assms(3)
    by (auto simp: execute_and_classify_def empty_outcome_def success_def Let_def
        split: sum.splits prod.splits if_splits option.splits)
  with assms(1) show ?thesis by (auto simp: answers_lists_def)
qed

lemma run_agent_list:
  assumes "answers_lists cfg"
  shows "run_agent cfg st = Inr st' \<Longrightarrow> ra_error st' = None \<Longrightarrow> \<exists>rows. ra_result st' = PList rows"
  using assms
proof (induction cfg st rule: run_agent.induct)
  case (1 cfg st)
  from run_agent_Inr[OF 1(2)] obtain st1 st2 where
    *: "agent cfg st = Inr st1" "tools cfg st1 = Inr st2"
    "should_retry st2 \<longrightarrow> run_agent cfg st2 = Inr st'" "\<not> should_retry st2 \<longrightarrow> st' = st2" .
  show ?case
  proof (cases "should_retry st2")
    case True
    from 1(1)[OF *(1,2) True _ 1(3,4)] *(3) True show ?thesis by blast
  next
    case False
    with *(4) tools_list[OF 1(4) *(2)] 1(3) show ?thesis by blast
  qed
qed

text \<open>An agent whose answers are lists of rows, as the production executors return them.\<close>

locale list_agent = query_agent +
  assumes invoke_list: "initial_retry_state st \<Longrightarrow> invoke st = Inr st' \<Longrightarrow> ra_error st' = None \<Longrightarrow>
    \<exists>rows. ra_result st' = PList rows"
begin

lemma answered_fields:
  assumes "initial_retry_state st" and "invoke st = Inr st'" and "ra_error st' = None"
  shows "\<exists>rows. ra_result st' = PList rows \<and>
    (\<forall>v \<in> set rows. \<forall>a \<in> set (ra_required_outputs st). has_field v a)"
proof -
  from invoke_list[OF assms] obtain rows where rows: "ra_result st' = PList rows" by blast
  show ?thesis
  proof (cases "rows = []")
    case True
    with rows show ?thesis by simp
  next
    case False
    with rows answered_rows[OF assms] show ?thesis by (auto simp: accepted_rows_def py_iter_def)
  qed
qed

end

lemma answers_lists_batches:
  "(\<And>n q v. rc_execute cfg n q = Inr v \<Longrightarrow> \<exists>items. v = make_batch items limit) \<Longrightarrow> answers_lists cfg"
  unfolding answers_lists_def using normalize_batch by (metis fst_conv)

lemma sql_answers_lists:
  "answers_lists (sql_agent_config generate_sql (execute_with_limit db limit) guard)"
  by (rule answers_lists_batches[of _ limit])
     (auto simp: sql_agent_config_def execute_with_limit_def rbind_Inr_iff)

lemma cypher_answers_lists: "answers_lists
   (cypher_agent_config generate_cypher (execute_with_limit db limit) neo4j_code guard contract catalog)"
  by (rule answers_lists_batches[of _ limit])
     (auto simp: cypher_agent_config_def wrap_execute_cypher_def execute_with_limit_def rbind_Inr_iff
       split: sum.splits if_splits)

interpretation sql_list: list_agent
  "run_agent (sql_agent_config generate_sql (execute_with_limit db limit) guard)"
  for generate_sql db limit guard
  by unfold_locales (rule run_agent_list[OF sql_answers_lists])

interpretation cypher_list: list_agent
  "run_agent (cypher_agent_config generate_cypher (execute_with_limit db limit) neo4j_code guard contract catalog)"
  for generate_cypher db limit neo4j_code guard contract catalog
  by unfold_locales (rule run_agent_list[OF cypher_answers_lists])

subsection \<open>The BOM path invariant\<close>

definition bom_row_ok :: "string list \<Rightarrow> int \<Rightarrow> pyval \<Rightarrow> bool" where
  "bom_row_ok required min_hops v \<longleftrightarrow> (\<exists>r depth ids. v = PDict r \<and> map_of r ''depth'' = Some (PInt depth) \<and>
     min_hops \<le> depth \<and> map_of r ''pathProductIds'' = Some (PList ids) \<and> int (length ids) = depth + 1 \<and>
     (''pathProductNames'' \<in> set required \<longrightarrow>
        (\<exists>names. map_of r ''pathProductNames'' = Some (PList names) \<and> length names = length ids)) \<and>
     (''quantityPerAssembly'' \<in> set required \<longrightarrow>
        (\<exists>qs. map_of r ''quantityPerAssembly'' = Some (PList qs) \<and> int (length qs) = depth)))"

lemma list_length_Some_iff: "list_length (dict_get r k PNone) = Some n \<longleftrightarrow>
   (\<exists>xs. map_of r k = Some (PList xs) \<and> length xs = n)"
  by (auto simp: list_length_def dict_get_def split: option.splits pyval.splits)

lemma dict_get_PInt_iff: "dict_get r k PNone = PInt n \<longleftrightarrow> map_of r k = Some (PInt n)"
  by (auto simp: dict_get_def split: option.splits)

lemma bom_row_violation_None:
  "bom_row_violation required min_hops i r = None \<longleftrightarrow> bom_row_ok required min_hops (PDict r)"
proof (cases "\<exists>depth. dict_get r ''depth'' PNone = PInt depth")
  case True
  then obtain depth where d: "dict_get r ''depth'' PNone = PInt depth" by blast
  then have d': "map_of r ''depth'' = Some (PInt depth)" by (simp add: dict_get_PInt_iff)
  define p n q where pnq: "p = list_length (dict_get r ''pathProductIds'' PNone)"
    "n = list_length (dict_get r ''pathProductNames'' PNone)"
    "q = list_length (dict_get r ''quantityPerAssembly'' PNone)"
  have "bom_row_ok required min_hops (PDict r) \<longleftrightarrow> min_hops \<le> depth \<and>
    (\<exists>l. p = Some l \<and> int l = depth + 1 \<and> (''pathProductNames'' \<in> set required \<longrightarrow> n = Some l) \<and>
      (''quantityPerAssembly'' \<in> set required \<longrightarrow> (\<exists>m. q = Some m \<and> int m = depth)))"
    by (auto simp: bom_row_ok_def d' pnq list_length_Some_iff)
  moreover have "bom_row_violation required min_hops i r = None \<longleftrightarrow> min_hops \<le> depth \<and>
    map_option int p = Some (depth + 1) \<and> (''pathProductNames'' \<in> set required \<longrightarrow> n = p) \<and>
    (''quantityPerAssembly'' \<in> set required \<longrightarrow> map_option int q = Some depth)"
    by (auto simp: bom_row_violation_def d Let_def simp flip: pnq)
  ultimately show ?thesis by auto
next
  case False
  then show ?thesis
    by (auto simp: bom_row_violation_def bom_row_ok_def dict_get_PInt_iff split: pyval.splits)
qed

lemma bom_path_violation_None:
  "bom_path_violation required min_hops i vs = Inr None \<longleftrightarrow> (\<forall>v \<in> set vs. bom_row_ok required min_hops v)"
proof (induction vs arbitrary: i)
  case Nil
  then show ?case by simp
next
  case (Cons v vs)
  show ?case
  proof (cases "\<exists>r. v = PDict r")
    case True
    then obtain r where v: "v = PDict r" by blast
    show ?thesis
      by (cases "bom_row_violation required min_hops i r")
         (use bom_row_violation_None[of required min_hops i r] Cons in \<open>auto simp: v\<close>)
  next
    case False
    then show ?thesis by (auto simp: bom_row_ok_def split: pyval.splits)
  qed
qed

lemma run_agent_contract:
  assumes "rc_result_contract_error cfg = Some contract"
  shows "run_agent cfg st = Inr st' \<Longrightarrow> ra_error st' = None \<Longrightarrow> py_truthy (ra_result st') \<Longrightarrow>
    \<exists>st1 vals. ra_required_outputs st1 = ra_required_outputs st \<and> py_iter (ra_result st') = Some vals \<and>
      contract vals st1 = Inr None"
  using assms
proof (induction cfg st rule: run_agent.induct)
  case (1 cfg st)
  from run_agent_Inr[OF 1(2)] obtain st1 st2 where
    *: "agent cfg st = Inr st1" "tools cfg st1 = Inr st2"
    "should_retry st2 \<longrightarrow> run_agent cfg st2 = Inr st'" "\<not> should_retry st2 \<longrightarrow> st' = st2" .
  show ?case
  proof (cases "should_retry st2")
    case True
    from 1(1)[OF *(1,2) True _ 1(3-5)] *(3) True step_frame(2)[OF *(1,2)] show ?thesis by auto
  next
    case False
    with *(4) tools_success[OF *(2)] 1(3-5) step_frame(1)[OF *(1,2)] show ?thesis by blast
  qed
qed

subsection \<open>Properties\<close>

text \<open>An executor with a non-negative row limit returns the first rows of the query's result, all of
  them when the batch is not marked truncated, and marks it exactly when rows are missing.\<close>

theorem batches_are_complete_or_flagged:
  assumes "0 \<le> limit" and "db n query = Inr rows"
  shows "\<exists>v. execute_with_limit db limit n query = Inr v \<and>
    normalize_executed v = (PList (map PDict (take (nat limit) rows)), nat limit < length rows)"
  using assms make_batch_rows[of limit rows] by (simp add: execute_with_limit_def normalize_executed_def)

theorem batches_are_complete_or_flagged_witness:
  "\<exists>v. execute_with_limit (\<lambda>n q. Inr [[(''id'', PInt 1)], [(''id'', PInt 2)]]) 1 1 ''q'' = Inr v \<and>
    normalize_executed v = (PList [PDict [(''id'', PInt 1)]], True)"
  using batches_are_complete_or_flagged[of 1 "\<lambda>n q. Inr [[(''id'', PInt 1)], [(''id'', PInt 2)]]" 1 "''q''"]
  by simp

lemma wrapped_timeout: "is_timeout \<lparr>exc_type = ''_CypherQueryTimeoutError'', exc_bases = [''Exception''],
   exc_text = t, exc_sqlstate = None\<rparr>"
proof -
  have "substring ''timeout'' (lower ''_CypherQueryTimeoutError'')" by code_simp
  then show ?thesis by (simp add: is_timeout_def)
qed

text \<open>A Neo4j timeout, which the driver reports only through the code of a \<open>ClientError\<close>, reaches the retry
  graph of the Cypher agent as a retryable timeout with the driver's text; a \<open>ClientError\<close> with another
  code reaches it unchanged.\<close>

theorem cypher_timeout_is_retried:
  assumes "execute n query = Inl e" and "exc_instance e [''ClientError'']"
    and "cfg = cypher_agent_config generate execute neo4j_code guard contract catalog"
  shows "\<exists>e'. rc_execute cfg n query = Inl e' \<and>
    (if neo4j_code e = Some TIMEOUT_ERROR_CODE
     then ra_retryable (execution_failure cfg st e') \<and> exc_text e' = exc_text e \<and>
       map_option qf_code (ra_failure (execution_failure cfg st e')) = Some ''QUERY_TIMEOUT''
     else e' = e)"
  using assms wrapped_timeout
  by (simp add: cypher_agent_config_def wrap_execute_cypher_def execution_failure_def exc_instance_def
      CYPHER_RETRYABLE_EXCEPTIONS_def make_query_failure_def Let_def)

definition example_timeout :: py_exception where
  "example_timeout = \<lparr>exc_type = ''ClientError'', exc_bases = [''Exception''], exc_text = ''slow'',
     exc_sqlstate = None\<rparr>"

definition example_timeout_config :: retry_config where
  "example_timeout_config = cypher_agent_config (\<lambda>st p f. Inr ''q'') (\<lambda>n q. Inl example_timeout)
     (\<lambda>e. Some TIMEOUT_ERROR_CODE) (\<lambda>q. Inr \<lparr>gr_allowed = True, gr_reason_code = None\<rparr>) (\<lambda>q r. None) None"

theorem cypher_timeout_is_retried_witness:
  "\<exists>e'. rc_execute example_timeout_config 1 ''q'' = Inl e' \<and> exc_text e' = ''slow'' \<and>
     ra_retryable (execution_failure example_timeout_config example_retry_state e')"
proof -
  have "exc_instance example_timeout [''ClientError'']" by code_simp
  from cypher_timeout_is_retried[OF refl this example_timeout_config_def, of 1 "''q''" example_retry_state]
  show ?thesis by (auto simp: example_timeout_def)
qed

text \<open>When the Cypher agent answers a query whose required outputs select the BOM path invariant of the
  catalog, every returned row has an integer depth of at least the minimum, one more path product than its
  depth, and, where they are required, as many names as products and as many quantities as its depth.\<close>

theorem cypher_answers_keep_path_invariant:
  assumes "cfg = cypher_agent_config generate execute neo4j_code guard contract (Some catalog)"
    and "run_agent cfg st = Inr st'" and "ra_error st' = None" and "ra_result st' = PList (v # vs)"
    and "result_invariant_for_outputs catalog ''graph'' (ra_required_outputs st) = Inr (Some (''bom_path_v1'', h))"
  shows "\<forall>w \<in> set (v # vs). bom_row_ok (ra_required_outputs st) h w"
proof -
  have "rc_result_contract_error cfg = Some (result_contract_error catalog)"
    by (simp add: assms(1) cypher_agent_config_def)
  from run_agent_contract[OF this assms(2,3)] assms(4) obtain st1 where
    "ra_required_outputs st1 = ra_required_outputs st" "result_contract_error catalog (v # vs) st1 = Inr None"
    by (auto simp: py_iter_def)
  with assms(5) have "bom_path_violation (ra_required_outputs st) h 0 (v # vs) = Inr None"
    by (simp add: result_contract_error_def)
  then show ?thesis by (simp only: bom_path_violation_None)
qed

definition example_path_catalog :: semantic_catalog where
  "example_path_catalog = \<lparr>ontology_version = ''v1'', by_tool = [], identity_aliases_by_tool = [],
     shared_join_aliases = [], entity_roles = [],
     result_shapes = [(''bom'', \<lparr>shape_id = ''bom'', shape_canonical = ''bom'', trigger_term_groups = [], shape_sources = [(Graph,
       \<lparr>rs_display_entities = [], rs_required_outputs = [''depth''], rs_row_grain = [],
        rs_completion_groups = [], rs_result_invariant = Some ''bom_path_v1'', rs_min_hops = Some 1\<rparr>)]\<rparr>)],
     transforms = []\<rparr>"

definition example_path_config :: retry_config where
  "example_path_config = cypher_agent_config (\<lambda>st p f. Inr ''MATCH'')
     (execute_with_limit (\<lambda>n q. Inr [[(''depth'', PInt 1), (''pathProductIds'', PList [PInt 1, PInt 5])]]) 10)
     (\<lambda>e. None) (\<lambda>q. Inr \<lparr>gr_allowed = True, gr_reason_code = None\<rparr>) (\<lambda>q r. None)
     (Some example_path_catalog)"

definition example_path_state :: retry_state where
  "example_path_state = example_retry_state\<lparr>ra_required_outputs := [''depth'']\<rparr>"

theorem cypher_answers_keep_path_invariant_witness:
  "bom_row_ok [''depth''] 1 (PDict [(''depth'', PInt 1), (''pathProductIds'', PList [PInt 1, PInt 5])])"
proof -
  let ?st' = "projr (run_agent example_path_config example_path_state)"
  have run: "run_agent example_path_config example_path_state = Inr ?st'" by code_simp
  have ok: "ra_error ?st' = None" "ra_result ?st' =
      PList [PDict [(''depth'', PInt 1), (''pathProductIds'', PList [PInt 1, PInt 5])]]" by code_simp+
  have inv: "result_invariant_for_outputs example_path_catalog ''graph''
      (ra_required_outputs example_path_state) = Inr (Some (''bom_path_v1'', 1))" by code_simp
  have "ra_required_outputs example_path_state = [''depth'']" by (simp add: example_path_state_def)
  with cypher_answers_keep_path_invariant[OF example_path_config_def run ok inv] show ?thesis by simp
qed

end
