(* ===== verification/Execute_Plan.thy ===== *)
theory Execute_Plan
  imports Planning Bindings Query_Execution
begin

text \<open>
  Execution of a validated plan in dependency waves (\<open>orchestrator/nodes/execute_plan.py\<close>).  The two
  agents are functions on retry states; the queries of a wave are independent of each other and are
  combined in plan order, as \<open>asyncio.gather\<close> returns them, with the first exception in that order.
\<close>

datatype plan_text =
    AgentText retry_text
  | DependencyFailed "string list"
  | InputBindingInvalid

record summary =
  su_result :: pyval
  su_error :: "plan_text option"
  su_attempts :: "attempt list"
  su_empty_reason :: "retry_empty_reason option"
  su_truncated :: bool
  su_failure :: "query_failure option"
  su_diagnostics :: "diagnostic list"

datatype execute_error =
    AgentRaised retry_escape
  | NoReadySubquery
  | UnknownTool string

definition failure_priority :: "failure_kind \<Rightarrow> nat" where
  "failure_priority k = (case k of Infrastructure \<Rightarrow> 3 | Internal \<Rightarrow> 2 | UserCorrectable \<Rightarrow> 1)"

definition failure_rank :: "query_failure \<Rightarrow> nat \<times> nat" where
  "failure_rank f = (failure_priority (qf_kind f), if qf_dependent_failure f then 0 else 1)"

definition rank_less :: "nat \<times> nat \<Rightarrow> nat \<times> nat \<Rightarrow> bool" where
  "rank_less a b \<longleftrightarrow> fst a < fst b \<or> (fst a = fst b \<and> snd a < snd b)"

definition prefer_failure :: "query_failure option \<Rightarrow> query_failure \<Rightarrow> query_failure" where
  "prefer_failure current candidate = (case current of
     None \<Rightarrow> candidate
   | Some f \<Rightarrow> if rank_less (failure_rank f) (failure_rank candidate) then candidate else f)"

definition result_summary :: "retry_state \<Rightarrow> summary" where
  "result_summary st = \<lparr>su_result = ra_result st, su_error = map_option AgentText (ra_error st),
     su_attempts = ra_attempts st, su_empty_reason = ra_empty_reason st,
     su_truncated = ra_truncated st, su_failure = ra_failure st, su_diagnostics = ra_diagnostics st\<rparr>"

definition dependency_failure :: "string list \<Rightarrow> summary" where
  "dependency_failure deps = \<lparr>su_result = PNone, su_error = Some (DependencyFailed deps),
     su_attempts = [], su_empty_reason = None, su_truncated = False,
     su_failure = Some (make_query_failure ''DEPENDENCY_FAILED'' ''dependency'' ''DEPENDENCY_FAILED''
       UserCorrectable False None True), su_diagnostics = []\<rparr>"

definition dependency_empty :: "retry_empty_reason option list \<Rightarrow> summary" where
  "dependency_empty reasons = \<lparr>su_result = PList [], su_error = None, su_attempts = [],
     su_empty_reason = Some (if Some Inconclusive \<in> set reasons then Inconclusive else NoData),
     su_truncated = False, su_failure = None, su_diagnostics = []\<rparr>"

definition input_binding_failure :: summary where
  "input_binding_failure = \<lparr>su_result = PNone, su_error = Some InputBindingInvalid, su_attempts = [],
     su_empty_reason = None, su_truncated = False,
     su_failure = Some (make_query_failure ''INPUT_BINDING_INVALID'' ''dependency'' ''QUERY_INVALID''
       Internal False None True), su_diagnostics = []\<rparr>"

type_synonym outcomes = "(string, summary) dict"

definition extract_input_bindings :: "subquery \<Rightarrow> outcomes \<Rightarrow> binding_error + (string, pyval list) dict" where
  "extract_input_bindings q outcomes =
     collect_input_bindings (inputBindings q) (map (\<lambda>(i, s). (i, su_result s)) outcomes)"

definition initial_state :: "subquery \<Rightarrow> string \<Rightarrow> pyval \<Rightarrow> string \<Rightarrow> (string, pyval list) dict
    \<Rightarrow> retry_state" where
  "initial_state q original_question entity schema_text bindings =
     \<lparr>ra_query = original_question,
      ra_source_scope = (if question q \<noteq> original_question then Some (question q) else None),
      ra_entity = entity, ra_schema = schema_text, ra_messages = [], ra_result = PNone,
      ra_error = None, ra_attempt_count = 0, ra_attempts = [], ra_empty_retried = False,
      ra_retryable = False, ra_empty_reason = None, ra_truncated = False,
      ra_required_outputs = requiredOutputs q, ra_input_bindings = bindings,
      ra_business_rules = generatorRules q, ra_failure = None, ra_diagnostics = [],
      ra_retry_feedback = None\<rparr>"

text \<open>The two agents with their schema texts, and the request.\<close>

record plan_env =
  pe_sql_agent :: "retry_state \<Rightarrow> retry_escape + retry_state"
  pe_cypher_agent :: "retry_state \<Rightarrow> retry_escape + retry_state"
  pe_sql_schema :: string
  pe_cypher_schema :: string
  pe_query :: string
  pe_entity :: pyval

definition agent_of :: "plan_env \<Rightarrow> tool_name \<Rightarrow> retry_state \<Rightarrow> retry_escape + retry_state" where
  "agent_of env t = (case t of Sql \<Rightarrow> pe_sql_agent env | Graph \<Rightarrow> pe_cypher_agent env)"

definition schema_of :: "plan_env \<Rightarrow> tool_name \<Rightarrow> string" where
  "schema_of env t = (case t of Sql \<Rightarrow> pe_sql_schema env | Graph \<Rightarrow> pe_cypher_schema env)"

definition lookup_tool :: "string \<Rightarrow> execute_error + tool_name" where
  "lookup_tool t = (if t = ''sql'' then Inr Sql else if t = ''graph'' then Inr Graph
     else Inl (UnknownTool t))"

definition dep_failed :: "outcomes \<Rightarrow> string \<Rightarrow> bool" where
  "dep_failed outcomes d = (case map_of outcomes d of
     Some s \<Rightarrow> su_error s \<noteq> None \<or> su_result s = PNone | None \<Rightarrow> False)"

definition dep_empty :: "outcomes \<Rightarrow> string \<Rightarrow> bool" where
  "dep_empty outcomes d = (case map_of outcomes d of
     Some s \<Rightarrow> su_result s = PList [] | None \<Rightarrow> False)"

definition empty_reason_of :: "outcomes \<Rightarrow> string \<Rightarrow> retry_empty_reason option" where
  "empty_reason_of outcomes d = Option.bind (map_of outcomes d) su_empty_reason"

text \<open>\<open>execute_subquery\<close>, for a query whose dependencies all have an outcome.\<close>

definition execute_subquery :: "plan_env \<Rightarrow> outcomes \<Rightarrow> subquery
    \<Rightarrow> execute_error + (string option \<times> summary)" where
  "execute_subquery env outcomes q =
     rbind (lookup_tool (tool q)) (\<lambda>t.
       let failed = filter (dep_failed outcomes) (dependsOn q);
           empty = filter (dep_empty outcomes) (dependsOn q)
       in if failed \<noteq> [] then Inr (None, dependency_failure failed)
          else if empty \<noteq> [] then Inr (None, dependency_empty (map (empty_reason_of outcomes) empty))
          else (case extract_input_bindings q outcomes of
              Inl _ \<Rightarrow> Inr (None, input_binding_failure)
            | Inr bindings \<Rightarrow>
                (case agent_of env t (initial_state q (pe_query env)
                        (if bindings \<noteq> [] then PNone else pe_entity env) (schema_of env t) bindings) of
                   Inl e \<Rightarrow> Inl (AgentRaised e)
                 | Inr st \<Rightarrow> Inr (Some (last (ra_messages st)), result_summary st))))"

record plan_output =
  po_sql_query :: "string option"
  po_sql_result :: "summary option"
  po_cypher_query :: "string option"
  po_graph_result :: "summary option"
  po_query_failure :: "query_failure option"
  po_invariant_retries :: nat

definition empty_output :: plan_output where
  "empty_output = \<lparr>po_sql_query = None, po_sql_result = None, po_cypher_query = None,
     po_graph_result = None, po_query_failure = None, po_invariant_retries = 0\<rparr>"

definition invariant_retries :: "summary \<Rightarrow> nat" where
  "invariant_retries s =
     length (filter (\<lambda>d. dg_stage d = ''result_invariant'' \<and> dg_retry_scheduled d) (su_diagnostics s))"

definition store_result :: "subquery \<Rightarrow> string option \<Rightarrow> summary \<Rightarrow> plan_output \<Rightarrow> plan_output" where
  "store_result q query_text s out =
     (let out1 = (case su_failure s of None \<Rightarrow> out
            | Some f \<Rightarrow> out\<lparr>po_query_failure := Some (prefer_failure (po_query_failure out) f)\<rparr>);
          out2 = (if tool q = ''sql''
            then out1\<lparr>po_sql_query := (if query_text = None then po_sql_query out1 else query_text),
                      po_sql_result := Some s\<rparr>
            else out1\<lparr>po_cypher_query := (if query_text = None then po_cypher_query out1 else query_text),
                      po_graph_result := Some s\<rparr>)
      in out2\<lparr>po_invariant_retries := po_invariant_retries out2 + invariant_retries s\<rparr>)"

definition store_wave :: "(subquery \<times> string option \<times> summary) list \<Rightarrow> outcomes \<times> plan_output
    \<Rightarrow> outcomes \<times> plan_output" where
  "store_wave = fold (\<lambda>(q, text, s) (outcomes, out).
     (AList.update (subquery_id q) s outcomes, store_result q text s out))"

definition ready_subqueries :: "outcomes \<Rightarrow> subquery list \<Rightarrow> subquery list" where
  "ready_subqueries outcomes pending =
     filter (\<lambda>q. list_all (\<lambda>d. d \<in> set (dict_keys outcomes)) (dependsOn q)) pending"

function plan_loop :: "plan_env \<Rightarrow> subquery list \<Rightarrow> outcomes \<times> plan_output
    \<Rightarrow> execute_error + (outcomes \<times> plan_output)" where
  "plan_loop env pending (outcomes, out) =
     (if pending = [] then Inr (outcomes, out)
      else let ready = ready_subqueries outcomes pending in
        if ready = [] then Inl NoReadySubquery
        else rbind (rmap (execute_subquery env outcomes) ready) (\<lambda>results.
          plan_loop env (filter (\<lambda>q. subquery_id q \<notin> set (ids ready)) pending)
            (store_wave (zip ready results) (outcomes, out))))"
  by pat_completeness auto
termination
proof (relation "measure (\<lambda>(_, pending, _). length pending)", goal_cases)
  case 1
  then show ?case by simp
next
  case (2 env pending outcomes out ready results)
  then obtain q where q: "q \<in> set ready" "q \<in> set pending"
    by (metis filter_is_subset list.set_intros(1) neq_Nil_conv ready_subqueries_def subsetD)
  then have "subquery_id q \<in> set (ids ready)" by simp
  with q(2) have "length (filter (\<lambda>q. subquery_id q \<notin> set (ids ready)) pending) < length pending"
    by (intro length_filter_less) auto
  then show ?case by simp
qed

declare plan_loop.simps [simp del]

definition plan_run :: "plan_env \<Rightarrow> subquery list \<Rightarrow> execute_error + (outcomes \<times> plan_output)" where
  "plan_run env subs = plan_loop env subs ([], empty_output)"

definition execute_plan :: "plan_env \<Rightarrow> subquery list \<Rightarrow> execute_error + plan_output" where
  "execute_plan env subs = rbind (plan_run env subs) (\<lambda>(_, out). Inr out)"

subsection \<open>What one query depends on\<close>

text \<open>Every binding of a validated query names one of its dependencies.\<close>

definition binds_dependencies :: "subquery \<Rightarrow> bool" where
  "binds_dependencies q \<longleftrightarrow> (\<forall>src \<in> snd ` set (inputBindings q). \<forall>d f.
     split_once CHR ''.'' src = Some (d, f) \<longrightarrow> d \<in> set (dependsOn q))"

lemma sources_wf_binds: "sources_wf subs q \<Longrightarrow> binds_dependencies q"
  by (force simp: sources_wf_def binds_dependencies_def list_all_iff binding_ok_def)

lemma map_of_results: "map_of (map (\<lambda>(i, s). (i, su_result s)) outcomes) d = map_option su_result (map_of outcomes d)"
  by (induction outcomes) auto

lemma collect_binding_cong:
  assumes "\<And>d f. split_once CHR ''.'' src = Some (d, f) \<Longrightarrow> map_of u d = map_of v d"
  shows "collect_binding u (k, src) acc = collect_binding v (k, src) acc"
  using assms by (auto simp: collect_binding_def split: option.splits)

lemma collect_cong:
  "(\<And>src d f. src \<in> snd ` set bs \<Longrightarrow> split_once CHR ''.'' src = Some (d, f) \<Longrightarrow> map_of u d = map_of v d) \<Longrightarrow>
     rfold (collect_binding u) bs acc = rfold (collect_binding v) bs acc"
proof (induction bs arbitrary: acc)
  case Nil
  then show ?case by simp
next
  case (Cons b bs)
  obtain k src where b: "b = (k, src)" by (cases b)
  have "collect_binding u b acc = collect_binding v b acc"
    unfolding b by (rule collect_binding_cong) (use Cons.prems[of src] in \<open>simp add: b\<close>)
  then show ?case by (simp, intro rbind_cong refl Cons.IH Cons.prems) auto
qed

lemma execute_subquery_cong:
  assumes "binds_dependencies q" and "\<And>d. d \<in> set (dependsOn q) \<Longrightarrow> map_of o1 d = map_of o2 d"
  shows "execute_subquery env o1 q = execute_subquery env o2 q"
proof -
  have f: "filter (dep_failed o1) (dependsOn q) = filter (dep_failed o2) (dependsOn q)"
    using assms(2) by (intro filter_cong) (auto simp: dep_failed_def)
  have e: "filter (dep_empty o1) (dependsOn q) = filter (dep_empty o2) (dependsOn q)"
    using assms(2) by (intro filter_cong) (auto simp: dep_empty_def)
  have m: "map (empty_reason_of o1) (filter (dep_empty o2) (dependsOn q)) =
      map (empty_reason_of o2) (filter (dep_empty o2) (dependsOn q))"
    using assms(2) by (intro map_cong) (auto simp: empty_reason_of_def)
  have x: "extract_input_bindings q o1 = extract_input_bindings q o2"
    unfolding extract_input_bindings_def collect_input_bindings_def
    using assms by (intro collect_cong) (auto simp: map_of_results binds_dependencies_def)
  show ?thesis by (simp only: execute_subquery_def Let_def f e m x)
qed

subsection \<open>One wave\<close>

lemma store_wave_outcomes:
  "distinct (map fst outcomes @ map (\<lambda>x. subquery_id (fst x)) xs) \<Longrightarrow>
     fst (store_wave xs (outcomes, out)) = outcomes @ map (\<lambda>(q, t, s). (subquery_id q, s)) xs"
proof (induction xs arbitrary: outcomes out)
  case Nil
  then show ?case by (simp add: store_wave_def)
next
  case (Cons x xs)
  obtain q t s where x: "x = (q, t, s)" by (cases x)
  have up: "AList.update (subquery_id q) s outcomes = outcomes @ [(subquery_id q, s)]"
    using Cons.prems by (intro update_new_key) (auto simp: x)
  have "fst (store_wave xs (outcomes @ [(subquery_id q, s)], store_result q t s out)) =
      (outcomes @ [(subquery_id q, s)]) @ map (\<lambda>(q, t, s). (subquery_id q, s)) xs"
    using Cons.prems by (intro Cons.IH) (auto simp: x)
  then show ?case by (simp add: x store_wave_def up)
qed

lemma store_wave_output:
  "snd (store_wave xs (outcomes, out)) = fold (\<lambda>(q, t, s). store_result q t s) xs out"
  by (induction xs arbitrary: outcomes out) (auto simp: store_wave_def)

definition result_of :: "plan_output \<Rightarrow> string \<Rightarrow> summary option" where
  "result_of out t = (if t = ''sql'' then po_sql_result out else po_graph_result out)"

definition query_of :: "plan_output \<Rightarrow> string \<Rightarrow> string option" where
  "query_of out t = (if t = ''sql'' then po_sql_query out else po_cypher_query out)"

text \<open>The reported failure is the gravest of the recorded ones.\<close>

definition gravest :: "query_failure set \<Rightarrow> query_failure option \<Rightarrow> bool" where
  "gravest fs r = (case r of
     None \<Rightarrow> fs = {}
   | Some f \<Rightarrow> f \<in> fs \<and> (\<forall>g \<in> fs. \<not> rank_less (failure_rank f) (failure_rank g)))"

lemma gravest_insert: "gravest fs r \<Longrightarrow> gravest (insert f fs) (Some (prefer_failure r f))"
  by (auto simp: gravest_def prefer_failure_def rank_less_def split: option.splits if_splits)

lemma store_result_simps:
  assumes "tool q \<in> set SUPPORTED_TOOLS" and "t' \<in> set SUPPORTED_TOOLS"
  shows "result_of (store_result q t s out) t' = (if t' = tool q then Some s else result_of out t')"
    and "query_of (store_result q t s out) t' =
      (if t' = tool q \<and> t \<noteq> None then t else query_of out t')"
  using assms by (auto simp: store_result_def result_of_def query_of_def Let_def SUPPORTED_TOOLS_def
      split: option.splits)

lemma store_result_failure:
  "po_query_failure (store_result q t s out) = (case su_failure s of
     None \<Rightarrow> po_query_failure out | Some f \<Rightarrow> Some (prefer_failure (po_query_failure out) f))"
  by (simp add: store_result_def Let_def split: option.splits)

definition failures_of :: "summary set \<Rightarrow> query_failure set" where
  "failures_of ss = {f. \<exists>s \<in> ss. su_failure s = Some f}"

lemma store_fold_failure:
  "gravest fs (po_query_failure out) \<Longrightarrow>
     gravest (fs \<union> failures_of ((\<lambda>(q, t, s). s) ` set xs))
       (po_query_failure (fold (\<lambda>(q, t, s). store_result q t s) xs out))"
proof (induction xs arbitrary: fs out)
  case Nil
  then show ?case by (simp add: failures_of_def)
next
  case (Cons x xs)
  obtain q t s where x: "x = (q, t, s)" by (cases x)
  let ?fs = "case su_failure s of None \<Rightarrow> fs | Some f \<Rightarrow> insert f fs"
  have "gravest ?fs (po_query_failure (store_result q t s out))"
    using Cons.prems by (auto simp: store_result_failure gravest_insert split: option.splits)
  from Cons.IH[OF this] have "gravest (?fs \<union> failures_of ((\<lambda>(q, t, s). s) ` set xs))
      (po_query_failure (fold (\<lambda>(q, t, s). store_result q t s) xs (store_result q t s out)))" .
  moreover have "?fs \<union> failures_of ((\<lambda>(q, t, s). s) ` set xs) =
      fs \<union> failures_of ((\<lambda>(q, t, s). s) ` set (x # xs))"
    by (auto simp: failures_of_def x split: option.splits)
  ultimately show ?case by (simp add: x)
qed

lemma store_fold_results:
  "\<forall>x \<in> set xs. tool (fst x) \<in> set SUPPORTED_TOOLS \<Longrightarrow> distinct (map (\<lambda>x. tool (fst x)) xs) \<Longrightarrow>
   t' \<in> set SUPPORTED_TOOLS \<Longrightarrow>
     result_of (fold (\<lambda>(q, t, s). store_result q t s) xs out) t' =
       (case find (\<lambda>x. tool (fst x) = t') xs of Some (q, t, s) \<Rightarrow> Some s | None \<Rightarrow> result_of out t')"
proof (induction xs arbitrary: out)
  case Nil
  then show ?case by simp
next
  case (Cons x xs)
  obtain q t s where x: "x = (q, t, s)" by (cases x)
  have "find (\<lambda>x. tool (fst x) = t') xs = None" if "t' = tool q"
    using Cons.prems(2) that by (auto simp: find_None_iff x image_iff)
  with Cons.IH[of "store_result q t s out"] Cons.prems show ?case
    by (auto simp: x store_result_simps split: option.splits)
qed


subsection \<open>The loop\<close>

text \<open>A recorded query: its outcome is what it gives on the recorded outcomes, and it is stored.\<close>

definition entry_ok :: "plan_env \<Rightarrow> outcomes \<Rightarrow> plan_output \<Rightarrow> subquery \<Rightarrow> bool" where
  "entry_ok env outcomes out q \<longleftrightarrow> set (dependsOn q) \<subseteq> fst ` set outcomes \<and>
     (\<exists>t s. execute_subquery env outcomes q = Inr (t, s) \<and> map_of outcomes (subquery_id q) = Some s \<and>
        result_of out (tool q) = Some s)"

definition plan_inv :: "plan_env \<Rightarrow> subquery list \<Rightarrow> outcomes \<Rightarrow> plan_output \<Rightarrow> bool" where
  "plan_inv env subs outcomes out \<longleftrightarrow> dict_ok outcomes \<and> fst ` set outcomes \<subseteq> set (ids subs) \<and>
     (\<forall>q \<in> set subs. subquery_id q \<in> fst ` set outcomes \<longrightarrow> entry_ok env outcomes out q) \<and>
     gravest (failures_of (snd ` set outcomes)) (po_query_failure out)"

lemma plan_inv_init: "plan_inv env subs [] empty_output"
  by (simp add: plan_inv_def gravest_def failures_of_def empty_output_def)

lemma map_of_wave:
  "x \<in> set xs \<Longrightarrow> distinct (map (\<lambda>x. subquery_id (fst x)) xs) \<Longrightarrow>
     map_of (map (\<lambda>(q, t, s). (subquery_id q, s)) xs) (subquery_id (fst x)) = Some (snd (snd x))"
  by (rule map_of_is_SomeI) (force simp: comp_def case_prod_beta)+

lemma find_tool_unique:
  "x \<in> set xs \<Longrightarrow> distinct (map (\<lambda>x. tool (fst x)) xs) \<Longrightarrow> find (\<lambda>y. tool (fst y) = tool (fst x)) xs = Some x"
  by (induction xs) (auto simp: image_iff)

definition plan_shape :: "subquery list \<Rightarrow> bool" where
  "plan_shape subs \<longleftrightarrow> distinct (ids subs) \<and> distinct (map tool subs) \<and> deps_before subs \<and>
     (\<forall>q \<in> set subs. tool q \<in> set SUPPORTED_TOOLS \<and> binds_dependencies q)"

lemma plan_wf_shape: "plan_wf allow_empty subs \<Longrightarrow> plan_shape subs"
  by (auto simp: plan_wf_def plan_shape_def list_all_iff item_wf_def route_item_wf_def sources_wf_binds)

lemma distinct_map_filter_in: "distinct (map f xs) \<Longrightarrow> distinct (map f (filter P xs))"
  by (induction xs) auto

text \<open>The outcomes after a wave.\<close>

definition wave_outcomes :: "outcomes \<Rightarrow> (subquery \<times> string option \<times> summary) list \<Rightarrow> outcomes" where
  "wave_outcomes outcomes xs = outcomes @ map (\<lambda>(q, t, s). (subquery_id q, s)) xs"

definition is_wave :: "plan_env \<Rightarrow> subquery list \<Rightarrow> outcomes
    \<Rightarrow> (subquery \<times> string option \<times> summary) list \<Rightarrow> bool" where
  "is_wave env subs outcomes xs \<longleftrightarrow> distinct (map (\<lambda>x. subquery_id (fst x)) xs) \<and>
     distinct (map (\<lambda>x. tool (fst x)) xs) \<and>
     (\<forall>(q, r) \<in> set xs. q \<in> set subs \<and> subquery_id q \<notin> fst ` set outcomes \<and>
        set (dependsOn q) \<subseteq> fst ` set outcomes \<and> execute_subquery env outcomes q = Inr r)"

lemma is_waveD:
  assumes "is_wave env subs outcomes xs" and "x \<in> set xs"
  shows "fst x \<in> set subs" "subquery_id (fst x) \<notin> fst ` set outcomes"
    "set (dependsOn (fst x)) \<subseteq> fst ` set outcomes" "execute_subquery env outcomes (fst x) = Inr (snd x)"
proof -
  obtain q r where x: "x = (q, r)" by (cases x)
  with assms have "q \<in> set subs \<and> subquery_id q \<notin> fst ` set outcomes \<and>
      set (dependsOn q) \<subseteq> fst ` set outcomes \<and> execute_subquery env outcomes q = Inr r"
    unfolding is_wave_def by blast
  then show "fst x \<in> set subs" "subquery_id (fst x) \<notin> fst ` set outcomes"
    "set (dependsOn (fst x)) \<subseteq> fst ` set outcomes" "execute_subquery env outcomes (fst x) = Inr (snd x)"
    by (simp_all add: x)
qed

lemma map_zip_fst: "length ys = length xs \<Longrightarrow> map (\<lambda>x. f (fst x)) (zip xs ys) = map f xs"
  by (induction ys xs rule: list_induct2) auto

lemma ready_is_wave:
  assumes shape: "plan_shape subs"
    and ready: "ready = ready_subqueries outcomes (filter (\<lambda>q. subquery_id q \<notin> fst ` set outcomes) subs)"
    and run: "rmap (execute_subquery env outcomes) ready = Inr results"
  shows "is_wave env subs outcomes (zip ready results)" "map fst (zip ready results) = ready"
proof -
  from run have all2: "list_all2 (\<lambda>q r. execute_subquery env outcomes q = Inr r) ready results"
    by (simp add: rmap_Inr_iff)
  then have len: "length results = length ready" by (simp add: list_all2_lengthD)
  then show "map fst (zip ready results) = ready" by simp
  have "distinct (ids ready)" "distinct (map tool ready)"
    using shape unfolding ready ready_subqueries_def plan_shape_def by (simp_all add: distinct_map_filter_in)
  moreover have "\<forall>q \<in> set ready. q \<in> set subs \<and> subquery_id q \<notin> fst ` set outcomes \<and>
      set (dependsOn q) \<subseteq> fst ` set outcomes"
    by (auto simp: ready ready_subqueries_def list_all_iff dict_keys_def)
  ultimately show "is_wave env subs outcomes (zip ready results)"
    unfolding is_wave_def map_zip_fst[OF len] using all2 by (auto simp: list_all2_iff dest: set_zip_leftD)
qed

lemma wave_keys:
  assumes "is_wave env subs outcomes xs" and "dict_ok outcomes"
  shows "distinct (map fst outcomes @ map (\<lambda>x. subquery_id (fst x)) xs)" "dict_ok (wave_outcomes outcomes xs)"
    and "fst ` set (wave_outcomes outcomes xs) = fst ` set outcomes \<union> (\<lambda>x. subquery_id (fst x)) ` set xs"
proof -
  have "fst ` set outcomes \<inter> (\<lambda>x. subquery_id (fst x)) ` set xs = {}"
  proof (rule equals0I)
    fix d
    assume "d \<in> fst ` set outcomes \<inter> (\<lambda>x. subquery_id (fst x)) ` set xs"
    then obtain x where "x \<in> set xs" "d = subquery_id (fst x)" "d \<in> fst ` set outcomes" by blast
    with is_waveD(2)[OF assms(1)] show False by metis
  qed
  with assms show d: "distinct (map fst outcomes @ map (\<lambda>x. subquery_id (fst x)) xs)"
    by (simp add: is_wave_def dict_ok_def)
  then show "dict_ok (wave_outcomes outcomes xs)"
    by (simp add: wave_outcomes_def dict_ok_def comp_def case_prod_beta)
  show "fst ` set (wave_outcomes outcomes xs) = fst ` set outcomes \<union> (\<lambda>x. subquery_id (fst x)) ` set xs"
    by (simp add: wave_outcomes_def image_Un image_image case_prod_beta)
qed

lemma wave_old:
  assumes "d \<in> fst ` set outcomes"
  shows "map_of (wave_outcomes outcomes xs) d = map_of outcomes d"
proof -
  from assms obtain v where "map_of outcomes d = Some v" by (metis map_of_eq_None_iff option.exhaust)
  then show ?thesis by (simp add: wave_outcomes_def map_add_def)
qed

lemma wave_same:
  assumes "plan_shape subs" and "q \<in> set subs" and "set (dependsOn q) \<subseteq> fst ` set outcomes"
  shows "execute_subquery env (wave_outcomes outcomes xs) q = execute_subquery env outcomes q"
proof (rule execute_subquery_cong)
  show "binds_dependencies q" using assms(1,2) by (simp add: plan_shape_def)
  show "map_of (wave_outcomes outcomes xs) d = map_of outcomes d" if "d \<in> set (dependsOn q)" for d
    using that assms(3) by (intro wave_old) blast
qed

lemma wave_results:
  assumes "is_wave env subs outcomes xs" and "plan_shape subs" and "t \<in> set SUPPORTED_TOOLS"
  shows "result_of (fold (\<lambda>(q, t, s). store_result q t s) xs out) t =
    (case find (\<lambda>x. tool (fst x) = t) xs of Some (q, t, s) \<Rightarrow> Some s | None \<Rightarrow> result_of out t)"
  using assms is_waveD(1)[OF assms(1)] by (intro store_fold_results) (auto simp: is_wave_def plan_shape_def)

lemma wave_entry_old:
  assumes wave: "is_wave env subs outcomes xs" and shape: "plan_shape subs" and ok: "dict_ok outcomes"
    and q: "q \<in> set subs" "subquery_id q \<in> fst ` set outcomes" and entry: "entry_ok env outcomes out q"
  shows "entry_ok env (wave_outcomes outcomes xs) (fold (\<lambda>(q, t, s). store_result q t s) xs out) q"
proof -
  have "tool (fst x) \<noteq> tool q" if "x \<in> set xs" for x
  proof -
    note x = is_waveD[OF wave that]
    with q have "fst x \<noteq> q" by auto
    with shape q(1) x(1) show ?thesis
      unfolding plan_shape_def distinct_map inj_on_def by blast
  qed
  then have "find (\<lambda>x. tool (fst x) = tool q) xs = None" by (auto simp: find_None_iff)
  with wave_results[OF wave shape] q(1) shape
  have "result_of (fold (\<lambda>(q, t, s). store_result q t s) xs out) (tool q) = result_of out (tool q)"
    by (simp add: plan_shape_def)
  with entry wave_same[OF shape q(1)] wave_old[OF q(2)] wave_keys(3)[OF wave ok] show ?thesis
    unfolding entry_ok_def by auto
qed

lemma wave_entry_new:
  assumes wave: "is_wave env subs outcomes xs" and shape: "plan_shape subs" and ok: "dict_ok outcomes"
    and x: "(q, t, s) \<in> set xs"
  shows "entry_ok env (wave_outcomes outcomes xs) (fold (\<lambda>(q, t, s). store_result q t s) xs out) q"
proof -
  have q: "q \<in> set subs" "subquery_id q \<notin> fst ` set outcomes"
    "set (dependsOn q) \<subseteq> fst ` set outcomes" "execute_subquery env outcomes q = Inr (t, s)"
    using is_waveD[OF wave x] by simp_all
  have "map_of (map (\<lambda>(q, t, s). (subquery_id q, s)) xs) (subquery_id q) = Some s"
    using map_of_wave[OF x] wave by (simp add: is_wave_def)
  moreover have "map_of outcomes (subquery_id q) = None" using q(2) by (simp add: map_of_eq_None_iff)
  ultimately have m: "map_of (wave_outcomes outcomes xs) (subquery_id q) = Some s"
    by (simp add: wave_outcomes_def map_add_def)
  have "find (\<lambda>x. tool (fst x) = tool q) xs = Some (q, t, s)"
    using find_tool_unique[OF x] wave by (simp add: is_wave_def)
  with wave_results[OF wave shape] q(1) shape
  have "result_of (fold (\<lambda>(q, t, s). store_result q t s) xs out) (tool q) = Some s"
    by (simp add: plan_shape_def)
  with m wave_same[OF shape q(1,3)] q(3,4) wave_keys(3)[OF wave ok] show ?thesis
    unfolding entry_ok_def by auto
qed

lemma wave_failures:
  assumes "gravest (failures_of (snd ` set outcomes)) (po_query_failure out)"
  shows "gravest (failures_of (snd ` set (wave_outcomes outcomes xs)))
    (po_query_failure (fold (\<lambda>(q, t, s). store_result q t s) xs out))"
proof -
  have "snd ` set (wave_outcomes outcomes xs) = snd ` set outcomes \<union> (\<lambda>(q, t, s). s) ` set xs"
    by (simp add: wave_outcomes_def image_Un image_image case_prod_beta)
  moreover have "failures_of (A \<union> B) = failures_of A \<union> failures_of B" for A B
    by (auto simp: failures_of_def)
  ultimately show ?thesis using store_fold_failure[OF assms, of xs] by simp
qed

lemma wave_inv:
  assumes shape: "plan_shape subs" and inv: "plan_inv env subs outcomes out"
    and wave: "is_wave env subs outcomes xs"
  shows "plan_inv env subs (wave_outcomes outcomes xs) (fold (\<lambda>(q, t, s). store_result q t s) xs out)"
proof -
  have ok: "dict_ok outcomes" using inv by (simp add: plan_inv_def)
  note keys = wave_keys[OF wave ok]
  have "entry_ok env (wave_outcomes outcomes xs) (fold (\<lambda>(q, t, s). store_result q t s) xs out) q"
    if q: "q \<in> set subs" and d: "subquery_id q \<in> fst ` set (wave_outcomes outcomes xs)" for q
  proof (cases "subquery_id q \<in> fst ` set outcomes")
    case True
    with inv q have "entry_ok env outcomes out q" unfolding plan_inv_def by blast
    from wave_entry_old[OF wave shape ok q True this] show ?thesis .
  next
    case False
    with d keys(3) obtain x where x: "x \<in> set xs" "subquery_id (fst x) = subquery_id q" by auto
    from is_waveD(1)[OF wave x(1)] have "fst x \<in> set subs" .
    with x(2) q shape have "fst x = q" unfolding plan_shape_def by (blast intro: distinct_ids_unique)
    then obtain t s where "x = (q, t, s)" by (metis prod.collapse)
    with x(1) show ?thesis by (intro wave_entry_new[OF wave shape ok]) simp
  qed
  moreover have "fst ` set (wave_outcomes outcomes xs) \<subseteq> set (ids subs)"
    using inv is_waveD(1)[OF wave] unfolding keys(3) by (auto simp: plan_inv_def)
  ultimately show ?thesis using inv keys(2) wave_failures[of outcomes out xs]
    unfolding plan_inv_def by blast
qed

lemma ready_nonempty:
  assumes "plan_shape subs" and "filter (\<lambda>q. subquery_id q \<notin> fst ` set outcomes) subs \<noteq> []"
  shows "ready_subqueries outcomes (filter (\<lambda>q. subquery_id q \<notin> fst ` set outcomes) subs) \<noteq> []"
proof -
  from assms(2) have "\<not> set (ids subs) \<subseteq> fst ` set outcomes" by (auto simp: filter_empty_conv)
  with deps_before_first_open[of "{}" subs "fst ` set outcomes"] assms(1) obtain q where
    "q \<in> set subs" "subquery_id q \<notin> fst ` set outcomes" "set (dependsOn q) \<subseteq> fst ` set outcomes"
    by (auto simp: plan_shape_def)
  then have "q \<in> set (ready_subqueries outcomes (filter (\<lambda>q. subquery_id q \<notin> fst ` set outcomes) subs))"
    by (auto simp: ready_subqueries_def list_all_iff dict_keys_def)
  then show ?thesis by force
qed

lemma store_wave_split:
  assumes "is_wave env subs outcomes xs" and "dict_ok outcomes"
  shows "store_wave xs (outcomes, out) =
    (wave_outcomes outcomes xs, fold (\<lambda>(q, t, s). store_result q t s) xs out)"
  using store_wave_outcomes[OF wave_keys(1)[OF assms], of out] store_wave_output[of xs outcomes out]
  by (simp add: prod_eq_iff wave_outcomes_def)

text \<open>One iteration of the loop, on the pending queries of a plan.\<close>

lemma plan_loop_step:
  assumes shape: "plan_shape subs" and inv: "plan_inv env subs outcomes out"
    and pending: "filter (\<lambda>q. subquery_id q \<notin> fst ` set outcomes) subs \<noteq> []" (is "?P outcomes \<noteq> []")
  obtains e where "plan_loop env (?P outcomes) (outcomes, out) = Inl e"
      "rmap (execute_subquery env outcomes) (ready_subqueries outcomes (?P outcomes)) = Inl e"
  | outcomes' out' where "plan_loop env (?P outcomes) (outcomes, out) = plan_loop env (?P outcomes') (outcomes', out')"
      "plan_inv env subs outcomes' out'" "length (?P outcomes') < length (?P outcomes)"
proof -
  let ?ready = "ready_subqueries outcomes (?P outcomes)"
  have ready: "?ready \<noteq> []" by (rule ready_nonempty[OF shape pending])
  show ?thesis
  proof (cases "rmap (execute_subquery env outcomes) ?ready")
    case (Inl e)
    with pending ready show ?thesis by (intro that(1)[of e]) (simp_all add: plan_loop.simps)
  next
    case (Inr results)
    let ?xs = "zip ?ready results"
    let ?o = "wave_outcomes outcomes ?xs" and ?out = "fold (\<lambda>(q, t, s). store_result q t s) ?xs out"
    note wave = ready_is_wave[OF shape refl Inr]
    have ok: "dict_ok outcomes" using inv by (simp add: plan_inv_def)
    have "(\<lambda>x. subquery_id (fst x)) ` set ?xs = set (ids (map fst ?xs))" by auto
    then have dom: "fst ` set ?o = fst ` set outcomes \<union> set (ids ?ready)"
      using wave_keys(3)[OF wave(1) ok] by (simp only: wave(2))
    then have rest: "filter (\<lambda>q. subquery_id q \<notin> set (ids ?ready)) (?P outcomes) = ?P ?o"
      by (auto intro: filter_cong)
    have "plan_loop env (?P outcomes) (outcomes, out) = plan_loop env (?P ?o) (?o, ?out)"
      using pending ready Inr store_wave_split[OF wave(1) ok, of out] rest
      by (simp add: plan_loop.simps[of env "?P outcomes"])
    moreover have "plan_inv env subs ?o ?out" by (rule wave_inv[OF shape inv wave(1)])
    moreover have "length (?P ?o) < length (?P outcomes)"
    proof -
      obtain q where q: "q \<in> set ?ready" using ready by (meson hd_in_set)
      then have "q \<in> set (?P outcomes)" by (auto simp: ready_subqueries_def)
      with q show ?thesis unfolding rest[symmetric] by (intro length_filter_less) auto
    qed
    ultimately show ?thesis by (rule that(2))
  qed
qed

lemma plan_loop_sound:
  assumes "plan_shape subs"
  shows "plan_inv env subs outcomes out \<Longrightarrow>
     plan_loop env (filter (\<lambda>q. subquery_id q \<notin> fst ` set outcomes) subs) (outcomes, out) = Inr (outcomes', out')
     \<Longrightarrow> plan_inv env subs outcomes' out' \<and> fst ` set outcomes' = set (ids subs)"
proof (induction "length (filter (\<lambda>q. subquery_id q \<notin> fst ` set outcomes) subs)" arbitrary: outcomes out
    rule: less_induct)
  case less
  show ?case
  proof (cases "filter (\<lambda>q. subquery_id q \<notin> fst ` set outcomes) subs = []")
    case True
    with less.prems have "outcomes' = outcomes" "out' = out" by (simp_all add: plan_loop.simps)
    with True less.prems(1) show ?thesis by (auto simp: plan_inv_def filter_empty_conv)
  next
    case False
    from assms less.prems(1) False show ?thesis
      by (rule plan_loop_step) (use less in auto)
  qed
qed

lemma execute_subquery_error:
  assumes "tool q \<in> set SUPPORTED_TOOLS" and "execute_subquery env outcomes q = Inl e"
  shows "\<exists>t st x. e = AgentRaised x \<and> agent_of env t st = Inl x"
  using assms by (auto simp: execute_subquery_def lookup_tool_def Let_def SUPPORTED_TOOLS_def
      split: if_splits sum.splits)

lemma plan_loop_error:
  assumes shape: "plan_shape subs"
  shows "plan_inv env subs outcomes out \<Longrightarrow>
     plan_loop env (filter (\<lambda>q. subquery_id q \<notin> fst ` set outcomes) subs) (outcomes, out) = Inl e
     \<Longrightarrow> \<exists>t st x. e = AgentRaised x \<and> agent_of env t st = Inl x"
proof (induction "length (filter (\<lambda>q. subquery_id q \<notin> fst ` set outcomes) subs)" arbitrary: outcomes out
    rule: less_induct)
  case less
  have "filter (\<lambda>q. subquery_id q \<notin> fst ` set outcomes) subs \<noteq> []"
    using less.prems(2) by (auto simp: plan_loop.simps)
  from shape less.prems(1) this show ?case
  proof (rule plan_loop_step)
    fix e'
    assume "plan_loop env (filter (\<lambda>q. subquery_id q \<notin> fst ` set outcomes) subs) (outcomes, out) = Inl e'"
      and run: "rmap (execute_subquery env outcomes)
        (ready_subqueries outcomes (filter (\<lambda>q. subquery_id q \<notin> fst ` set outcomes) subs)) = Inl e'"
    with less.prems(2) have "e' = e" by simp
    from rmap_Inl[OF run] obtain q where "q \<in> set subs" "execute_subquery env outcomes q = Inl e'"
      by (auto simp: ready_subqueries_def)
    with shape show ?thesis
      unfolding \<open>e' = e\<close> by (intro execute_subquery_error[of q]) (auto simp: plan_shape_def)
  qed (use less in auto)
qed

lemma plan_run_sound:
  assumes "plan_shape subs" and "plan_run env subs = Inr (outcomes, out)"
  shows "plan_inv env subs outcomes out \<and> fst ` set outcomes = set (ids subs)"
  using plan_loop_sound[OF assms(1) plan_inv_init, of env outcomes out] assms(2) by (simp add: plan_run_def)

lemma plan_run_error:
  assumes "plan_shape subs" and "plan_run env subs = Inl e"
  shows "\<exists>t st x. e = AgentRaised x \<and> agent_of env t st = Inl x"
  using plan_loop_error[OF assms(1) plan_inv_init, of env e] assms(2) by (simp add: plan_run_def)

subsection \<open>Plans run by agents that keep their contract\<close>

lemma has_field_iff: "has_field v a \<longleftrightarrow> row_has a v"
  by (cases v) (auto simp: has_field_def row_has_def dict_keys_def map_of_eq_None_iff)

lemma initial_state_initial: "initial_retry_state (initial_state q text entity schema bs)"
  by (simp add: initial_retry_state_def initial_state_def)

lemma initial_state_required:
  "ra_required_outputs (initial_state q text entity schema bs) = requiredOutputs q"
  by (simp add: initial_state_def)

locale plan_agents =
  sql: list_agent "pe_sql_agent env" + cypher: list_agent "pe_cypher_agent env" for env :: plan_env
begin

lemma agent_answer:
  assumes "initial_retry_state st" and "agent_of env t st = Inr st'" and "ra_error st' = None"
  shows "\<exists>rows. ra_result st' = PList rows \<and>
    (\<forall>v \<in> set rows. \<forall>a \<in> set (ra_required_outputs st). has_field v a)"
proof (cases t)
  case Sql
  with assms(2) have "pe_sql_agent env st = Inr st'" by (simp add: agent_of_def)
  from sql.answered_fields[OF assms(1) this assms(3)] show ?thesis .
next
  case Graph
  with assms(2) have "pe_cypher_agent env st = Inr st'" by (simp add: agent_of_def)
  from cypher.answered_fields[OF assms(1) this assms(3)] show ?thesis .
qed

lemma executed_answer:
  assumes run: "execute_subquery env outcomes p = Inr (text, s)" and ok: "su_error s = None"
  shows "\<exists>rows. su_result s = PList rows \<and>
    (\<forall>v \<in> set rows. \<forall>a \<in> set (requiredOutputs p). has_field v a)"
proof (cases "su_result s = PList []")
  case True
  then show ?thesis by simp
next
  case False
  with run ok obtain t bs entity schema st' where
    asked: "agent_of env t (initial_state p (pe_query env) entity schema bs) = Inr st'" "s = result_summary st'"
    by (auto simp: execute_subquery_def rbind_Inr_iff Let_def dependency_failure_def dependency_empty_def
        input_binding_failure_def split: if_splits sum.splits)
  with ok have "ra_error st' = None" by (simp add: result_summary_def)
  from agent_answer[OF initial_state_initial asked(1) this] asked(2) show ?thesis
    by (simp add: result_summary_def initial_state_required)
qed

lemma bindings_project:
  assumes wf: "plan_wf a subs" and inv: "plan_inv env subs outcomes out"
    and dom: "fst ` set outcomes = set (ids subs)" and q: "q \<in> set subs"
    and ok: "filter (dep_failed outcomes) (dependsOn q) = []"
  shows "extract_input_bindings q outcomes = Inr (map (\<lambda>(k, src).
    (k, bound_values (map (\<lambda>(i, s). (i, su_result s)) outcomes) src)) (inputBindings q))"
proof -
  let ?up = "map (\<lambda>(i, s). (i, su_result s)) outcomes"
  have q_wf: "sources_wf subs q" "dict_ok (inputBindings q)"
    using wf q by (auto simp: plan_wf_def list_all_iff item_wf_def route_item_wf_def)
  have "bindable ?up src" if src: "src \<in> snd ` set (inputBindings q)" for src
  proof -
    from q_wf(1) src have "binding_ok subs q src" by (auto simp: sources_wf_def list_all_iff)
    then obtain d f p where split: "split_once CHR ''.'' src = Some (d, f)" and d: "d \<in> set (dependsOn q)"
      and p: "p \<in> set subs" "subquery_id p = d" "f \<in> set (requiredOutputs p)"
      by (auto simp: binding_ok_def list_ex_iff split: option.splits)
    with inv dom obtain t s where s: "execute_subquery env outcomes p = Inr (t, s)" "map_of outcomes d = Some s"
      unfolding plan_inv_def entry_ok_def by (metis image_eqI set_map)
    with ok d have "su_error s = None" by (auto simp: filter_empty_conv dep_failed_def)
    from executed_answer[OF s(1) this] obtain rows where rows: "su_result s = PList rows"
      "\<forall>v \<in> set rows. \<forall>a \<in> set (requiredOutputs p). has_field v a" by blast
    with split s(2) p(3) show ?thesis by (auto simp: bindable_def map_of_results has_field_iff)
  qed
  then show ?thesis unfolding extract_input_bindings_def collect_input_bindings_Inr_iff[OF q_wf(2)] by blast
qed

lemma bindings_never_invalid:
  assumes "plan_wf a subs" and "plan_run env subs = Inr (outcomes, out)" and "q \<in> set subs"
    and "map_of outcomes (subquery_id q) = Some s"
  shows "su_error s \<noteq> Some InputBindingInvalid"
proof -
  from plan_run_sound[OF plan_wf_shape[OF assms(1)] assms(2)] have
    inv: "plan_inv env subs outcomes out" and dom: "fst ` set outcomes = set (ids subs)" by auto
  with assms(3,4) obtain t where t: "execute_subquery env outcomes q = Inr (t, s)"
    unfolding plan_inv_def entry_ok_def by (metis image_eqI option.inject set_map)
  note proj = bindings_project[OF assms(1) inv dom assms(3)]
  show ?thesis
  proof (cases "filter (dep_failed outcomes) (dependsOn q) = []")
    case True
    with t proj[OF True] show ?thesis
      by (auto simp: execute_subquery_def rbind_Inr_iff Let_def dependency_empty_def result_summary_def
          split: if_splits sum.splits)
  next
    case False
    with t show ?thesis
      by (auto simp: execute_subquery_def rbind_Inr_iff Let_def dependency_failure_def)
  qed
qed

end

text \<open>The production wiring of \<open>orchestrator/graph.py\<close>: both agents on their executors.\<close>

record production =
  pr_generate_sql :: generator
  pr_generate_cypher :: generator
  pr_sql_db :: database
  pr_graph_db :: database
  pr_sql_guard :: guard
  pr_cypher_guard :: guard
  pr_neo4j_code :: "py_exception \<Rightarrow> string option"
  pr_cypher_contract :: "string \<Rightarrow> string list \<Rightarrow> string option"
  pr_catalog :: "semantic_catalog option"
  pr_row_limit :: int
  pr_sql_schema :: string
  pr_cypher_schema :: string

definition sql_production :: "production \<Rightarrow> retry_state \<Rightarrow> retry_escape + retry_state" where
  "sql_production p = run_agent (sql_agent_config (pr_generate_sql p)
     (execute_with_limit (pr_sql_db p) (pr_row_limit p)) (pr_sql_guard p))"

definition cypher_production :: "production \<Rightarrow> retry_state \<Rightarrow> retry_escape + retry_state" where
  "cypher_production p = run_agent (cypher_agent_config (pr_generate_cypher p)
     (execute_with_limit (pr_graph_db p) (pr_row_limit p)) (pr_neo4j_code p) (pr_cypher_guard p)
     (pr_cypher_contract p) (pr_catalog p))"

definition production_env :: "production \<Rightarrow> string \<Rightarrow> pyval \<Rightarrow> plan_env" where
  "production_env p query entity = \<lparr>pe_sql_agent = sql_production p, pe_cypher_agent = cypher_production p,
     pe_sql_schema = pr_sql_schema p, pe_cypher_schema = pr_cypher_schema p, pe_query = query,
     pe_entity = entity\<rparr>"

interpretation prod: plan_agents "production_env p query entity" for p query entity
  unfolding plan_agents_def
  using sql_list.list_agent_axioms cypher_list.list_agent_axioms
  by (simp add: production_env_def sql_production_def cypher_production_def)

subsection \<open>Properties\<close>

lemma plan_run_total:
  assumes "plan_wf a subs" and "\<And>t st. \<exists>st'. agent_of env t st = Inr st'"
  shows "\<exists>r. plan_run env subs = Inr r"
proof (cases "plan_run env subs")
  case (Inl e)
  from plan_run_error[OF plan_wf_shape[OF assms(1)] Inl] assms(2) show ?thesis by (metis sum.distinct(1))
qed blast

lemma plan_entry:
  assumes "plan_wf a subs" and "plan_run env subs = Inr (outcomes, out)" and "q \<in> set subs"
  shows "\<exists>t s. execute_subquery env outcomes q = Inr (t, s) \<and> map_of outcomes (subquery_id q) = Some s \<and>
    result_of out (tool q) = Some s"
  using plan_run_sound[OF plan_wf_shape[OF assms(1)] assms(2)] assms(3)
  unfolding plan_inv_def entry_ok_def by (metis image_eqI set_map)

text \<open>A production system whose graph database fails, and one that answers.\<close>

definition example_production :: "(py_exception + row list) \<Rightarrow> production" where
  "example_production answer = \<lparr>pr_generate_sql = (\<lambda>st p f. Inr ''SELECT''),
     pr_generate_cypher = (\<lambda>st p f. Inr ''MATCH''), pr_sql_db = (\<lambda>n q. Inr [[(''componentId'', PInt 5)]]),
     pr_graph_db = (\<lambda>n q. answer), pr_sql_guard = (\<lambda>q. Inr \<lparr>gr_allowed = True, gr_reason_code = None\<rparr>),
     pr_cypher_guard = (\<lambda>q. Inr \<lparr>gr_allowed = True, gr_reason_code = None\<rparr>), pr_neo4j_code = (\<lambda>e. None),
     pr_cypher_contract = (\<lambda>q r. None), pr_catalog = None, pr_row_limit = 200, pr_sql_schema = [],
     pr_cypher_schema = []\<rparr>"

definition example_env :: "(py_exception + row list) \<Rightarrow> plan_env" where
  "example_env answer = production_env (example_production answer) ''q'' PNone"

definition example_outage :: "py_exception + row list" where
  "example_outage = Inl \<lparr>exc_type = ''ServiceUnavailable'', exc_bases = [''Exception''], exc_text = [],
     exc_sqlstate = None\<rparr>"

definition example_plan_run :: "(py_exception + row list) \<Rightarrow> outcomes \<times> plan_output" where
  "example_plan_run answer = projr (plan_run (example_env answer) [example_graph, example_sql])"

lemma example_runs:
  "plan_run (example_env example_outage) [example_graph, example_sql] =
     Inr (fst (example_plan_run example_outage), snd (example_plan_run example_outage))"
  "plan_run (example_env (Inr [[(''componentId'', PInt 5)]])) [example_graph, example_sql] =
     Inr (fst (example_plan_run (Inr [[(''componentId'', PInt 5)]])),
          snd (example_plan_run (Inr [[(''componentId'', PInt 5)]])))"
  by code_simp+



text \<open>C10: After \<open>execute_plan\<close> on a validated plan every subquery has exactly one outcome, it is the outcome that
  the subquery gives on the recorded outcomes of its dependencies, whatever the waves were, and the result field
  of the subquery's source holds it.\<close>

theorem execute_plan_outcomes:
  assumes "plan_wf a subs" and "plan_run env subs = Inr (outcomes, out)"
  shows "set (dict_keys outcomes) = set (ids subs) \<and> distinct (dict_keys outcomes) \<and>
    (\<forall>q \<in> set subs. \<exists>t s. execute_subquery env outcomes q = Inr (t, s) \<and>
       map_of outcomes (subquery_id q) = Some s \<and> result_of out (tool q) = Some s)"
  using plan_run_sound[OF plan_wf_shape[OF assms(1)] assms(2)] plan_entry[OF assms]
  by (simp add: plan_inv_def dict_ok_def dict_keys_def)

theorem execute_plan_outcomes_witness:
  "set (dict_keys (fst (example_plan_run example_outage))) = set [''g'', ''s'']"
  using execute_plan_outcomes[OF example_plan_wf example_runs(1)]
  by (simp add: example_graph_def example_sql_def)

text \<open>A subquery with a failed dependency is never sent to its agent: its outcome is the dependency failure
  that lists exactly the failed dependencies, and it is reported as a dependent failure.\<close>

theorem failed_dependency_skips:
  assumes "plan_wf a subs" and "plan_run env subs = Inr (outcomes, out)" and "q \<in> set subs"
    and "d \<in> set (dependsOn q)" and "map_of outcomes d = Some s" and "su_error s \<noteq> None"
  shows "\<exists>ds. map_of outcomes (subquery_id q) = Some (dependency_failure ds) \<and> d \<in> set ds \<and>
    set ds \<subseteq> set (dependsOn q) \<and> (\<forall>x \<in> set ds. dep_failed outcomes x)"
proof -
  have "d \<in> set (filter (dep_failed outcomes) (dependsOn q))" using assms(4-6) by (simp add: dep_failed_def)
  moreover from this plan_entry[OF assms(1-3)] have
    "map_of outcomes (subquery_id q) = Some (dependency_failure (filter (dep_failed outcomes) (dependsOn q)))"
    by (auto simp: execute_subquery_def rbind_Inr_iff Let_def filter_empty_conv split: if_splits)
  ultimately show ?thesis by (intro exI[of _ "filter (dep_failed outcomes) (dependsOn q)"]) auto
qed

theorem failed_dependency_skips_witness:
  "\<exists>ds. map_of (fst (example_plan_run example_outage)) ''s'' = Some (dependency_failure ds) \<and> ''g'' \<in> set ds"
proof -
  let ?o = "fst (example_plan_run example_outage)"
  obtain s where "map_of ?o ''g'' = Some s" "su_error s \<noteq> None"
  proof
    show "map_of ?o ''g'' = Some (the (map_of ?o ''g''))" by code_simp
    show "su_error (the (map_of ?o ''g'')) \<noteq> None" by code_simp
  qed
  moreover have "''g'' \<in> set (dependsOn example_sql)" "example_sql \<in> set [example_graph, example_sql]"
    "subquery_id example_sql = ''s''" by (simp_all add: example_sql_def)
  ultimately show ?thesis
    using failed_dependency_skips[OF example_plan_wf example_runs(1), of example_sql "''g''" s] by auto
qed

text \<open>C9: With the production agents, a validated plan never fails on its input bindings: whenever the
  dependencies of a subquery answered, each of its bindings receives the dependency's column in row order.\<close>

theorem production_bindings_never_fail:
  assumes "plan_wf a subs" and "plan_run (production_env p query entity) subs = Inr (outcomes, out)"
    and "q \<in> set subs"
  shows "(\<forall>s. map_of outcomes (subquery_id q) = Some s \<longrightarrow> su_error s \<noteq> Some InputBindingInvalid) \<and>
    (filter (dep_failed outcomes) (dependsOn q) = [] \<longrightarrow> extract_input_bindings q outcomes =
       Inr (map (\<lambda>(k, src). (k, bound_values (map (\<lambda>(i, s). (i, su_result s)) outcomes) src))
         (inputBindings q)))"
  using plan_run_sound[OF plan_wf_shape[OF assms(1)] assms(2)] prod.bindings_project[OF assms(1) _ _ assms(3)]
    prod.bindings_never_invalid[OF assms(1-3)]
  by blast

theorem production_bindings_never_fail_witness:
  "extract_input_bindings example_sql (fst (example_plan_run (Inr [[(''componentId'', PInt 5)]]))) =
     Inr [(''componentIds'', [PInt 5])]"
proof -
  let ?o = "fst (example_plan_run (Inr [[(''componentId'', PInt 5)]]))"
  have "filter (dep_failed ?o) (dependsOn example_sql) = []" by code_simp
  moreover have "map (\<lambda>(k, src). (k, bound_values (map (\<lambda>(i, s). (i, su_result s)) ?o) src))
      (inputBindings example_sql) = [(''componentIds'', [PInt 5])]" by code_simp
  ultimately show ?thesis
    using production_bindings_never_fail[OF example_plan_wf example_runs(2)[unfolded example_env_def], of example_sql]
    by auto
qed

text \<open>C11: The failure that \<open>execute_plan\<close> reports is one of the recorded failures and none of them is graver:
  infrastructure before internal before user-correctable, real before dependent.\<close>

theorem execute_plan_reports_gravest_failure:
  assumes "plan_wf a subs" and "plan_run env subs = Inr (outcomes, out)"
  shows "gravest (failures_of (snd ` set outcomes)) (po_query_failure out)"
  using plan_run_sound[OF plan_wf_shape[OF assms(1)] assms(2)] by (simp add: plan_inv_def)

theorem execute_plan_reports_gravest_failure_witness:
  "gravest (failures_of (snd ` set (fst (example_plan_run example_outage))))
     (po_query_failure (snd (example_plan_run example_outage))) \<and>
   map_option qf_kind (po_query_failure (snd (example_plan_run example_outage))) = Some Infrastructure"
proof -
  have "map_option qf_kind (po_query_failure (snd (example_plan_run example_outage))) = Some Infrastructure"
    by code_simp
  with execute_plan_reports_gravest_failure[OF example_plan_wf example_runs(1)] show ?thesis by simp
qed

end
