(* ===== verification/Py_Decimal.thy ===== *)
theory Py_Decimal
  imports Py_Prelude
begin

text \<open>
  The part of Python's \<open>decimal\<close> module that the sources use, in the default context: 28
  significant digits, \<open>ROUND_HALF_EVEN\<close>, exponents between -999999 and 999999, with
  \<open>InvalidOperation\<close> and \<open>Overflow\<close> trapped.  A finite value is a coefficient and an
  exponent; only its value is observed by the sources, so an operation on a zero operand may keep
  another exponent than the library would choose.
\<close>

datatype decimal_error = InvalidOperation | Overflow

definition dec_prec :: int where "dec_prec = 28"
definition dec_Emax :: int where "dec_Emax = 999999"
definition dec_Etop :: int where "dec_Etop = dec_Emax - dec_prec + 1"
definition dec_Etiny :: int where "dec_Etiny = - 999999 - dec_prec + 1"

fun ndigits :: "nat \<Rightarrow> nat" where
  "ndigits n = (if n < 10 then 1 else Suc (ndigits (n div 10)))"

declare ndigits.simps [simp del]

definition coef_digits :: "int \<Rightarrow> int" where
  "coef_digits c = int (ndigits (nat \<bar>c\<bar>))"

text \<open>The same count on integers, for evaluation.\<close>

function idigits :: "int \<Rightarrow> int" where
  "idigits n = (if n < 10 then 1 else 1 + idigits (n div 10))"
  by auto
termination by (relation "measure nat") auto

declare idigits.simps [simp del]

lemma idigits_ndigits: "idigits (int n) = int (ndigits n)"
proof (induction n rule: ndigits.induct)
  case (1 n)
  then show ?case
    using zdiv_int[of n 10] by (simp add: ndigits.simps[of n] idigits.simps[of "int n"])
qed

lemma coef_digits_code [code]: "coef_digits c = idigits \<bar>c\<bar>"
  using idigits_ndigits[of "nat \<bar>c\<bar>"] by (simp add: coef_digits_def)

text \<open>Division rounded to the nearest integer, ties to even.\<close>

definition round_half_even :: "int \<Rightarrow> int \<Rightarrow> int" where
  "round_half_even n m = (let q = n div m; r = n mod m in
     if 2 * r < m then q else if m < 2 * r then q + 1 else if even q then q else q + 1)"

text \<open>The final step of every arithmetic operation: fit the exact result into the context.\<close>

definition dec_fix :: "int \<Rightarrow> int \<Rightarrow> decimal_error + decimal" where
  "dec_fix c e =
     (if c = 0 then Inr (Dec 0 (min (max e dec_Etiny) dec_Emax))
      else let emin = coef_digits c + e - dec_prec in
        if dec_Etop < emin then Inl Overflow
        else let emin = max emin dec_Etiny in
          if e < emin
          then let c' = round_half_even c (10 ^ nat (emin - e)) in
            if dec_prec < coef_digits c'
            then if dec_Etop < emin + 1 then Inl Overflow else Inr (Dec (c' div 10) (emin + 1))
            else Inr (Dec c' emin)
          else Inr (Dec c e))"

text \<open>Operations on finite values; the sources check finiteness first.\<close>

fun dec_mult :: "decimal \<Rightarrow> decimal \<Rightarrow> decimal_error + decimal" where
  "dec_mult (Dec c e) (Dec d f) = dec_fix (c * d) (e + f)"
| "dec_mult _ _ = Inl InvalidOperation"

fun dec_add :: "decimal \<Rightarrow> decimal \<Rightarrow> decimal_error + decimal" where
  "dec_add (Dec c e) (Dec d f) =
     (let g = min e f in dec_fix (c * 10 ^ nat (e - g) + d * 10 ^ nat (f - g)) g)"
| "dec_add _ _ = Inl InvalidOperation"

fun dec_sub :: "decimal \<Rightarrow> decimal \<Rightarrow> decimal_error + decimal" where
  "dec_sub x (Dec d f) = dec_add x (Dec (- d) f)"
| "dec_sub _ _ = Inl InvalidOperation"

fun dec_quantize :: "decimal \<Rightarrow> int \<Rightarrow> decimal_error + decimal" where
  "dec_quantize (Dec c e) q =
     (if c = 0 then Inr (Dec 0 q)
      else if dec_prec < coef_digits c + e - q then Inl InvalidOperation
      else let c' = (if q \<le> e then c * 10 ^ nat (e - q) else round_half_even c (10 ^ nat (q - e))) in
        if dec_prec < coef_digits c' then Inl InvalidOperation else Inr (Dec c' q))"
| "dec_quantize _ _ = Inl InvalidOperation"

fun dec_finite :: "decimal \<Rightarrow> bool" where
  "dec_finite (Dec _ _) = True"
| "dec_finite _ = False"

definition dec_le :: "decimal \<Rightarrow> decimal \<Rightarrow> bool" where
  "dec_le x y \<longleftrightarrow> dec_value x \<le> dec_value y"

definition dec_eq :: "decimal \<Rightarrow> decimal \<Rightarrow> bool" where
  "dec_eq x y \<longleftrightarrow> dec_value x = dec_value y"

subsection \<open>Decimal(str)\<close>

fun digits_value :: "nat \<Rightarrow> string \<Rightarrow> nat" where
  "digits_value acc [] = acc"
| "digits_value acc (c # cs) = digits_value (10 * acc + (code c - 48)) cs"

definition signed :: "string \<Rightarrow> int \<times> string" where
  "signed s = (case s of
     c # r \<Rightarrow> if c = CHR ''-'' then (-1, r) else if c = CHR ''+'' then (1, r) else (1, s)
   | [] \<Rightarrow> (1, s))"

definition parse_exponent :: "string \<Rightarrow> int option" where
  "parse_exponent s = (case s of
     [] \<Rightarrow> Some 0
   | c # r \<Rightarrow>
       if ascii_upper c \<noteq> CHR ''E'' then None
       else (case signed r of (sg, ds) \<Rightarrow>
         if ds = [] \<or> \<not> list_all is_digit ds then None else Some (sg * int (digits_value 0 ds))))"

definition parse_finite :: "int \<Rightarrow> string \<Rightarrow> decimal option" where
  "parse_finite sg s =
     (let ip = takeWhile is_digit s; r = dropWhile is_digit s;
          fp = (case r of c # r' \<Rightarrow> if c = CHR ''.'' then takeWhile is_digit r' else [] | [] \<Rightarrow> []);
          r2 = (case r of c # r' \<Rightarrow> if c = CHR ''.'' then dropWhile is_digit r' else r | [] \<Rightarrow> [])
      in if ip = [] \<and> fp = [] then None
         else (case parse_exponent r2 of
             None \<Rightarrow> None
           | Some x \<Rightarrow>
               let c = int (digits_value 0 (ip @ fp)); e = x - int (length fp) in
               if coef_digits c + e - 1 > 999999999999999999 \<or> e < - 1999999999999999997 then None
               else Some (Dec (sg * c) e)))"

definition parse_special :: "int \<Rightarrow> string \<Rightarrow> decimal option" where
  "parse_special sg s = (let u = map ascii_upper s in
     if u = ''INF'' \<or> u = ''INFINITY'' then Some (DInf (sg < 0))
     else if take 3 u = ''NAN'' \<and> list_all is_digit (drop 3 u) then Some DNaN
     else if take 4 u = ''SNAN'' \<and> list_all is_digit (drop 4 u) then Some DNaN
     else None)"

text \<open>\<open>None\<close> is the \<open>InvalidOperation\<close> that the constructor raises on malformed text.\<close>

definition decimal_of_string :: "string \<Rightarrow> decimal option" where
  "decimal_of_string s =
     (case signed (filter (\<lambda>c. c \<noteq> CHR ''_'') (strip s)) of (sg, r) \<Rightarrow>
        (case parse_finite sg r of Some d \<Rightarrow> Some d | None \<Rightarrow> parse_special sg r))"

subsection \<open>Values\<close>

lemma pow10_pos [simp]: "0 < pow10 e"
  by (simp add: pow10_def)

lemma pow10_nonzero [simp]: "pow10 e \<noteq> 0"
  by (simp add: pow10_def)

lemma pow10_add: "pow10 (a + b) = pow10 a * pow10 b"
  by (simp add: pow10_def power_int_add)

lemma pow10_0 [simp]: "pow10 0 = 1"
  by (simp add: pow10_def)

lemma pow10_nat: "0 \<le> k \<Longrightarrow> pow10 k = of_int (10 ^ nat k)"
  by (simp add: pow10_def power_int_def)

lemma pow10_shift: "e \<le> f \<Longrightarrow> pow10 f = of_int (10 ^ nat (f - e)) * pow10 e"
  using pow10_add[of "f - e" e] pow10_nat[of "f - e"] by simp

lemma round_half_even_error:
  assumes "0 < m"
  shows "\<bar>2 * (round_half_even n m * m - n)\<bar> \<le> m"
proof -
  obtain q r where qr: "q = n div m" "r = n mod m" by blast
  then have n: "n = q * m + r" by simp
  have r: "0 \<le> r" "r < m" using assms qr by simp_all
  have "round_half_even n m = q \<and> 2 * r \<le> m \<or> round_half_even n m = q + 1 \<and> m \<le> 2 * r"
    by (auto simp: round_half_even_def Let_def simp flip: qr)
  with r show ?thesis by (auto simp: n algebra_simps)
qed

lemma round_half_even_exact: "0 < m \<Longrightarrow> round_half_even (n * m) m = n"
  by (simp add: round_half_even_def)

lemma round_half_even_neg_iff:
  assumes "0 < m" and "0 \<le> n"
  shows "0 \<le> round_half_even n m"
  using assms pos_imp_zdiv_nonneg_iff[of m n] by (auto simp: round_half_even_def Let_def)

lemma ndigits_bounds: "n < 10 ^ ndigits n \<and> (0 < n \<longrightarrow> 10 ^ (ndigits n - 1) \<le> n)"
proof (induction n rule: ndigits.induct)
  case (1 n)
  show ?case
  proof (cases "n < 10")
    case True
    then show ?thesis by (simp add: ndigits.simps[of n])
  next
    case False
    obtain k where k: "ndigits (n div 10) = Suc k"
      using ndigits.simps[of "n div 10"] by (metis One_nat_def)
    from 1 False have ih: "n div 10 < 10 ^ Suc k" "10 ^ k \<le> n div 10" by (auto simp: k)
    then have "n < 10 ^ Suc (Suc k)" "10 ^ Suc k \<le> n" by auto
    with False show ?thesis by (simp add: ndigits.simps[of n] k)
  qed
qed

lemma coef_digits_lower: "c \<noteq> 0 \<Longrightarrow> 10 ^ nat (coef_digits c - 1) \<le> \<bar>c\<bar>"
proof -
  assume "c \<noteq> 0"
  with ndigits_bounds[of "nat \<bar>c\<bar>"] have "10 ^ (ndigits (nat \<bar>c\<bar>) - 1) \<le> nat \<bar>c\<bar>" by simp
  then have "int (10 ^ (ndigits (nat \<bar>c\<bar>) - 1)) \<le> \<bar>c\<bar>" by linarith
  moreover have "nat (coef_digits c - 1) = ndigits (nat \<bar>c\<bar>) - 1"
    by (simp add: coef_digits_def nat_diff_distrib')
  ultimately show ?thesis by simp
qed

lemma coef_digits_pos: "1 \<le> coef_digits c"
  by (simp add: coef_digits_def ndigits.simps[of "nat \<bar>c\<bar>"])

lemma dec_fix_finite: "dec_fix c e = Inr d \<Longrightarrow> dec_finite d"
  by (auto simp: dec_fix_def Let_def split: if_splits)

lemma dec_mult_finite: "dec_mult x y = Inr z \<Longrightarrow> dec_finite z"
  by (cases x; cases y) (auto dest: dec_fix_finite)

lemma dec_add_finite: "dec_add x y = Inr z \<Longrightarrow> dec_finite z"
  by (cases x; cases y) (auto simp: Let_def dest: dec_fix_finite)

lemma dec_fix_exact:
  assumes "coef_digits c \<le> dec_prec" and "dec_Etiny \<le> e" and "coef_digits c + e - dec_prec \<le> dec_Etop"
    and "e \<le> dec_Emax"
  shows "dec_fix c e = Inr (Dec c e)"
  using assms by (auto simp: dec_fix_def Let_def)

lemma abs_near: "\<bar>2 * (x - c)\<bar> \<le> K \<Longrightarrow> 0 < K \<Longrightarrow> \<bar>c\<bar> < N \<Longrightarrow> \<bar>x\<bar> < N + K" for x c K N :: int
  by (auto simp: abs_if split: if_splits)

lemma abs_double_diff: "\<bar>2 * x - 2 * c\<bar> = 2 * \<bar>x - c\<bar>" for x c :: rat
  by (auto simp: abs_if)

text \<open>A rounded coefficient has at most one digit too many, and then it is a power of ten.\<close>

lemma rounded_coefficient:
  assumes "k = nat (coef_digits c - dec_prec)" and "dec_prec < coef_digits c"
    and "r = round_half_even c (10 ^ k)" and "dec_prec < coef_digits r"
  shows "\<bar>r\<bar> = 10 ^ 28"
proof -
  have k: "ndigits (nat \<bar>c\<bar>) = 28 + k" using assms(1,2) unfolding coef_digits_def dec_prec_def by linarith
  have "nat \<bar>c\<bar> < 10 ^ (28 + k)" using ndigits_bounds[of "nat \<bar>c\<bar>"] by (simp only: k)
  then have c: "\<bar>c\<bar> < 10 ^ 28 * 10 ^ k"
    by (metis abs_ge_zero nat_less_iff of_nat_numeral of_nat_power power_add)
  have "\<bar>2 * (r * 10 ^ k - c)\<bar> \<le> 10 ^ k"
    using round_half_even_error[of "10 ^ k" c] by (simp add: assms(3))
  moreover have "(0::int) < 10 ^ k" by simp
  ultimately have "\<bar>r * 10 ^ k\<bar> < 10 ^ 28 * 10 ^ k + 10 ^ k" by (rule abs_near[OF _ _ c])
  then have "\<bar>r\<bar> * 10 ^ k < (10 ^ 28 + 1) * 10 ^ k" by (simp add: abs_mult algebra_simps)
  then have upper: "\<bar>r\<bar> \<le> 10 ^ 28" by (simp add: mult_less_cancel_right)
  have "r \<noteq> 0" using assms(4) by (auto simp: coef_digits_def dec_prec_def ndigits.simps[of 0])
  then have "10 ^ nat (coef_digits r - 1) \<le> \<bar>r\<bar>" by (rule coef_digits_lower)
  moreover have "(10::int) ^ 28 \<le> 10 ^ nat (coef_digits r - 1)"
    using assms(4) by (intro power_increasing) (simp_all add: dec_prec_def)
  ultimately show ?thesis using upper by linarith
qed

lemma dec_fix_value:
  assumes fx: "dec_fix c e = Inr d" and normal: "dec_Etiny \<le> coef_digits c + e - dec_prec"
    and "dec_prec < coef_digits c" and "k = nat (coef_digits c - dec_prec)"
  shows "dec_value d = of_int (round_half_even c (10 ^ k)) * 10 ^ k * pow10 e"
proof -
  define r where "r = round_half_even c (10 ^ k)"
  have c0: "c \<noteq> 0" using assms(3) by (auto simp: coef_digits_def dec_prec_def ndigits.simps[of 0])
  have e': "max (coef_digits c + e - dec_prec) dec_Etiny = e + int k"
    using normal assms(3,4) by simp
  have sum: "pow10 (e + int k) = 10 ^ k * pow10 e"
    by (simp add: pow10_add pow10_nat mult.commute)
  show ?thesis
  proof (cases "dec_prec < coef_digits r")
    case True
    then have "\<bar>r\<bar> = 10 ^ 28" by (rule rounded_coefficient[OF assms(4,3) r_def])
    then have "10 dvd r" by (metis dvd_abs_iff dvd_power zero_less_numeral)
    then have "of_int (r div 10) * 10 = (of_int r :: rat)"
      by (metis dvd_div_mult_self of_int_mult of_int_numeral)
    moreover from True fx e' c0 assms(3) have "d = Dec (r div 10) (e + int k + 1)"
      by (auto simp: dec_fix_def Let_def r_def split: if_splits)
    moreover have "pow10 (e + int k + 1) = 10 * pow10 (e + int k)"
      by (simp add: pow10_add pow10_nat)
    ultimately show ?thesis by (simp add: sum r_def mult.assoc[symmetric])
  next
    case False
    with fx e' c0 assms(3) have "d = Dec r (e + int k)"
      by (auto simp: dec_fix_def Let_def r_def split: if_splits)
    then show ?thesis by (simp add: sum r_def)
  qed
qed

text \<open>Outside the subnormal range a rounded result is within \<open>5 / 10 ^ 28\<close> of the exact one.\<close>

lemma dec_fix_error:
  assumes fx: "dec_fix c e = Inr d" and normal: "dec_Etiny \<le> coef_digits c + e - dec_prec"
  shows "\<bar>dec_value d - of_int c * pow10 e\<bar> \<le> 5 / 10 ^ 28 * \<bar>of_int c * pow10 e\<bar>"
proof (cases "dec_prec < coef_digits c")
  case False
  with fx normal have "dec_value d = of_int c * pow10 e"
    by (auto simp: dec_fix_def Let_def split: if_splits)
  then show ?thesis by simp
next
  case True
  define k where "k = nat (coef_digits c - dec_prec)"
  define r where "r = round_half_even c (10 ^ k)"
  have c0: "c \<noteq> 0" using True by (auto simp: coef_digits_def dec_prec_def ndigits.simps[of 0])
  have "nat (coef_digits c - 1) = 27 + k" using True by (simp add: k_def dec_prec_def)
  with coef_digits_lower[OF c0] have low: "10 ^ 27 * 10 ^ k \<le> \<bar>c\<bar>" by (simp add: power_add)
  have "\<bar>2 * (r * 10 ^ k - c)\<bar> \<le> 10 ^ k"
    using round_half_even_error[of "10 ^ k" c] by (simp add: r_def)
  then have "10 ^ 27 * \<bar>2 * (r * 10 ^ k - c)\<bar> \<le> 10 ^ 27 * 10 ^ k"
    by (rule mult_left_mono) simp
  with low have "10 ^ 27 * \<bar>2 * (r * 10 ^ k - c)\<bar> \<le> \<bar>c\<bar>" by (rule order_trans[rotated])
  then have "of_int (10 ^ 27 * \<bar>2 * (r * 10 ^ k - c)\<bar>) \<le> (of_int \<bar>c\<bar> :: rat)"
    by (simp only: of_int_le_iff)
  then have bound: "\<bar>of_int r * 10 ^ k - of_int c\<bar> \<le> 5 / 10 ^ 28 * (\<bar>of_int c\<bar> :: rat)"
    using abs_double_diff[of "of_int r * 10 ^ k" "of_int c"] by simp
  have "dec_value d - of_int c * pow10 e = (of_int r * 10 ^ k - of_int c) * pow10 e"
    using dec_fix_value[OF fx normal True k_def] by (simp add: r_def algebra_simps)
  then have "\<bar>dec_value d - of_int c * pow10 e\<bar> = \<bar>of_int r * 10 ^ k - of_int c\<bar> * pow10 e"
    by (simp add: abs_mult abs_of_pos)
  also have "\<dots> \<le> (5 / 10 ^ 28 * \<bar>of_int c\<bar>) * pow10 e"
    by (rule mult_right_mono[OF bound]) (simp add: less_imp_le)
  finally show ?thesis by (simp add: abs_mult abs_of_pos)
qed

end
