(* ===== verification/Bom_Shortage.thy ===== *)
theory Bom_Shortage
  imports Py_Decimal "HOL-Library.Product_Lexorder"
begin

text \<open>
  The formal transform \<open>bom_shortage_v1\<close> (\<open>orchestrator/bom_shortage.py\<close>): it checks every graph
  path row and every SQL stock row, adds up the demand of the distinct bill-of-material paths of
  each component, and reports the purchased components whose stock does not cover it.  Quantities
  are Python decimals with their 28-digit rounding; \<open>ValueError\<close>s carry their raise site, while
  a missing key and the two decimal signals are the other exceptions the code can raise.
\<close>

datatype bom_site =
    OutputScale
  | ProductionQty
  | GraphRow nat string
  | SqlRow nat string
  | SupplierNameConflict int
  | ComponentIdentityConflict int
  | PathQuantityConflict int "int list"
  | SeveralFinishedProducts
  | DuplicateSqlComponent int
  | DomainMismatch "int list" "int list"

datatype bom_error =
    BomValueError bom_site
  | BomKeyError string
  | BomDecimalError decimal_error

definition identifier_of :: "bom_site \<Rightarrow> pyval \<Rightarrow> bom_error + int" where
  "identifier_of site value = (case value of PInt n \<Rightarrow> Inr n | _ \<Rightarrow> Inl (BomValueError site))"

definition name_of :: "bom_site \<Rightarrow> pyval \<Rightarrow> bom_error + string" where
  "name_of site value = (case value of
     PStr s \<Rightarrow> if s = [] then Inl (BomValueError site) else Inr s
   | _ \<Rightarrow> Inl (BomValueError site))"

text \<open>\<open>Decimal(str(value))\<close>; \<open>None\<close> when the class or the text is refused.\<close>

definition decimal_of :: "pyval \<Rightarrow> decimal option" where
  "decimal_of value = (case value of
     PInt n \<Rightarrow> Some (Dec n 0)
   | PFloat (FFin _ c e) \<Rightarrow> Some (Dec c e)
   | PFloat (FInf neg) \<Rightarrow> Some (DInf neg)
   | PFloat FNaN \<Rightarrow> Some DNaN
   | PDec d \<Rightarrow> Some d
   | PStr s \<Rightarrow> decimal_of_string s
   | _ \<Rightarrow> None)"

definition decimal_arg :: "bool \<Rightarrow> bom_site \<Rightarrow> pyval \<Rightarrow> bom_error + decimal" where
  "decimal_arg positive site value = (case decimal_of value of
     None \<Rightarrow> Inl (BomValueError site)
   | Some d \<Rightarrow>
       if \<not> dec_finite d \<or> (positive \<and> dec_value d \<le> 0) then Inl (BomValueError site) else Inr d)"

definition lift_decimal :: "decimal_error + 'a \<Rightarrow> bom_error + 'a" where
  "lift_decimal r = (case r of Inl e \<Rightarrow> Inl (BomDecimalError e) | Inr x \<Rightarrow> Inr x)"

definition normalized :: "int \<Rightarrow> decimal \<Rightarrow> bom_error + decimal" where
  "normalized scale value = lift_decimal (dec_quantize value (- scale))"

definition require_fields :: "row \<Rightarrow> string list \<Rightarrow> bom_site \<Rightarrow> bom_error + unit" where
  "require_fields r fields site =
     (if set fields \<subseteq> set (dict_keys r) then Inr () else Inl (BomValueError site))"

definition getitem :: "row \<Rightarrow> string \<Rightarrow> bom_error + pyval" where
  "getitem r k = (case map_of r k of None \<Rightarrow> Inl (BomKeyError k) | Some v \<Rightarrow> Inr v)"

text \<open>The state of the loop over the graph rows; sets are lists without repetition.\<close>

type_synonym bom_path = "int \<times> int list"

record bom_component =
  bc_finished :: "int \<times> string"
  bc_name :: string
  bc_paths :: "(bom_path, decimal) dict"
  bc_suppliers :: "(int \<times> string) list"

record bom_state =
  components :: "(int, bom_component) dict"
  graph_domain :: "int list"
  supplier_names :: "(int, string) dict"
  finished_products :: "(int \<times> string) list"
  path_quantities :: "(bom_path, decimal list) dict"

definition init_bom_state :: bom_state where
  "init_bom_state = \<lparr>components = [], graph_domain = [], supplier_names = [],
     finished_products = [], path_quantities = []\<rparr>"

record bom_row =
  br_finished :: "int \<times> string"
  br_component :: int
  br_name :: string
  br_path :: "int list"
  br_quantities :: "decimal list"
  br_supplier :: "(int \<times> string) option"

definition read_path :: "nat \<Rightarrow> pyval \<Rightarrow> bom_error + int list" where
  "read_path i v = (case v of
     PList xs \<Rightarrow> rmap (identifier_of (GraphRow i ''pathProductIds'')) xs
   | _ \<Rightarrow> Inl (BomValueError (GraphRow i ''pathProductIds'')))"

definition read_quantities :: "nat \<Rightarrow> pyval \<Rightarrow> bom_error + decimal list" where
  "read_quantities i v = (case v of
     PList xs \<Rightarrow> rmap (decimal_arg True (GraphRow i ''quantityPerAssembly'')) xs
   | _ \<Rightarrow> Inl (BomValueError (GraphRow i ''quantityPerAssembly'')))"

definition read_depth :: "nat \<Rightarrow> pyval \<Rightarrow> bom_error + int" where
  "read_depth i v = (case v of
     PInt n \<Rightarrow> if n < 1 then Inl (BomValueError (GraphRow i ''depth'')) else Inr n
   | _ \<Rightarrow> Inl (BomValueError (GraphRow i ''depth'')))"

definition is_list :: "pyval \<Rightarrow> bool" where
  "is_list v = (case v of PList _ \<Rightarrow> True | _ \<Rightarrow> False)"

definition read_supplier :: "nat \<Rightarrow> pyval \<Rightarrow> pyval \<Rightarrow> bom_error + (int \<times> string) option" where
  "read_supplier i sid sname =
     (if (sid = PNone) \<noteq> (sname = PNone) then Inl (BomValueError (GraphRow i ''supplier''))
      else if sid = PNone then Inr None
      else rbind (identifier_of (GraphRow i ''supplierId'') sid) (\<lambda>n.
           rbind (name_of (GraphRow i ''supplierName'') sname) (\<lambda>s. Inr (Some (n, s)))))"

definition read_graph_row :: "string list \<Rightarrow> nat \<Rightarrow> row \<Rightarrow> bom_error + bom_row" where
  "read_graph_row required i r =
     rbind (require_fields r required (GraphRow i ''fields'')) (\<lambda>_.
     rbind (getitem r ''finishedProductId'') (\<lambda>v.
     rbind (identifier_of (GraphRow i ''finishedProductId'') v) (\<lambda>finished_id.
     rbind (getitem r ''finishedProductName'') (\<lambda>v.
     rbind (name_of (GraphRow i ''finishedProductName'') v) (\<lambda>finished_name.
     rbind (getitem r ''componentId'') (\<lambda>v.
     rbind (identifier_of (GraphRow i ''componentId'') v) (\<lambda>component_id.
     rbind (getitem r ''componentName'') (\<lambda>v.
     rbind (name_of (GraphRow i ''componentName'') v) (\<lambda>component_name.
     rbind (getitem r ''depth'') (\<lambda>v.
     rbind (read_depth i v) (\<lambda>depth.
     rbind (getitem r ''pathProductIds'') (\<lambda>raw_path.
     rbind (getitem r ''quantityPerAssembly'') (\<lambda>raw_quantities.
       if \<not> is_list raw_path then Inl (BomValueError (GraphRow i ''pathProductIds''))
       else if \<not> is_list raw_quantities then Inl (BomValueError (GraphRow i ''quantityPerAssembly''))
       else
     rbind (read_path i raw_path) (\<lambda>path.
     rbind (read_quantities i raw_quantities) (\<lambda>quantities.
       if length path \<noteq> length quantities + 1 then Inl (BomValueError (GraphRow i ''pathLength''))
       else if depth \<noteq> int (length quantities) then Inl (BomValueError (GraphRow i ''depthLength''))
       else if hd path \<noteq> finished_id \<or> last path \<noteq> component_id
       then Inl (BomValueError (GraphRow i ''pathEnds''))
       else
     rbind (getitem r ''supplierId'') (\<lambda>sid.
     rbind (getitem r ''supplierName'') (\<lambda>sname.
     rbind (read_supplier i sid sname) (\<lambda>supplier.
       Inr \<lparr>br_finished = (finished_id, finished_name), br_component = component_id,
            br_name = component_name, br_path = path, br_quantities = quantities,
            br_supplier = supplier\<rparr>))))))))))))))))))"

fun path_required :: "decimal \<Rightarrow> decimal list \<Rightarrow> bom_error + decimal" where
  "path_required acc [] = Inr acc"
| "path_required acc (q # qs) =
     rbind (lift_decimal (dec_mult acc q)) (\<lambda>acc'. path_required acc' qs)"

definition add_supplier :: "bom_row \<Rightarrow> bom_state \<Rightarrow> bom_error + bom_state" where
  "add_supplier b st = (case br_supplier b of
     None \<Rightarrow> Inr st
   | Some (sid, sname) \<Rightarrow>
       let names = setdefault sid sname (supplier_names st) in
       if map_of names sid \<noteq> Some sname then Inl (BomValueError (SupplierNameConflict sid))
       else Inr (st\<lparr>supplier_names := names\<rparr>))"

definition add_graph_row :: "decimal \<Rightarrow> bom_row \<Rightarrow> bom_state \<Rightarrow> bom_error + bom_state" where
  "add_graph_row production b st0 =
     rbind (add_supplier b (st0\<lparr>finished_products :=
              List.insert (br_finished b) (finished_products st0)\<rparr>)) (\<lambda>st.
       let fresh = \<lparr>bc_finished = br_finished b, bc_name = br_name b, bc_paths = [],
                    bc_suppliers = []\<rparr>;
           c = dict_get (components st) (br_component b) fresh
       in if (bc_finished c, bc_name c) \<noteq> (br_finished b, br_name b)
          then Inl (BomValueError (ComponentIdentityConflict (br_component b)))
          else
            let key = (br_component b, br_path b);
                quantities = setdefault key (br_quantities b) (path_quantities st)
            in if \<not> list_all2 dec_eq (dict_get quantities key []) (br_quantities b)
               then Inl (BomValueError (PathQuantityConflict (br_component b) (br_path b)))
               else rbind (path_required production (br_quantities b)) (\<lambda>required.
                 let c' = c\<lparr>bc_paths := setdefault key required (bc_paths c),
                            bc_suppliers := (case br_supplier b of None \<Rightarrow> bc_suppliers c
                              | Some s \<Rightarrow> List.insert s (bc_suppliers c))\<rparr>
                 in Inr (st\<lparr>components := AList.update (br_component b) c' (components st),
                            path_quantities := quantities,
                            graph_domain := List.insert (br_component b) (graph_domain st)\<rparr>)))"

definition graph_row :: "string list \<Rightarrow> decimal \<Rightarrow> nat \<times> row \<Rightarrow> bom_state \<Rightarrow> bom_error + bom_state" where
  "graph_row required production = (\<lambda>(i, r) st.
     rbind (read_graph_row required i r) (\<lambda>b. add_graph_row production b st))"

definition sql_row :: "string list \<Rightarrow> nat \<times> row \<Rightarrow> (int, bool \<times> decimal) dict
    \<Rightarrow> bom_error + (int, bool \<times> decimal) dict" where
  "sql_row required = (\<lambda>(i, r) by_component.
     rbind (require_fields r required (SqlRow i ''fields'')) (\<lambda>_.
     rbind (getitem r ''componentId'') (\<lambda>v.
     rbind (identifier_of (SqlRow i ''componentId'') v) (\<lambda>component_id.
       if map_of by_component component_id \<noteq> None
       then Inl (BomValueError (DuplicateSqlComponent component_id))
       else
     rbind (getitem r ''makeFlag'') (\<lambda>flag. (case flag of
         PBool make_flag \<Rightarrow>
           rbind (getitem r ''actualStock'') (\<lambda>v.
           rbind (decimal_arg False (SqlRow i ''actualStock'') v) (\<lambda>actual_stock.
             Inr (AList.update component_id (make_flag, actual_stock) by_component)))
       | _ \<Rightarrow> Inl (BomValueError (SqlRow i ''makeFlag''))))))))"

record shortage_row =
  sr_finished :: "int \<times> string"
  sr_production :: decimal
  sr_component :: int
  sr_name :: string
  sr_required :: decimal
  sr_stock :: decimal
  sr_shortage :: decimal
  sr_suppliers :: "(int \<times> string) list"

definition total_required :: "bom_component \<Rightarrow> bom_error + decimal" where
  "total_required c = rfold (\<lambda>p acc. lift_decimal (dec_add acc p)) (map snd (bc_paths c)) (Dec 0 0)"

text \<open>One component of the report: \<open>None\<close> when the loop skips it.\<close>

definition shortage_of :: "int \<Rightarrow> decimal \<Rightarrow> int \<times> bom_component \<Rightarrow> bool \<times> decimal
    \<Rightarrow> bom_error + shortage_row option" where
  "shortage_of scale production = (\<lambda>(component_id, c) (make_flag, actual_stock).
     if make_flag then Inr None
     else rbind (total_required c) (\<lambda>required.
          rbind (lift_decimal (dec_sub required actual_stock)) (\<lambda>difference.
            let shortage = (if dec_le (Dec 0 0) difference then difference else Dec 0 0) in
            if dec_value shortage = 0 then Inr None
            else rbind (normalized scale production) (\<lambda>p.
                 rbind (normalized scale required) (\<lambda>r.
                 rbind (normalized scale actual_stock) (\<lambda>a.
                 rbind (normalized scale shortage) (\<lambda>s.
                   Inr (Some \<lparr>sr_finished = bc_finished c, sr_production = p,
                     sr_component = component_id, sr_name = bc_name c, sr_required = r,
                     sr_stock = a, sr_shortage = s, sr_suppliers = sort (bc_suppliers c)\<rparr>))))))))"

definition shortage_step :: "int \<Rightarrow> decimal \<Rightarrow> (int, bool \<times> decimal) dict
    \<Rightarrow> int \<times> bom_component \<Rightarrow> shortage_row list \<Rightarrow> bom_error + shortage_row list" where
  "shortage_step scale production stock = (\<lambda>(component_id, c) acc.
     (case map_of stock component_id of
        None \<Rightarrow> Inl (BomKeyError ''component'')
      | Some s \<Rightarrow> rbind (shortage_of scale production (component_id, c) s) (\<lambda>r.
          Inr (case r of None \<Rightarrow> acc | Some x \<Rightarrow> acc @ [x]))))"

definition shortage_key :: "shortage_row \<Rightarrow> rat \<times> int" where
  "shortage_key r = (- dec_value (sr_shortage r), sr_component r)"

definition calculate_bom_shortages :: "row list \<Rightarrow> row list \<Rightarrow> pyval \<Rightarrow> int \<Rightarrow> string list
    \<Rightarrow> string list \<Rightarrow> bom_error + shortage_row list" where
  "calculate_bom_shortages graph_rows sql_rows production_qty scale required_graph required_sql =
     (if \<not> (0 \<le> scale \<and> scale \<le> 12) then Inl (BomValueError OutputScale)
      else rbind (decimal_arg True ProductionQty production_qty) (\<lambda>production.
           rbind (rfold (graph_row required_graph production) (enumerate 0 graph_rows)
                   init_bom_state) (\<lambda>st.
             if 1 < length (finished_products st) then Inl (BomValueError SeveralFinishedProducts)
             else rbind (rfold (sql_row required_sql) (enumerate 0 sql_rows) []) (\<lambda>stock.
               if set (graph_domain st) \<noteq> set (dict_keys stock)
               then Inl (BomValueError (DomainMismatch
                      (sort (filter (\<lambda>k. k \<notin> set (dict_keys stock)) (graph_domain st)))
                      (sort (filter (\<lambda>k. k \<notin> set (graph_domain st)) (dict_keys stock)))))
               else rbind (rfold (shortage_step scale production stock) (components st) [])
                      (\<lambda>results. Inr (sort_key shortage_key results))))))"

subsection \<open>What the graph loop accumulates\<close>

definition row_demand :: "decimal \<Rightarrow> bom_row \<Rightarrow> decimal" where
  "row_demand production b = projr (path_required production (br_quantities b))"

text \<open>The demand of a component: one entry per distinct path, the first row of a path counts.\<close>

definition demand_paths :: "decimal \<Rightarrow> int \<Rightarrow> bom_row list \<Rightarrow> (bom_path, decimal) dict" where
  "demand_paths production cid bs =
     fold (\<lambda>b d. if br_component b = cid
                  then setdefault (cid, br_path b) (row_demand production b) d else d) bs []"

definition component_ok :: "decimal \<Rightarrow> bom_row list \<Rightarrow> int \<Rightarrow> bom_component \<Rightarrow> bool" where
  "component_ok production bs cid c \<longleftrightarrow> bc_paths c = demand_paths production cid bs \<and>
     distinct (bc_suppliers c) \<and>
     (\<forall>s. s \<in> set (bc_suppliers c) \<longleftrightarrow> (\<exists>b \<in> set bs. br_component b = cid \<and> br_supplier b = Some s)) \<and>
     (\<forall>b \<in> set bs. br_component b = cid \<longrightarrow> bc_finished c = br_finished b \<and> bc_name c = br_name b)"

definition paths_agree :: "bom_row list \<Rightarrow> bom_state \<Rightarrow> bool" where
  "paths_agree bs st \<longleftrightarrow> (\<forall>b \<in> set bs. \<exists>qs. map_of (path_quantities st) (br_component b, br_path b) = Some qs
     \<and> list_all2 dec_eq qs (br_quantities b))"

definition bom_inv :: "decimal \<Rightarrow> bom_row list \<Rightarrow> bom_state \<Rightarrow> bool" where
  "bom_inv production bs st \<longleftrightarrow> dict_ok (components st) \<and>
     fst ` set (components st) = br_component ` set bs \<and>
     set (graph_domain st) = br_component ` set bs \<and>
     set (finished_products st) = br_finished ` set bs \<and> distinct (finished_products st) \<and>
     (\<forall>cid c. map_of (components st) cid = Some c \<longrightarrow> component_ok production bs cid c) \<and>
     paths_agree bs st \<and> (\<forall>b \<in> set bs. \<exists>q. path_required production (br_quantities b) = Inr q)"

lemma demand_paths_snoc:
  "demand_paths production cid (bs @ [b]) =
     (if br_component b = cid
      then setdefault (cid, br_path b) (row_demand production b) (demand_paths production cid bs)
      else demand_paths production cid bs)"
  by (simp add: demand_paths_def)

lemma demand_paths_absent: "cid \<notin> br_component ` set bs \<Longrightarrow> demand_paths production cid bs = []"
  by (induction bs rule: rev_induct) (auto simp: demand_paths_snoc demand_paths_def[of _ _ "[]"])

lemma bom_inv_init: "bom_inv production [] init_bom_state"
  by (simp add: bom_inv_def init_bom_state_def paths_agree_def)

lemma add_supplier_frame:
  "add_supplier b st = Inr st' \<Longrightarrow> \<exists>names. st' = st\<lparr>supplier_names := names\<rparr>"
  by (auto simp: add_supplier_def Let_def split: option.splits if_splits)
     (metis bom_state.surjective bom_state.update_convs(3))

text \<open>A successful step in one piece.\<close>

lemma add_graph_row_Inr:
  assumes "add_graph_row production b st = Inr st'"
  obtains names c required where
    "c = dict_get (components st) (br_component b)
       \<lparr>bc_finished = br_finished b, bc_name = br_name b, bc_paths = [], bc_suppliers = []\<rparr>"
    "bc_finished c = br_finished b" "bc_name c = br_name b"
    "list_all2 dec_eq (dict_get (setdefault (br_component b, br_path b) (br_quantities b)
       (path_quantities st)) (br_component b, br_path b) []) (br_quantities b)"
    "path_required production (br_quantities b) = Inr required"
    "st' = st\<lparr>finished_products := List.insert (br_finished b) (finished_products st),
       supplier_names := names,
       components := AList.update (br_component b)
         (c\<lparr>bc_paths := setdefault (br_component b, br_path b) required (bc_paths c),
            bc_suppliers := (case br_supplier b of None \<Rightarrow> bc_suppliers c
              | Some s \<Rightarrow> List.insert s (bc_suppliers c))\<rparr>) (components st),
       path_quantities := setdefault (br_component b, br_path b) (br_quantities b) (path_quantities st),
       graph_domain := List.insert (br_component b) (graph_domain st)\<rparr>"
proof -
  from assms obtain st1 where s1: "add_supplier b (st\<lparr>finished_products :=
      List.insert (br_finished b) (finished_products st)\<rparr>) = Inr st1"
    by (auto simp: add_graph_row_def rbind_Inr_iff)
  from add_supplier_frame[OF s1] obtain names where st1: "st1 = st\<lparr>finished_products :=
      List.insert (br_finished b) (finished_products st), supplier_names := names\<rparr>" by auto
  let ?c = "dict_get (components st) (br_component b)
    \<lparr>bc_finished = br_finished b, bc_name = br_name b, bc_paths = [], bc_suppliers = []\<rparr>"
  let ?qs = "setdefault (br_component b, br_path b) (br_quantities b) (path_quantities st)"
  from assms s1 have "bc_finished ?c = br_finished b \<and> bc_name ?c = br_name b \<and>
      list_all2 dec_eq (dict_get ?qs (br_component b, br_path b) []) (br_quantities b) \<and>
      (\<exists>required. path_required production (br_quantities b) = Inr required \<and>
        st' = st1\<lparr>components := AList.update (br_component b)
         (?c\<lparr>bc_paths := setdefault (br_component b, br_path b) required (bc_paths ?c),
            bc_suppliers := (case br_supplier b of None \<Rightarrow> bc_suppliers ?c
              | Some s \<Rightarrow> List.insert s (bc_suppliers ?c))\<rparr>) (components st),
       path_quantities := ?qs,
       graph_domain := List.insert (br_component b) (graph_domain st)\<rparr>)"
    by (auto simp: add_graph_row_def Let_def st1 rbind_Inr_iff cong: option.case_cong
        split: if_splits)
  then show thesis by (elim conjE exE) (rule that[of ?c _ names], simp_all add: st1)
qed

lemma component_ok_fresh:
  "cid \<notin> br_component ` set bs \<Longrightarrow> component_ok production bs cid
     \<lparr>bc_finished = f, bc_name = n, bc_paths = [], bc_suppliers = []\<rparr>"
  by (auto simp: component_ok_def demand_paths_absent)

lemma component_ok_other:
  "component_ok production bs cid c \<Longrightarrow> br_component b \<noteq> cid \<Longrightarrow>
     component_ok production (bs @ [b]) cid c"
  by (auto simp: component_ok_def demand_paths_snoc)

lemma component_ok_add:
  assumes "component_ok production bs (br_component b) c"
    and "bc_finished c = br_finished b" and "bc_name c = br_name b"
    and "path_required production (br_quantities b) = Inr required"
  shows "component_ok production (bs @ [b]) (br_component b)
    (c\<lparr>bc_paths := setdefault (br_component b, br_path b) required (bc_paths c),
       bc_suppliers := (case br_supplier b of None \<Rightarrow> bc_suppliers c
         | Some s \<Rightarrow> List.insert s (bc_suppliers c))\<rparr>)"
  using assms by (auto simp: component_ok_def demand_paths_snoc row_demand_def split: option.splits)

lemma paths_agree_add:
  assumes "paths_agree bs st"
    and "list_all2 dec_eq (dict_get (setdefault (br_component b, br_path b) (br_quantities b)
       (path_quantities st)) (br_component b, br_path b) []) (br_quantities b)"
    and "path_quantities st' = setdefault (br_component b, br_path b) (br_quantities b) (path_quantities st)"
  shows "paths_agree (bs @ [b]) st'"
proof -
  have old: "\<exists>qs. map_of (path_quantities st') (br_component x, br_path x) = Some qs
      \<and> list_all2 dec_eq qs (br_quantities x)" if "x \<in> set bs" for x
    using assms(1,3) that unfolding paths_agree_def by (fastforce simp: map_of_setdefault)
  have "\<exists>qs. map_of (path_quantities st') (br_component b, br_path b) = Some qs
      \<and> list_all2 dec_eq qs (br_quantities b)"
    using assms(2,3) by (auto simp: map_of_setdefault dict_get_def split: option.splits if_splits)
  with old show ?thesis by (auto simp: paths_agree_def)
qed

lemma bom_inv_step:
  assumes inv: "bom_inv production bs st" and step: "add_graph_row production b st = Inr st'"
  shows "bom_inv production (bs @ [b]) st'"
proof -
  from step obtain names c required where
    c: "c = dict_get (components st) (br_component b)
       \<lparr>bc_finished = br_finished b, bc_name = br_name b, bc_paths = [], bc_suppliers = []\<rparr>"
    and id: "bc_finished c = br_finished b" "bc_name c = br_name b"
    and qs: "list_all2 dec_eq (dict_get (setdefault (br_component b, br_path b) (br_quantities b)
       (path_quantities st)) (br_component b, br_path b) []) (br_quantities b)"
    and req: "path_required production (br_quantities b) = Inr required"
    and st': "st' = st\<lparr>finished_products := List.insert (br_finished b) (finished_products st),
       supplier_names := names,
       components := AList.update (br_component b)
         (c\<lparr>bc_paths := setdefault (br_component b, br_path b) required (bc_paths c),
            bc_suppliers := (case br_supplier b of None \<Rightarrow> bc_suppliers c
              | Some s \<Rightarrow> List.insert s (bc_suppliers c))\<rparr>) (components st),
       path_quantities := setdefault (br_component b, br_path b) (br_quantities b) (path_quantities st),
       graph_domain := List.insert (br_component b) (graph_domain st)\<rparr>"
    by (rule add_graph_row_Inr)
  have "component_ok production bs (br_component b) c"
  proof (cases "map_of (components st) (br_component b)")
    case None
    with inv have "br_component b \<notin> br_component ` set bs"
      by (auto simp: bom_inv_def map_of_eq_None_iff)
    with None show ?thesis by (simp add: c dict_get_def component_ok_fresh)
  next
    case (Some d)
    with inv show ?thesis by (auto simp: c dict_get_def bom_inv_def)
  qed
  note new = component_ok_add[OF this id req]
  have "component_ok production (bs @ [b]) cid d" if "map_of (components st') cid = Some d" for cid d
    using that new inv by (cases "cid = br_component b")
      (auto simp: st' update_conv bom_inv_def intro: component_ok_other)
  moreover have "paths_agree (bs @ [b]) st'"
    using inv qs by (intro paths_agree_add[of bs st]) (auto simp: bom_inv_def st')
  moreover have "dict_ok (components st')" using inv by (simp add: st' bom_inv_def)
  moreover have "fst ` set (components st') = insert (br_component b) (fst ` set (components st))"
    by (auto simp: st' update_keys simp flip: set_map)
  ultimately show ?thesis using inv req by (auto simp: bom_inv_def st')
qed

lemma bom_inv_rfold:
  "bom_inv production bs st \<Longrightarrow> rfold (add_graph_row production) xs st = Inr st' \<Longrightarrow>
     bom_inv production (bs @ xs) st'"
proof (induction xs arbitrary: bs st)
  case Nil
  then show ?case by simp
next
  case (Cons x xs)
  from Cons.prems obtain u where u: "add_graph_row production x st = Inr u"
    "rfold (add_graph_row production) xs u = Inr st'" by (auto simp: rbind_Inr_iff)
  from Cons.IH[OF bom_inv_step[OF Cons.prems(1) u(1)] u(2)] show ?case by simp
qed

lemma graph_rows_parsed:
  "rfold (graph_row required production) irs st = Inr st' \<Longrightarrow>
     \<exists>bs. list_all2 (\<lambda>(i, r) b. read_graph_row required i r = Inr b) irs bs \<and>
       rfold (add_graph_row production) bs st = Inr st'"
proof (induction irs arbitrary: st)
  case Nil
  then show ?case by simp
next
  case (Cons ir irs)
  obtain i r where ir: "ir = (i, r)" by (cases ir)
  from Cons.prems obtain b u where b: "read_graph_row required i r = Inr b"
    and u: "add_graph_row production b st = Inr u"
    and rest: "rfold (graph_row required production) irs u = Inr st'"
    by (auto simp: ir graph_row_def rbind_Inr_iff)
  from Cons.IH[OF rest] obtain bs where
    "list_all2 (\<lambda>(i, r) b. read_graph_row required i r = Inr b) irs bs"
    "rfold (add_graph_row production) bs u = Inr st'" by blast
  with b u show ?case by (intro exI[of _ "b # bs"]) (simp add: ir)
qed

subsection \<open>The stock rows\<close>

definition is_stock_row :: "row \<Rightarrow> int \<times> bool \<times> decimal \<Rightarrow> bool" where
  "is_stock_row r = (\<lambda>(cid, make_flag, stock). map_of r ''componentId'' = Some (PInt cid) \<and>
     map_of r ''makeFlag'' = Some (PBool make_flag) \<and> dec_finite stock \<and>
     Option.bind (map_of r ''actualStock'') decimal_of = Some stock)"

lemma getitem_Inr_iff [result_simps]: "getitem r k = Inr v \<longleftrightarrow> map_of r k = Some v"
  by (auto simp: getitem_def split: option.splits)

lemma identifier_of_Inr_iff [result_simps]: "identifier_of site v = Inr n \<longleftrightarrow> v = PInt n"
  by (auto simp: identifier_of_def split: pyval.splits)

lemma decimal_arg_Inr_iff [result_simps]: "decimal_arg pos site v = Inr d \<longleftrightarrow>
   decimal_of v = Some d \<and> dec_finite d \<and> (pos \<longrightarrow> 0 < dec_value d)"
  by (auto simp: decimal_arg_def split: option.splits)

lemma case_PBool_Inr_iff:
  "(case v of PBool b \<Rightarrow> f b | _ \<Rightarrow> Inl e) = Inr y \<longleftrightarrow> (\<exists>b. v = PBool b \<and> f b = Inr y)"
  by (cases v) auto

lemma sql_row_Inr:
  assumes "sql_row required (i, r) stock = Inr stock'"
  obtains e where "is_stock_row r e" "fst e \<notin> fst ` set stock" "stock' = stock @ [e]"
proof -
  from assms obtain cid flag d v where "map_of r ''componentId'' = Some (PInt cid)"
    "map_of stock cid = None" "map_of r ''makeFlag'' = Some (PBool flag)"
    "map_of r ''actualStock'' = Some v" "decimal_of v = Some d" "dec_finite d"
    "stock' = AList.update cid (flag, d) stock"
    by (auto simp: sql_row_def result_simps case_PBool_Inr_iff simp del: not_None_eq)
  then show ?thesis
    by (intro that[of "(cid, flag, d)"])
       (auto simp: is_stock_row_def map_of_eq_None_iff update_new_key)
qed

lemma sql_rows_parsed:
  "rfold (sql_row required) (enumerate n rs) stock = Inr stock' \<Longrightarrow> distinct (map fst stock) \<Longrightarrow>
     \<exists>es. stock' = stock @ es \<and> list_all2 is_stock_row rs es \<and> distinct (map fst stock')"
proof (induction rs arbitrary: n stock)
  case Nil
  then show ?case by simp
next
  case (Cons r rs)
  from Cons.prems(1) obtain u where u: "sql_row required (n, r) stock = Inr u"
    and rest: "rfold (sql_row required) (enumerate (Suc n) rs) u = Inr stock'"
    by (auto simp: rbind_Inr_iff)
  from sql_row_Inr[OF u] obtain e where e: "is_stock_row r e" "fst e \<notin> fst ` set stock"
    "u = stock @ [e]" .
  with Cons.prems(2) have "distinct (map fst u)" by simp
  from Cons.IH[OF rest this] e obtain es where "stock' = u @ es" "list_all2 is_stock_row rs es"
    "distinct (map fst stock')" by blast
  with e show ?case by (intro exI[of _ "e # es"]) simp
qed

subsection \<open>The report\<close>

definition demand_total :: "decimal \<Rightarrow> int \<Rightarrow> bom_row list \<Rightarrow> bom_error + decimal" where
  "demand_total production cid bs =
     rfold (\<lambda>p acc. lift_decimal (dec_add acc p)) (map snd (demand_paths production cid bs)) (Dec 0 0)"

text \<open>What a reported row says of the checked graph rows and of the stock of its component.\<close>

definition shortage_row_of :: "int \<Rightarrow> decimal \<Rightarrow> bom_row list \<Rightarrow> decimal \<Rightarrow> shortage_row \<Rightarrow> bool" where
  "shortage_row_of scale production bs stock x \<longleftrightarrow>
     (\<exists>required shortage. demand_total production (sr_component x) bs = Inr required \<and>
        dec_sub required stock = Inr shortage \<and> 0 < dec_value shortage \<and>
        dec_quantize production (- scale) = Inr (sr_production x) \<and>
        dec_quantize required (- scale) = Inr (sr_required x) \<and>
        dec_quantize stock (- scale) = Inr (sr_stock x) \<and>
        dec_quantize shortage (- scale) = Inr (sr_shortage x)) \<and>
     (\<exists>b \<in> set bs. br_component b = sr_component x \<and> sr_finished x = br_finished b \<and>
        sr_name x = br_name b) \<and>
     sorted (sr_suppliers x) \<and> distinct (sr_suppliers x) \<and>
     set (sr_suppliers x) = {s. \<exists>b \<in> set bs. br_component b = sr_component x \<and> br_supplier b = Some s}"

definition no_shortage :: "decimal \<Rightarrow> bom_row list \<Rightarrow> int \<Rightarrow> decimal \<Rightarrow> bool" where
  "no_shortage production bs cid stock \<longleftrightarrow>
     (\<exists>required difference. demand_total production cid bs = Inr required \<and>
        dec_sub required stock = Inr difference \<and> dec_value difference \<le> 0)"

lemma lift_decimal_Inr_iff [result_simps]: "lift_decimal m = Inr d \<longleftrightarrow> m = Inr d"
  by (auto simp: lift_decimal_def split: sum.splits)

lemma total_required_demand:
  "component_ok production bs cid c \<Longrightarrow> total_required c = demand_total production cid bs"
  by (simp add: total_required_def demand_total_def component_ok_def)

lemma shortage_of_Some:
  assumes "shortage_of scale production (cid, c) (flag, stock) = Inr (Some x)"
    and "component_ok production bs cid c" and "cid \<in> br_component ` set bs"
  shows "\<not> flag \<and> sr_component x = cid \<and> shortage_row_of scale production bs stock x"
proof -
  from assms(1) obtain required difference where
    req: "demand_total production cid bs = Inr required" "dec_sub required stock = Inr difference"
    and pos: "0 < dec_value difference" and "\<not> flag"
    and x: "normalized scale production = Inr (sr_production x)"
     "normalized scale required = Inr (sr_required x)" "normalized scale stock = Inr (sr_stock x)"
     "normalized scale difference = Inr (sr_shortage x)"
     "sr_finished x = bc_finished c" "sr_name x = bc_name c"
     "sr_suppliers x = sort (bc_suppliers c)" "sr_component x = cid"
    by (auto simp: shortage_of_def total_required_demand[OF assms(2)] Let_def dec_le_def rbind_Inr_iff
        lift_decimal_Inr_iff split: if_splits)
  with assms(2,3) show ?thesis
    unfolding shortage_row_of_def normalized_def lift_decimal_Inr_iff
    by (auto simp: component_ok_def)
qed

lemma shortage_of_None:
  assumes "shortage_of scale production (cid, c) (flag, stock) = Inr None"
    and "component_ok production bs cid c"
  shows "flag \<or> no_shortage production bs cid stock"
  using assms(1) unfolding no_shortage_def
  by (auto simp: shortage_of_def total_required_demand[OF assms(2)] Let_def dec_le_def rbind_Inr_iff
      lift_decimal_Inr_iff split: if_splits)

text \<open>The report loop keeps the order of the components and skips the ones without shortage.\<close>

lemma shortage_steps:
  "rfold (shortage_step scale production stock) cs acc = Inr xs \<Longrightarrow>
   \<exists>os. xs = acc @ somes os \<and>
     list_all2 (\<lambda>(cid, c) r. \<exists>s. map_of stock cid = Some s \<and>
        shortage_of scale production (cid, c) s = Inr r) cs os"
proof (induction cs arbitrary: acc)
  case Nil
  then show ?case by simp
next
  case (Cons e cs)
  obtain cid c where e: "e = (cid, c)" by (cases e)
  from Cons.prems obtain s r where s: "map_of stock cid = Some s"
    and r: "shortage_of scale production (cid, c) s = Inr r"
    and rest: "rfold (shortage_step scale production stock) cs
      (case r of None \<Rightarrow> acc | Some x \<Rightarrow> acc @ [x]) = Inr xs"
    by (auto simp: e shortage_step_def rbind_Inr_iff split: option.splits)
  from Cons.IH[OF rest] obtain os where
    "xs = (case r of None \<Rightarrow> acc | Some x \<Rightarrow> acc @ [x]) @ somes os"
    "list_all2 (\<lambda>(cid, c) r. \<exists>s. map_of stock cid = Some s \<and>
        shortage_of scale production (cid, c) s = Inr r) cs os" by blast
  with s r show ?case by (cases s, intro exI[of _ "r # os"]) (auto simp: e split: option.splits)
qed


text \<open>The checked sources of a successful calculation.\<close>

definition bom_sources :: "row list \<Rightarrow> row list \<Rightarrow> string list \<Rightarrow> bom_row list
    \<Rightarrow> (int, bool \<times> decimal) dict \<Rightarrow> bool" where
  "bom_sources graph_rows sql_rows required_graph bs stock \<longleftrightarrow>
     list_all2 (\<lambda>(i, r) b. read_graph_row required_graph i r = Inr b) (enumerate 0 graph_rows) bs \<and>
     list_all2 is_stock_row sql_rows stock \<and> distinct (map fst stock) \<and>
     fst ` set stock = br_component ` set bs \<and>
     (\<forall>a \<in> set bs. \<forall>b \<in> set bs. br_finished a = br_finished b)"

lemma calculate_Inr:
  assumes "calculate_bom_shortages graph_rows sql_rows q scale req_g req_s = Inr rows"
  obtains production bs stock st xs where "0 \<le> scale" "scale \<le> 12"
    "decimal_arg True ProductionQty q = Inr production"
    "bom_sources graph_rows sql_rows req_g bs stock" "bom_inv production bs st"
    "rfold (shortage_step scale production stock) (components st) [] = Inr xs"
    "rows = sort_key shortage_key xs"
proof -
  from assms obtain production st stock xs where *: "0 \<le> scale" "scale \<le> 12"
    "decimal_arg True ProductionQty q = Inr production"
    "rfold (graph_row req_g production) (enumerate 0 graph_rows) init_bom_state = Inr st"
    "\<not> 1 < length (finished_products st)"
    "rfold (sql_row req_s) (enumerate 0 sql_rows) [] = Inr stock"
    "set (graph_domain st) = set (dict_keys stock)"
    "rfold (shortage_step scale production stock) (components st) [] = Inr xs"
    "rows = sort_key shortage_key xs"
    unfolding calculate_bom_shortages_def if_Inl_Inr_iff rbind_Inr_iff by auto
  from graph_rows_parsed[OF *(4)] obtain bs where
    bs: "list_all2 (\<lambda>(i, r) b. read_graph_row req_g i r = Inr b) (enumerate 0 graph_rows) bs"
    and fold: "rfold (add_graph_row production) bs init_bom_state = Inr st" by blast
  have inv: "bom_inv production bs st" using bom_inv_rfold[OF bom_inv_init fold] by simp
  from sql_rows_parsed[OF *(6)] have st: "list_all2 is_stock_row sql_rows stock" "distinct (map fst stock)"
    by auto
  have "br_finished a = br_finished b" if "a \<in> set bs" "b \<in> set bs" for a b
    using inv that *(5) by (intro distinct_short_same[of "finished_products st"]) (auto simp: bom_inv_def)
  moreover have "fst ` set stock = br_component ` set bs" using inv *(7) by (simp add: bom_inv_def dict_keys_def)
  ultimately have "bom_sources graph_rows sql_rows req_g bs stock"
    using bs st unfolding bom_sources_def by blast
  with * inv show ?thesis by (intro that)
qed

lemma bom_inv_component:
  "bom_inv production bs st \<Longrightarrow> (cid, c) \<in> set (components st) \<Longrightarrow>
     component_ok production bs cid c \<and> cid \<in> br_component ` set bs"
proof -
  assume inv: "bom_inv production bs st" and c: "(cid, c) \<in> set (components st)"
  from inv c have "map_of (components st) cid = Some c"
    by (intro map_of_is_SomeI) (simp_all add: bom_inv_def dict_ok_def)
  with inv have "component_ok production bs cid c" unfolding bom_inv_def by blast
  moreover from c have "cid \<in> fst ` set (components st)" by force
  with inv have "cid \<in> br_component ` set bs" unfolding bom_inv_def by blast
  ultimately show ?thesis ..
qed

lemma report_sound:
  assumes inv: "bom_inv production bs st"
    and run: "rfold (shortage_step scale production stock) (components st) [] = Inr xs" and x: "x \<in> set xs"
  obtains s where "map_of stock (sr_component x) = Some (False, s)"
    "shortage_row_of scale production bs s x"
proof -
  from shortage_steps[OF run] obtain os where os: "xs = somes os"
    "list_all2 (\<lambda>(cid, c) r. \<exists>s. map_of stock cid = Some s \<and>
        shortage_of scale production (cid, c) s = Inr r) (components st) os" by auto
  from x have "Some x \<in> set os" by (simp only: os set_somes)
  from list_all2_memberD2[OF os(2) this] obtain cid c flag s where
    c: "(cid, c) \<in> set (components st)" and s: "map_of stock cid = Some (flag, s)"
    "shortage_of scale production (cid, c) (flag, s) = Inr (Some x)" by auto
  from shortage_of_Some[OF s(2)] bom_inv_component[OF inv c] s(1) show ?thesis by (intro that[of s]) auto
qed

lemma report_complete:
  assumes inv: "bom_inv production bs st"
    and run: "rfold (shortage_step scale production stock) (components st) [] = Inr xs"
    and cid: "cid \<in> br_component ` set bs" and s: "map_of stock cid = Some (False, s)"
    and short: "\<not> no_shortage production bs cid s"
  shows "\<exists>x \<in> set xs. sr_component x = cid"
proof -
  from cid inv have "cid \<in> fst ` set (components st)" by (simp add: bom_inv_def)
  then obtain c where c: "(cid, c) \<in> set (components st)" by auto
  from shortage_steps[OF run] obtain os where os: "xs = somes os"
    "list_all2 (\<lambda>(cid, c) r. \<exists>s. map_of stock cid = Some s \<and>
        shortage_of scale production (cid, c) s = Inr r) (components st) os" by auto
  from list_all2_memberD1[OF os(2) c] s obtain r where r: "r \<in> set os"
    "shortage_of scale production (cid, c) (False, s) = Inr r" by auto
  with shortage_of_None[of scale production cid c False s bs] bom_inv_component[OF inv c] short
  obtain x where "r = Some x" by (cases r) auto
  with r shortage_of_Some[of scale production cid c False s x bs] bom_inv_component[OF inv c]
  show ?thesis by (intro bexI[of _ x]) (auto simp: os set_somes)
qed

lemma concat_options_fst:
  "list_all2 (\<lambda>e r. r = None \<or> (\<exists>x. r = Some x \<and> f x = fst e)) es os \<Longrightarrow> distinct (map fst es) \<Longrightarrow>
     distinct (map f (somes os)) \<and>
     f ` set (somes os) \<subseteq> fst ` set es"
proof (induction es os rule: list_all2_induct)
  case Nil
  then show ?case by simp
next
  case (Cons e es r os)
  then have ih: "distinct (map f (somes os))"
    "f ` set (somes os) \<subseteq> fst ` set es" by auto
  with Cons show ?case by (cases r) auto
qed

lemma report_distinct:
  assumes inv: "bom_inv production bs st"
    and run: "rfold (shortage_step scale production stock) (components st) [] = Inr xs"
  shows "distinct (map sr_component xs)"
proof -
  from shortage_steps[OF run] obtain os where os: "xs = somes os"
    "list_all2 (\<lambda>(cid, c) r. \<exists>s. map_of stock cid = Some s \<and>
        shortage_of scale production (cid, c) s = Inr r) (components st) os" by auto
  have "list_all2 (\<lambda>e r. r = None \<or> (\<exists>x. r = Some x \<and> sr_component x = fst e)) (components st) os"
    using os(2) by (rule list_all2_mono)
      (auto simp: shortage_of_def Let_def rbind_Inr_iff split: if_splits)
  with concat_options_fst[OF this] inv show ?thesis by (simp add: os bom_inv_def dict_ok_def)
qed


subsection \<open>Exact demand on integers\<close>

text \<open>Integer demand of one path and of a component, with no rounding.\<close>

lemma coef_digits_le: "\<bar>c\<bar> < 10 ^ 28 \<Longrightarrow> coef_digits c \<le> dec_prec"
proof (cases "c = 0")
  case True
  then show ?thesis by (simp add: coef_digits_def dec_prec_def ndigits.simps[of 0])
next
  case False
  assume "\<bar>c\<bar> < 10 ^ 28"
  with coef_digits_lower[OF False] have "(10::int) ^ nat (coef_digits c - 1) < 10 ^ 28" by linarith
  then have "nat (coef_digits c - 1) < 28" by (rule power_less_imp_less_exp[rotated]) simp
  then show ?thesis by (simp add: dec_prec_def)
qed

lemma dec_fix_int: "\<bar>c\<bar> < 10 ^ 28 \<Longrightarrow> dec_fix c 0 = Inr (Dec c 0)"
  using coef_digits_le[of c]
  by (intro dec_fix_exact) (auto simp: dec_prec_def dec_Etiny_def dec_Etop_def dec_Emax_def)

lemma path_required_int:
  "0 < n \<Longrightarrow> \<forall>q \<in> set qs. 0 < q \<Longrightarrow> n * prod_list qs < 10 ^ 28 \<Longrightarrow>
     path_required (Dec n 0) (map (\<lambda>q. Dec q 0) qs) = Inr (Dec (n * prod_list qs) 0)"
proof (induction qs arbitrary: n)
  case Nil
  then show ?case by simp
next
  case (Cons q qs)
  have "0 < prod_list qs" using Cons.prems(2) by (intro prod_list_pos) simp
  then have "1 \<le> prod_list qs" by simp
  moreover have pos: "0 < n * q" using Cons.prems by simp
  ultimately have "n * q * 1 \<le> n * q * prod_list qs" by (intro mult_left_mono) simp_all
  with Cons.prems(3) have "n * q < 10 ^ 28" by (simp add: mult.assoc)
  with pos have "dec_fix (n * q) 0 = Inr (Dec (n * q) 0)" by (intro dec_fix_int) simp
  with Cons.IH[of "n * q"] Cons.prems pos show ?case by (simp add: lift_decimal_def mult.assoc)
qed

lemma sum_decimals_int:
  "\<forall>d \<in> set ds. 0 \<le> d \<Longrightarrow> 0 \<le> a \<Longrightarrow> a + sum_list ds < 10 ^ 28 \<Longrightarrow>
     rfold (\<lambda>p acc. lift_decimal (dec_add acc p)) (map (\<lambda>d. Dec d 0) ds) (Dec a 0) =
       Inr (Dec (a + sum_list ds) 0)"
proof (induction ds arbitrary: a)
  case Nil
  then show ?case by simp
next
  case (Cons d ds)
  have "0 \<le> sum_list ds" using Cons.prems(1) by (intro sum_list_nonneg) simp
  with Cons.prems have "dec_fix (a + d) 0 = Inr (Dec (a + d) 0)" by (intro dec_fix_int) simp
  with Cons.IH[of "a + d"] Cons.prems show ?case by (simp add: lift_decimal_def add.assoc)
qed


text \<open>The paths of a component, and its demand with each of them counted once.\<close>

definition component_paths :: "int \<Rightarrow> bom_row list \<Rightarrow> int list set" where
  "component_paths cid bs = br_path ` {b \<in> set bs. br_component b = cid}"

definition integer_quantities :: "(int list \<Rightarrow> int list) \<Rightarrow> int \<Rightarrow> bom_row list \<Rightarrow> bool" where
  "integer_quantities iq cid bs \<longleftrightarrow> (\<forall>b \<in> set bs. br_component b = cid \<longrightarrow>
     br_quantities b = map (\<lambda>q. Dec q 0) (iq (br_path b)) \<and> (\<forall>q \<in> set (iq (br_path b)). 0 < q))"

lemma demand_paths_shape:
  assumes "\<forall>b \<in> set bs. br_component b = cid \<longrightarrow> row_demand production b = f (br_path b)"
  shows "\<exists>ps. distinct ps \<and> set ps = component_paths cid bs \<and>
     demand_paths production cid bs = map (\<lambda>p. ((cid, p), f p)) ps"
  using assms
proof (induction bs rule: rev_induct)
  case Nil
  then show ?case by (simp add: demand_paths_def component_paths_def)
next
  case (snoc b bs)
  then obtain ps where ps: "distinct ps" "set ps = component_paths cid bs"
    "demand_paths production cid bs = map (\<lambda>p. ((cid, p), f p)) ps" by auto
  have none: "map_of (map (\<lambda>p. ((cid, p), f p)) ps) (cid, q) = None \<longleftrightarrow> q \<notin> set ps" for q
    by (force simp: map_of_eq_None_iff)
  show ?case
  proof (cases "br_component b = cid \<and> br_path b \<notin> set ps")
    case True
    with ps snoc.prems show ?thesis
      by (intro exI[of _ "ps @ [br_path b]"])
         (auto simp: component_paths_def demand_paths_snoc setdefault_def none simp del: not_None_eq)
  next
    case False
    with ps have "component_paths cid (bs @ [b]) = component_paths cid bs"
      by (auto simp: component_paths_def)
    with False ps show ?thesis
      by (intro exI[of _ ps]) (auto simp: demand_paths_snoc setdefault_def none simp del: not_None_eq)
  qed
qed

lemma demand_total_int:
  assumes "0 < n" and iq: "integer_quantities iq cid bs"
    and bound: "n * (\<Sum>p \<in> component_paths cid bs. prod_list (iq p)) < 10 ^ 28"
  shows "demand_total (Dec n 0) cid bs =
     Inr (Dec (n * (\<Sum>p \<in> component_paths cid bs. prod_list (iq p))) 0)"
proof -
  define f where "f p = n * prod_list (iq p)" for p
  have sum: "n * (\<Sum>p \<in> component_paths cid bs. prod_list (iq p)) = sum f (component_paths cid bs)"
    by (simp add: f_def sum_distrib_left)
  have pos: "0 \<le> f p" if "p \<in> component_paths cid bs" for p
  proof -
    from that iq have "\<forall>q \<in> set (iq p). 0 < q"
      by (auto simp: component_paths_def integer_quantities_def)
    then have "0 < prod_list (iq p)" by (rule prod_list_pos)
    with assms(1) show ?thesis by (simp add: f_def)
  qed
  have "row_demand (Dec n 0) b = Dec (f (br_path b)) 0" if b: "b \<in> set bs" "br_component b = cid" for b
  proof -
    have "f (br_path b) \<le> sum f (component_paths cid bs)"
      using b pos by (intro member_le_sum) (auto simp: component_paths_def)
    with bound sum have "f (br_path b) < 10 ^ 28" by linarith
    with path_required_int[OF assms(1), of "iq (br_path b)"] iq b show ?thesis
      by (simp add: integer_quantities_def row_demand_def f_def)
  qed
  with demand_paths_shape[of bs cid "Dec n 0" "\<lambda>p. Dec (f p) 0"] obtain ps where ps: "distinct ps"
    "set ps = component_paths cid bs"
    "demand_paths (Dec n 0) cid bs = map (\<lambda>p. ((cid, p), Dec (f p) 0)) ps" by auto
  have "sum_list (map f ps) = sum f (component_paths cid bs)"
    using ps by (simp add: sum_list_distinct_conv_sum_set)
  with sum_decimals_int[of "map f ps" 0] pos ps bound sum show ?thesis
    by (simp add: demand_total_def comp_def)
qed


subsection \<open>Properties\<close>

text \<open>C5: When \<open>calculate_bom_shortages\<close> returns, the graph rows describe one finished product, the
  stock rows cover each of their components exactly once, and the report is correct: each reported
  row is a purchased component whose demand over its distinct paths exceeds its stock, with the
  quantities rounded to the output scale and the suppliers sorted without repetition; and every
  purchased component that is not reported has no shortage.\<close>

theorem bom_report_correct:
  assumes "calculate_bom_shortages graph_rows sql_rows q scale req_g req_s = Inr rows"
  shows "\<exists>production bs stock. decimal_arg True ProductionQty q = Inr production \<and>
     bom_sources graph_rows sql_rows req_g bs stock \<and>
     (\<forall>x \<in> set rows. \<exists>s. map_of stock (sr_component x) = Some (False, s) \<and>
        shortage_row_of scale production bs s x) \<and>
     (\<forall>cid s. map_of stock cid = Some (False, s) \<longrightarrow>
        cid \<in> sr_component ` set rows \<or> no_shortage production bs cid s)"
proof -
  from calculate_Inr[OF assms] obtain production bs stock st xs where
    c: "decimal_arg True ProductionQty q = Inr production"
    "bom_sources graph_rows sql_rows req_g bs stock" "bom_inv production bs st"
    "rfold (shortage_step scale production stock) (components st) [] = Inr xs"
    "rows = sort_key shortage_key xs" .
  have dom: "cid \<in> br_component ` set bs" if "map_of stock cid = Some e" for cid e
    using that c(2) by (metis bom_sources_def domI dom_map_of_conv_image_fst)
  have "\<forall>x \<in> set rows. \<exists>s. map_of stock (sr_component x) = Some (False, s) \<and>
      shortage_row_of scale production bs s x"
    using report_sound[OF c(3,4)] c(5) by (metis set_sort)
  moreover have "\<forall>cid s. map_of stock cid = Some (False, s) \<longrightarrow>
      cid \<in> sr_component ` set rows \<or> no_shortage production bs cid s"
    using report_complete[OF c(3,4)] dom c(5) by (metis image_eqI set_sort)
  ultimately show ?thesis using c(1,2) by blast
qed

definition example_graph_row :: "int \<Rightarrow> int list \<Rightarrow> int list \<Rightarrow> row" where
  "example_graph_row cid path qs =
    [(''finishedProductId'', PInt 1), (''finishedProductName'', PStr ''bike''),
     (''componentId'', PInt cid), (''componentName'', PStr ''part''), (''depth'', PInt (int (length qs))),
     (''pathProductIds'', PList (map PInt path)), (''quantityPerAssembly'', PList (map PInt qs)),
     (''supplierId'', PNone), (''supplierName'', PNone)]"

definition example_stock_row :: "int \<Rightarrow> bool \<Rightarrow> int \<Rightarrow> row" where
  "example_stock_row cid make_flag stock = [(''componentId'', PInt cid), (''makeFlag'', PBool make_flag),
     (''actualStock'', PInt stock)]"

definition example_graph_rows :: "row list" where
  "example_graph_rows = [example_graph_row 5 [1, 5] [2], example_graph_row 7 [1, 7] [1],
     example_graph_row 5 [1, 7, 5] [1, 3], example_graph_row 5 [1, 5] [2]]"

definition example_stock_rows :: "row list" where
  "example_stock_rows = [example_stock_row 7 True 0, example_stock_row 5 False 12]"

definition example_report :: "shortage_row list" where
  "example_report = [\<lparr>sr_finished = (1, ''bike''), sr_production = Dec 40 (-1), sr_component = 5,
     sr_name = ''part'', sr_required = Dec 200 (-1), sr_stock = Dec 120 (-1),
     sr_shortage = Dec 80 (-1), sr_suppliers = []\<rparr>]"

lemma example_report_run:
  "calculate_bom_shortages example_graph_rows example_stock_rows (PInt 4) 1
     [''componentId''] [''componentId''] = Inr example_report"
  by code_simp

theorem bom_report_correct_witness:
  "\<exists>production bs stock. decimal_arg True ProductionQty (PInt 4) = Inr production \<and>
     bom_sources example_graph_rows example_stock_rows [''componentId''] bs stock \<and>
     (\<forall>x \<in> set example_report. \<exists>s. map_of stock (sr_component x) = Some (False, s) \<and>
        shortage_row_of 1 production bs s x) \<and>
     (\<forall>cid s. map_of stock cid = Some (False, s) \<longrightarrow>
        cid \<in> sr_component ` set example_report \<or> no_shortage production bs cid s)"
  by (rule bom_report_correct[OF example_report_run])

text \<open>The report of \<open>calculate_bom_shortages\<close> names each component at most once and is ordered by
  decreasing rounded shortage, then by component id.\<close>

theorem bom_report_sorted:
  assumes "calculate_bom_shortages graph_rows sql_rows q scale req_g req_s = Inr rows"
  shows "distinct (map sr_component rows) \<and>
    sorted_wrt (\<lambda>x y. dec_value (sr_shortage y) < dec_value (sr_shortage x) \<or>
      dec_value (sr_shortage x) = dec_value (sr_shortage y) \<and> sr_component x < sr_component y) rows"
proof -
  from calculate_Inr[OF assms] obtain production bs stock st xs where
    c: "bom_inv production bs st"
    "rfold (shortage_step scale production stock) (components st) [] = Inr xs"
    "rows = sort_key shortage_key xs" .
  have d: "distinct (map sr_component rows)"
    using report_distinct[OF c(1,2)] by (simp add: c(3) distinct_map)
  have "sorted_wrt (\<lambda>x y. shortage_key x \<le> shortage_key y) rows"
    using sorted_sort_key[of shortage_key xs] by (simp add: c(3) sorted_map)
  moreover have "sorted_wrt (\<lambda>x y. sr_component x \<noteq> sr_component y) rows"
    using d by (rule distinct_sorted_wrt)
  ultimately have "sorted_wrt (\<lambda>x y. shortage_key x \<le> shortage_key y \<and>
      sr_component x \<noteq> sr_component y) rows" by (rule sorted_wrt_both)
  then show ?thesis using d
    by (auto simp: shortage_key_def less_eq_prod_def elim!: sorted_wrt_mono_rel[rotated])
qed

theorem bom_report_sorted_witness:
  "distinct (map sr_component example_report) \<and>
    sorted_wrt (\<lambda>x y. dec_value (sr_shortage y) < dec_value (sr_shortage x) \<or>
      dec_value (sr_shortage x) = dec_value (sr_shortage y) \<and> sr_component x < sr_component y)
      example_report"
  by (rule bom_report_sorted[OF example_report_run])

text \<open>With an integer production quantity and integer quantities per assembly, the demand that
  \<open>calculate_bom_shortages\<close> adds up for a component is exactly the production quantity times the sum,
  over the component's distinct paths, of the product of the quantities on the path, as long as this
  number has at most 28 digits: repeated path rows (one per supplier) are counted once, and no
  decimal rounding takes place.\<close>

theorem integer_demand_exact:
  assumes "0 < n" and "integer_quantities iq cid bs"
    and "n * (\<Sum>p \<in> component_paths cid bs. prod_list (iq p)) < 10 ^ 28"
    and "component_ok (Dec n 0) bs cid c"
  shows "total_required c = Inr (Dec (n * (\<Sum>p \<in> component_paths cid bs. prod_list (iq p))) 0)"
  using demand_total_int[OF assms(1-3)] total_required_demand[OF assms(4)] by simp

definition example_bom_rows :: "bom_row list" where
  "example_bom_rows = [\<lparr>br_finished = (1, ''bike''), br_component = 5, br_name = ''part'',
      br_path = [1, 5], br_quantities = [Dec 2 0], br_supplier = Some (1, ''a'')\<rparr>,
    \<lparr>br_finished = (1, ''bike''), br_component = 5, br_name = ''part'',
      br_path = [1, 5], br_quantities = [Dec 2 0], br_supplier = Some (2, ''b'')\<rparr>]"

theorem integer_demand_exact_witness:
  "total_required \<lparr>bc_finished = (1, ''bike''), bc_name = ''part'',
      bc_paths = [((5, [1, 5]), Dec 8 0)], bc_suppliers = [(1, ''a''), (2, ''b'')]\<rparr> = Inr (Dec 8 0)"
  (is "total_required ?c = _")
proof -
  have paths: "component_paths 5 example_bom_rows = {[1, 5]}"
    by (force simp: component_paths_def example_bom_rows_def)
  have "component_ok (Dec 4 0) example_bom_rows 5 ?c"
    by (auto simp: component_ok_def example_bom_rows_def demand_paths_def row_demand_def setdefault_def
        lift_decimal_def dec_fix_int)
  moreover have "integer_quantities (\<lambda>p. [2]) 5 example_bom_rows"
    by (simp add: integer_quantities_def example_bom_rows_def)
  ultimately show ?thesis
    using integer_demand_exact[of 4 "\<lambda>p. [2]" 5 example_bom_rows ?c] by (simp add: paths)
qed

end
