(* ===== verification/Composition.thy ===== *)
theory Composition
  imports Planning Bom_Shortage
begin

text \<open>
  Composition of the source results (\<open>orchestrator/composition.py\<close>): the single, separate and
  joined modes and the formal BOM transform.  A composed result is the typed dictionary of
  \<open>orchestrator/state.py\<close>, its message a constructor per site.  \<open>Inl\<close> is an exception that leaves
  \<open>compose_results\<close>; every other failure is a result with an error.  Join keys are compared as
  the hash tables compare them, by Python's \<open>==\<close>.
\<close>

datatype composition_mode = Single | Joined | Separate

datatype empty_reason = NO_DATA | INCONCLUSIVE

datatype compose_message =
    NoSubqueries
  | MoreThanTwoSubqueries
  | JoinKeysDiffer
  | NegativeRowLimit
  | TransformRejected plan_error
  | SourceMissing string string
  | SourceFailed string string pyval
  | SourceResultNone string string
  | SourceNotArray string string
  | SourceRowNotObject string string nat
  | SourceTruncatedFlag string string
  | SourceEmptyReason string string pyval
  | SourceRowsWithReason string string
  | SourcesTruncated
  | JoinKeyMissing string nat string
  | JoinKeyNone string nat string
  | JoinKeyUnhashable string nat "pyval list"
  | JoinKeyOutOfDomain string "pyval list"
  | FieldConflict string pyval pyval
  | TransformFailed bom_site
  | TransformCatalogMissing

datatype compose_escape =
    TransformNotSubscriptable
  | TransformTypeMissing
  | EscapedPlan plan_error
  | EscapedBom bom_error

record composed_section =
  cs_tool :: string
  cs_rows :: "row list"
  cs_empty_reason :: "empty_reason option"

record composed_result =
  cr_mode :: composition_mode
  cr_transform :: "pyval option"
  cr_rows :: "row list"
  cr_sections :: "(string, composed_section) dict"
  cr_error :: "compose_message option"
  cr_empty_reason :: "empty_reason option"
  cr_total_count :: nat
  cr_truncated :: bool

definition compose_failure ::
    "composition_mode \<Rightarrow> compose_message \<Rightarrow> pyval option \<Rightarrow> bool \<Rightarrow> composed_result" where
  "compose_failure mode message tr trunc =
     \<lparr>cr_mode = mode, cr_transform = tr, cr_rows = [], cr_sections = [], cr_error = Some message,
      cr_empty_reason = None, cr_total_count = 0, cr_truncated = trunc\<rparr>"

subsection \<open>Reading one source\<close>

text \<open>The three parts that the code reads of a source: its rows, its empty reason, its truncation.\<close>

type_synonym source = "row list \<times> empty_reason option \<times> bool"

definition dict_row :: "pyval \<Rightarrow> row option" where
  "dict_row v = (case v of PDict d \<Rightarrow> Some d | _ \<Rightarrow> None)"

definition check_rows :: "string \<Rightarrow> string \<Rightarrow> pyval list \<Rightarrow> compose_message + row list" where
  "check_rows sid t items = rmap (\<lambda>(i, v). case dict_row v of
     None \<Rightarrow> Inl (SourceRowNotObject sid t i) | Some r \<Rightarrow> Inr r) (enumerate 0 items)"

definition read_empty_reason :: "string \<Rightarrow> string \<Rightarrow> pyval \<Rightarrow> compose_message + empty_reason option" where
  "read_empty_reason sid t v =
     (if v = PNone then Inr None
      else if v = PStr ''NO_DATA'' then Inr (Some NO_DATA)
      else if v = PStr ''INCONCLUSIVE'' then Inr (Some INCONCLUSIVE)
      else Inl (SourceEmptyReason sid t v))"

definition source_rows :: "subquery \<Rightarrow> (string, row option) dict \<Rightarrow> compose_message + source" where
  "source_rows q results = (let sid = subquery_id q; t = tool q in
     (case map_of results t of
        None \<Rightarrow> Inl (SourceMissing sid t)
      | Some None \<Rightarrow> Inl (SourceMissing sid t)
      | Some (Some d) \<Rightarrow>
          if dict_get d ''error'' PNone \<noteq> PNone
          then Inl (SourceFailed sid t (dict_get d ''error'' PNone))
          else (case dict_get d ''result'' PNone of
              PNone \<Rightarrow> Inl (SourceResultNone sid t)
            | PList items \<Rightarrow>
                rbind (check_rows sid t items) (\<lambda>rows.
                (case dict_get d ''truncated'' (PBool False) of
                   PBool trunc \<Rightarrow>
                     rbind (read_empty_reason sid t (dict_get d ''empty_reason'' PNone)) (\<lambda>reason.
                       if rows \<noteq> [] \<and> reason \<noteq> None then Inl (SourceRowsWithReason sid t)
                       else Inr (rows, reason, trunc))
                 | _ \<Rightarrow> Inl (SourceTruncatedFlag sid t)))
            | _ \<Rightarrow> Inl (SourceNotArray sid t))))"

definition overall_empty_reason :: "source list \<Rightarrow> empty_reason option" where
  "overall_empty_reason sources =
     (if list_ex (\<lambda>(rows, _, _). rows \<noteq> []) sources then None
      else if list_ex (\<lambda>(_, reason, _). reason = Some INCONCLUSIVE) sources then Some INCONCLUSIVE
      else Some NO_DATA)"

subsection \<open>The join\<close>

fun row_key_values :: "string \<Rightarrow> nat \<Rightarrow> row \<Rightarrow> string list \<Rightarrow> compose_message + pyval list" where
  "row_key_values sid i r [] = Inr []"
| "row_key_values sid i r (alias # aliases) = (case map_of r alias of
     None \<Rightarrow> Inl (JoinKeyMissing sid i alias)
   | Some v \<Rightarrow>
       if v = PNone then Inl (JoinKeyNone sid i alias)
       else rbind (row_key_values sid i r aliases) (\<lambda>vs. Inr (v # vs)))"

definition row_key :: "string list \<Rightarrow> string \<Rightarrow> nat \<times> row \<Rightarrow> compose_message + pyval list" where
  "row_key keys sid = (\<lambda>(i, r). rbind (row_key_values sid i r keys) (\<lambda>vs.
     if list_all hashable vs then Inr vs else Inl (JoinKeyUnhashable sid i vs)))"

definition key_eq :: "pyval list \<Rightarrow> pyval list \<Rightarrow> bool" where
  "key_eq = list_all2 py_eq"

definition merge_field :: "string list \<Rightarrow> string \<times> pyval \<Rightarrow> row \<Rightarrow> compose_message + row" where
  "merge_field keys = (\<lambda>(field, v) merged.
     if field \<in> set keys then Inr merged
     else (case map_of merged field of
         Some w \<Rightarrow> if py_eq w v then Inr merged else Inl (FieldConflict field w v)
       | None \<Rightarrow> Inr (AList.update field v merged)))"

definition merge_rows :: "string list \<Rightarrow> row \<Rightarrow> row \<Rightarrow> compose_message + row" where
  "merge_rows keys left right = rfold (merge_field keys) right left"

type_synonym grouped = "(pyval list \<times> row list) list"

fun group_append :: "pyval list \<Rightarrow> row \<Rightarrow> grouped \<Rightarrow> grouped" where
  "group_append k r [] = [(k, [r])]"
| "group_append k r ((k', rs) # g) =
     (if key_eq k' k then (k', rs @ [r]) # g else (k', rs) # group_append k r g)"

fun group_get :: "pyval list \<Rightarrow> grouped \<Rightarrow> row list" where
  "group_get k [] = []"
| "group_get k ((k', rs) # g) = (if key_eq k' k then rs else group_get k g)"

definition key_left :: "string list \<Rightarrow> string \<Rightarrow> row list \<Rightarrow> compose_message + (pyval list \<times> row) list" where
  "key_left keys sid rows =
     rmap (\<lambda>(i, r). rbind (row_key keys sid (i, r)) (\<lambda>k. Inr (k, r))) (enumerate 0 rows)"

definition group_right_step :: "string list \<Rightarrow> string \<Rightarrow> pyval list list \<Rightarrow> nat \<times> row \<Rightarrow> grouped
    \<Rightarrow> compose_message + grouped" where
  "group_right_step keys sid domain = (\<lambda>(i, r) g.
     rbind (row_key keys sid (i, r)) (\<lambda>k.
       if \<not> list_ex (\<lambda>k'. key_eq k' k) domain then Inl (JoinKeyOutOfDomain sid k)
       else Inr (group_append k r g)))"

text \<open>One matching pair: it is always counted, and stored below the row limit.\<close>

definition join_pair :: "string list \<Rightarrow> nat \<Rightarrow> row \<times> row \<Rightarrow> row list \<times> nat
    \<Rightarrow> compose_message + (row list \<times> nat)" where
  "join_pair keys limit = (\<lambda>(left, right) (rows, total).
     rbind (merge_rows keys left right) (\<lambda>merged.
       Inr (if length rows < limit then rows @ [merged] else rows, Suc total)))"

definition join_loop :: "string list \<Rightarrow> nat \<Rightarrow> (pyval list \<times> row) list \<Rightarrow> grouped
    \<Rightarrow> compose_message + (row list \<times> nat)" where
  "join_loop keys limit left_keyed g =
     rfold (\<lambda>(k, left) st. rfold (\<lambda>right. join_pair keys limit (left, right)) (group_get k g) st)
       left_keyed ([], 0)"

definition joined_empty_reason :: "empty_reason option \<Rightarrow> empty_reason option \<Rightarrow> empty_reason" where
  "joined_empty_reason a b =
     (if a = Some INCONCLUSIVE \<or> b = Some INCONCLUSIVE then INCONCLUSIVE else NO_DATA)"

definition lift_failure :: "composition_mode \<Rightarrow> pyval option \<Rightarrow> compose_message + composed_result
    \<Rightarrow> composed_result" where
  "lift_failure mode tr r = (case r of Inl m \<Rightarrow> compose_failure mode m tr False | Inr c \<Rightarrow> c)"

definition compose_joined :: "subquery \<Rightarrow> subquery \<Rightarrow> source \<Rightarrow> source \<Rightarrow> nat \<Rightarrow> composed_result" where
  "compose_joined left_q right_q = (\<lambda>(left_rows, left_reason, left_trunc)
       (right_rows, right_reason, right_trunc) limit.
     if left_trunc \<or> right_trunc then compose_failure Joined SourcesTruncated None True
     else let keys = joinKeys left_q in
       lift_failure Joined None
        (rbind (key_left keys (subquery_id left_q) left_rows) (\<lambda>left_keyed.
         rbind (rfold (group_right_step keys (subquery_id right_q) (map fst left_keyed))
                  (enumerate 0 right_rows) []) (\<lambda>g.
           if left_rows = [] \<or> right_rows = []
           then Inr \<lparr>cr_mode = Joined, cr_transform = None, cr_rows = [], cr_sections = [],
                  cr_error = None, cr_empty_reason = Some (joined_empty_reason left_reason right_reason),
                  cr_total_count = 0, cr_truncated = False\<rparr>
           else rbind (join_loop keys limit left_keyed g) (\<lambda>(rows, total).
             Inr \<lparr>cr_mode = Joined, cr_transform = None, cr_rows = rows, cr_sections = [],
                  cr_error = None, cr_empty_reason = (if total = 0 then Some NO_DATA else None),
                  cr_total_count = total, cr_truncated = length rows < total\<rparr>)))))"

subsection \<open>The BOM transform\<close>

definition supplier_dict :: "int \<times> string \<Rightarrow> pyval" where
  "supplier_dict = (\<lambda>(sid, sname). PDict [(''supplierId'', PInt sid), (''supplierName'', PStr sname)])"

definition shortage_dict :: "shortage_row \<Rightarrow> row" where
  "shortage_dict r =
     [(''finishedProductId'', PInt (fst (sr_finished r))),
      (''finishedProductName'', PStr (snd (sr_finished r))),
      (''productionQty'', PDec (sr_production r)), (''componentId'', PInt (sr_component r)),
      (''componentName'', PStr (sr_name r)), (''requiredQty'', PDec (sr_required r)),
      (''actualStock'', PDec (sr_stock r)), (''shortageQty'', PDec (sr_shortage r)),
      (''suppliers'', PList (map supplier_dict (sr_suppliers r)))]"

definition bom_name :: pyval where
  "bom_name = PStr ''bom_shortage_v1''"

definition compose_bom_shortage :: "source \<Rightarrow> source \<Rightarrow> bom_shortage_transform \<Rightarrow> transform_spec \<Rightarrow> nat
    \<Rightarrow> compose_escape + composed_result" where
  "compose_bom_shortage = (\<lambda>(graph_rows, graph_reason, graph_trunc) (sql_rows, sql_reason, sql_trunc)
       t spec limit.
     if graph_trunc \<or> sql_trunc then Inr (compose_failure Joined SourcesTruncated (Some bom_name) True)
     else if graph_rows = [] \<and> sql_rows = []
     then Inr \<lparr>cr_mode = Joined, cr_transform = Some bom_name, cr_rows = [], cr_sections = [],
            cr_error = None, cr_empty_reason = Some (joined_empty_reason graph_reason sql_reason),
            cr_total_count = 0, cr_truncated = False\<rparr>
     else (case (map_of (ts_required_outputs spec) Graph, map_of (ts_required_outputs spec) Sql) of
         (Some req_g, Some req_s) \<Rightarrow>
           (case calculate_bom_shortages graph_rows sql_rows (productionQty t) (output_scale spec)
                   req_g req_s of
              Inl (BomValueError site) \<Rightarrow>
                Inr (compose_failure Joined (TransformFailed site) (Some bom_name) False)
            | Inl e \<Rightarrow> Inl (EscapedBom e)
            | Inr final_rows \<Rightarrow>
                let stored = take limit final_rows in
                Inr \<lparr>cr_mode = Joined, cr_transform = Some bom_name,
                  cr_rows = map shortage_dict stored, cr_sections = [], cr_error = None,
                  cr_empty_reason = (if final_rows = [] then Some NO_DATA else None),
                  cr_total_count = length final_rows,
                  cr_truncated = length stored < length final_rows\<rparr>)
       | (None, _) \<Rightarrow> Inl (EscapedPlan (CatalogFailure (MissingSource Graph)))
       | _ \<Rightarrow> Inl (EscapedPlan (CatalogFailure (MissingSource Sql)))))"

subsection \<open>compose_results\<close>

definition compose_mode :: "subquery list \<Rightarrow> composed_result + composition_mode" where
  "compose_mode subs =
     (if subs = [] then Inl (compose_failure Single NoSubqueries None False)
      else if 2 < length subs then Inl (compose_failure Separate MoreThanTwoSubqueries None False)
      else if length subs = 1 then Inr Single
      else if joinKeys (subs ! 0) = [] \<and> joinKeys (subs ! 1) = [] then Inr Separate
      else if joinKeys (subs ! 0) \<noteq> [] \<and> joinKeys (subs ! 1) \<noteq> [] \<and>
              set (joinKeys (subs ! 0)) = set (joinKeys (subs ! 1)) then Inr Joined
      else Inl (compose_failure Joined JoinKeysDiffer None False))"

text \<open>\<open>result_transform["type"]\<close> when the transform is not \<open>None\<close>.\<close>

definition raw_transform_name :: "pyval \<Rightarrow> compose_escape + pyval option" where
  "raw_transform_name raw = (case raw of
     PNone \<Rightarrow> Inr None
   | PDict d \<Rightarrow> (case map_of d ''type'' of
       None \<Rightarrow> Inl TransformTypeMissing
     | Some v \<Rightarrow> Inr (if v = PNone then None else Some v))
   | _ \<Rightarrow> Inl TransformNotSubscriptable)"

definition separate_section :: "subquery \<times> source \<Rightarrow> string \<times> composed_section" where
  "separate_section = (\<lambda>(q, (rows, reason, _)). (subquery_id q,
     \<lparr>cs_tool = tool q, cs_rows = rows, cs_empty_reason = (if rows = [] then reason else None)\<rparr>))"

definition compose_separate :: "subquery list \<Rightarrow> source list \<Rightarrow> composed_result" where
  "compose_separate subs sources =
     \<lparr>cr_mode = Separate, cr_transform = None, cr_rows = [],
      cr_sections = fold (\<lambda>e d. AList.update (fst e) (snd e) d) (map separate_section (zip subs sources)) [],
      cr_error = None, cr_empty_reason = overall_empty_reason sources,
      cr_total_count = sum_list (map (\<lambda>(rows, _, _). length rows) sources),
      cr_truncated = list_ex (\<lambda>(_, _, trunc). trunc) sources\<rparr>"

definition compose_single :: "source \<Rightarrow> composed_result" where
  "compose_single = (\<lambda>(rows, reason, trunc).
     \<lparr>cr_mode = Single, cr_transform = None, cr_rows = rows, cr_sections = [], cr_error = None,
      cr_empty_reason = (if rows = [] then reason else None), cr_total_count = length rows,
      cr_truncated = trunc\<rparr>)"

definition compose_sources :: "composition_mode \<Rightarrow> subquery list \<Rightarrow> source list
    \<Rightarrow> bom_shortage_transform option \<Rightarrow> semantic_catalog option \<Rightarrow> nat
    \<Rightarrow> compose_escape + composed_result" where
  "compose_sources mode subs sources validated catalog limit = (case validated of
     Some t \<Rightarrow> (case catalog of
         None \<Rightarrow> Inr (compose_failure mode TransformCatalogMissing (Some bom_name) False)
       | Some cat \<Rightarrow> (case transform cat ''bom_shortage_v1'' of
             Inl e \<Rightarrow> Inl (EscapedPlan (CatalogFailure e))
           | Inr spec \<Rightarrow> compose_bom_shortage (sources ! 0) (sources ! 1) t spec limit))
   | None \<Rightarrow> Inr (case mode of
         Single \<Rightarrow> compose_single (sources ! 0)
       | Separate \<Rightarrow> compose_separate subs sources
       | Joined \<Rightarrow> compose_joined (subs ! 0) (subs ! 1) (sources ! 0) (sources ! 1) limit))"

definition compose_results :: "subquery list \<Rightarrow> (string, row option) dict \<Rightarrow> int \<Rightarrow> pyval
    \<Rightarrow> semantic_catalog option \<Rightarrow> compose_escape + composed_result" where
  "compose_results subs results row_limit raw catalog = (case compose_mode subs of
     Inl failure \<Rightarrow> Inr failure
   | Inr mode \<Rightarrow>
       if row_limit < 0
       then rbind (raw_transform_name raw) (\<lambda>tr. Inr (compose_failure mode NegativeRowLimit tr False))
       else (case validate_result_transform raw subs catalog of
           Inl e \<Rightarrow> if is_value_error e
             then Inr (compose_failure mode (TransformRejected e) (Some bom_name) False)
             else Inl (EscapedPlan e)
         | Inr validated \<Rightarrow>
             (case rmap (\<lambda>q. source_rows q results) subs of
                Inl message \<Rightarrow> Inr (compose_failure mode message
                  (case validated of None \<Rightarrow> None | Some _ \<Rightarrow> Some bom_name) False)
              | Inr sources \<Rightarrow> compose_sources mode subs sources validated catalog (nat row_limit))))"

subsection \<open>Hash keys\<close>

text \<open>What the hash tables see of a hashable value; a NaN key equals no key.\<close>

definition hkey :: "pyval \<Rightarrow> xnum + pyval" where
  "hkey v = (case numeric v of Some a \<Rightarrow> Inl a | None \<Rightarrow> Inr v)"

definition hkeys :: "pyval list \<Rightarrow> (xnum + pyval) list" where
  "hkeys k = map hkey k"

lemma py_eq_hashable:
  "hashable x \<Longrightarrow> hashable y \<Longrightarrow> py_eq x y \<longleftrightarrow> hkey x = hkey y \<and> hkey x \<noteq> Inl XNaN"
  by (cases x; cases y) (auto simp: hkey_def split: option.splits)

lemma key_eq_hashable:
  "list_all hashable k \<Longrightarrow> list_all hashable k' \<Longrightarrow>
     key_eq k k' \<longleftrightarrow> hkeys k = hkeys k' \<and> Inl XNaN \<notin> set (hkeys k)"
proof (induction k arbitrary: k')
  case Nil
  then show ?case by (auto simp: key_eq_def hkeys_def)
next
  case (Cons x k)
  then show ?case by (cases k') (auto simp: key_eq_def py_eq_hashable hkeys_def)
qed

lemma key_eq_sym: "list_all hashable a \<Longrightarrow> list_all hashable b \<Longrightarrow> key_eq a b = key_eq b a"
  by (auto simp: key_eq_hashable)

lemma group_get_append:
  assumes "list_all hashable k" and "list_all hashable k2"
  shows "\<forall>e \<in> set g. list_all hashable (fst e) \<Longrightarrow>
     group_get k2 (group_append k r g) = (if key_eq k k2 then group_get k2 g @ [r] else group_get k2 g)"
proof (induction g)
  case Nil
  then show ?case by simp
next
  case (Cons e g)
  obtain k' rs where "e = (k', rs)" by (cases e)
  with Cons assms show ?case by (auto simp: key_eq_hashable)
qed

lemma group_append_keys: "fst ` set (group_append k r g) \<subseteq> insert k (fst ` set g)"
proof (induction g)
  case (Cons e g)
  then show ?case by (cases e) auto
qed simp

subsection \<open>Keys of a row\<close>

definition key_of :: "string list \<Rightarrow> row \<Rightarrow> pyval list" where
  "key_of keys r = map (\<lambda>a. the (map_of r a)) keys"

definition keyed :: "string list \<Rightarrow> row \<Rightarrow> bool" where
  "keyed keys r \<longleftrightarrow> (\<forall>a \<in> set keys. \<exists>v. map_of r a = Some v \<and> v \<noteq> PNone \<and> hashable v)"

lemma row_key_values_Inr_iff:
  "row_key_values sid i r keys = Inr vs \<longleftrightarrow>
     (\<forall>a \<in> set keys. \<exists>v. map_of r a = Some v \<and> v \<noteq> PNone) \<and> vs = key_of keys r"
  by (induction keys arbitrary: vs) (auto simp: key_of_def rbind_Inr_iff split: option.splits)

lemma row_key_Inr_iff: "row_key keys sid (i, r) = Inr vs \<longleftrightarrow> keyed keys r \<and> vs = key_of keys r"
proof -
  have "(\<forall>a \<in> set keys. \<exists>v. map_of r a = Some v \<and> v \<noteq> PNone) \<and> list_all hashable (key_of keys r)
      \<longleftrightarrow> keyed keys r"
    by (fastforce simp: keyed_def key_of_def list_all_iff)
  then show ?thesis by (auto simp: row_key_def rbind_Inr_iff row_key_values_Inr_iff split: if_splits)
qed

lemma keyed_hashable: "keyed keys r \<Longrightarrow> list_all hashable (key_of keys r)"
  by (auto simp: keyed_def key_of_def list_all_iff)

lemma key_left_Inr_iff: "key_left keys sid rows = Inr ks \<longleftrightarrow>
   (\<forall>r \<in> set rows. keyed keys r) \<and> ks = map (\<lambda>r. (key_of keys r, r)) rows"
proof -
  have "rmap (\<lambda>(i, r). rbind (row_key keys sid (i, r)) (\<lambda>k. Inr (k, r))) (enumerate n rows) = Inr ks \<longleftrightarrow>
    (\<forall>r \<in> set rows. keyed keys r) \<and> ks = map (\<lambda>r. (key_of keys r, r)) rows" for n
    by (induction rows arbitrary: n ks) (auto simp: rbind_Inr_iff row_key_Inr_iff)
  then show ?thesis by (simp add: key_left_def)
qed

definition grouped_by :: "string list \<Rightarrow> row list \<Rightarrow> grouped \<Rightarrow> bool" where
  "grouped_by keys rows g \<longleftrightarrow> (\<forall>e \<in> set g. list_all hashable (fst e)) \<and>
     (\<forall>k. list_all hashable k \<longrightarrow> group_get k g = filter (\<lambda>r. key_eq (key_of keys r) k) rows)"

lemma group_right_Inr:
  "grouped_by keys pre g \<Longrightarrow>
   rfold (group_right_step keys sid domain) (enumerate n rows) g = Inr g' \<Longrightarrow>
     grouped_by keys (pre @ rows) g' \<and>
     (\<forall>r \<in> set rows. keyed keys r \<and> (\<exists>k \<in> set domain. key_eq k (key_of keys r)))"
proof (induction rows arbitrary: pre n g)
  case Nil
  then show ?case by simp
next
  case (Cons r rows)
  from Cons.prems(2) have r: "keyed keys r" "\<exists>k \<in> set domain. key_eq k (key_of keys r)"
    and rest: "rfold (group_right_step keys sid domain) (enumerate (Suc n) rows)
      (group_append (key_of keys r) r g) = Inr g'"
    by (auto simp: group_right_step_def rbind_Inr_iff row_key_Inr_iff list_ex_iff split: if_splits)
  have "grouped_by keys (pre @ [r]) (group_append (key_of keys r) r g)"
    using Cons.prems(1) group_append_keys[of "key_of keys r" r g] keyed_hashable[OF r(1)]
    unfolding grouped_by_def by (force simp: group_get_append)
  from Cons.IH[OF this rest] r show ?case by simp
qed

lemma group_right_total:
  assumes "\<forall>r \<in> set rows. keyed keys r \<and> (\<exists>k \<in> set domain. key_eq k (key_of keys r))"
  shows "\<exists>g'. rfold (group_right_step keys sid domain) (enumerate n rows) g = Inr g'"
  using assms
proof (induction rows arbitrary: n g)
  case Nil
  then show ?case by simp
next
  case (Cons r rows)
  from Cons.prems have "row_key keys sid (n, r) = Inr (key_of keys r)" by (simp add: row_key_Inr_iff)
  with Cons show ?case by (simp add: group_right_step_def list_ex_iff)
qed

subsection \<open>The relational join\<close>

text \<open>The matching pairs in the order of the left rows, then of the right rows.\<close>

definition join_pairs :: "string list \<Rightarrow> row list \<Rightarrow> row list \<Rightarrow> (row \<times> row) list" where
  "join_pairs keys ls rs =
     concat (map (\<lambda>l. map (Pair l) (filter (\<lambda>r. key_eq (key_of keys r) (key_of keys l)) rs)) ls)"

definition joinable :: "string list \<Rightarrow> row list \<Rightarrow> row list \<Rightarrow> bool" where
  "joinable keys ls rs \<longleftrightarrow> (\<forall>r \<in> set ls \<union> set rs. keyed keys r) \<and>
     (\<forall>r \<in> set rs. \<exists>l \<in> set ls. key_eq (key_of keys l) (key_of keys r)) \<and>
     (\<forall>(l, r) \<in> set (join_pairs keys ls rs). \<exists>m. merge_rows keys l r = Inr m)"

definition merge_pairs :: "string list \<Rightarrow> (row \<times> row) list \<Rightarrow> row list" where
  "merge_pairs keys ps = map (\<lambda>(l, r). projr (merge_rows keys l r)) ps"

lemma rfold_nested:
  "rfold (\<lambda>x st. rfold (\<lambda>y. f (x, y)) (g x) st) xs s = rfold f (concat (map (\<lambda>x. map (Pair x) (g x)) xs)) s"
proof -
  have inner: "rfold (\<lambda>y. f (x, y)) ys s = rfold f (map (Pair x) ys) s" for x ys s
  proof (induction ys arbitrary: s)
    case Nil
    then show ?case by simp
  next
    case (Cons y ys)
    then show ?case by (cases "f (x, y) s") simp_all
  qed
  show ?thesis
  proof (induction xs arbitrary: s)
    case Nil
    then show ?case by simp
  next
    case (Cons x xs)
    then show ?case by (simp add: inner rfold_append) (rule rbind_cong[OF refl], simp)
  qed
qed

lemma join_pairs_fold:
  "rfold (join_pair keys limit) ps (rows, cnt) = Inr (rows', cnt') \<longleftrightarrow>
   (\<forall>(l, r) \<in> set ps. \<exists>m. merge_rows keys l r = Inr m) \<and> cnt' = cnt + length ps \<and>
   rows' = rows @ take (limit - length rows) (merge_pairs keys ps)"
proof (induction ps arbitrary: rows cnt)
  case Nil
  then show ?case by (auto simp: merge_pairs_def)
next
  case (Cons p ps)
  obtain l r where p: "p = (l, r)" by (cases p)
  show ?case
  proof (cases "merge_rows keys l r")
    case (Inl e)
    then show ?thesis by (simp add: p join_pair_def)
  next
    case (Inr m)
    show ?thesis
    proof (cases "length rows < limit")
      case True
      then obtain d where d: "limit - length rows = Suc d" by (metis Suc_diff_Suc)
      then have "limit - Suc (length rows) = d" by simp
      with True Inr Cons.IH[of "rows @ [m]" "Suc cnt"] d show ?thesis
        by (auto simp: p join_pair_def merge_pairs_def)
    next
      case False
      with Inr Cons.IH[of rows "Suc cnt"] show ?thesis
        by (auto simp: p join_pair_def merge_pairs_def)
    qed
  qed
qed

lemma join_loop_pairs:
  assumes "grouped_by keys rs g" and "\<forall>l \<in> set ls. keyed keys l"
  shows "join_loop keys limit (map (\<lambda>l. (key_of keys l, l)) ls) g =
    rfold (join_pair keys limit) (join_pairs keys ls rs) ([], 0)"
proof -
  have get: "group_get (key_of keys l) g = filter (\<lambda>r. key_eq (key_of keys r) (key_of keys l)) rs"
    if "l \<in> set ls" for l
    using assms that keyed_hashable by (auto simp: grouped_by_def)
  have "rfold (\<lambda>(k, left) st. rfold (\<lambda>right. join_pair keys limit (left, right)) (group_get k g) st)
      (map (\<lambda>l. (key_of keys l, l)) ls) s =
    rfold (\<lambda>l st. rfold (\<lambda>r. join_pair keys limit (l, r)) (group_get (key_of keys l) g) st) ls s" for s
    by (induction ls arbitrary: s) (auto intro: rbind_cong)
  then have "join_loop keys limit (map (\<lambda>l. (key_of keys l, l)) ls) g =
    rfold (join_pair keys limit) (concat (map (\<lambda>l. map (Pair l) (group_get (key_of keys l) g)) ls)) ([], 0)"
    unfolding join_loop_def by (simp add: rfold_nested[of "join_pair keys limit" "\<lambda>l. group_get (key_of keys l) g"])
  also have "concat (map (\<lambda>l. map (Pair l) (group_get (key_of keys l) g)) ls) = join_pairs keys ls rs"
    unfolding join_pairs_def by (intro arg_cong[of _ _ concat] map_cong) (simp_all add: get)
  finally show ?thesis .
qed

definition joined_ok :: "string list \<Rightarrow> source \<Rightarrow> source \<Rightarrow> nat \<Rightarrow> composed_result" where
  "joined_ok keys = (\<lambda>(ls, lreason, _) (rs, rreason, _) limit.
     let pairs = join_pairs keys ls rs in
     \<lparr>cr_mode = Joined, cr_transform = None, cr_rows = take limit (merge_pairs keys pairs),
      cr_sections = [], cr_error = None,
      cr_empty_reason = (if ls = [] \<or> rs = [] then Some (joined_empty_reason lreason rreason)
        else if pairs = [] then Some NO_DATA else None),
      cr_total_count = length pairs, cr_truncated = limit < length pairs\<rparr>)"

lemma join_pairs_empty: "ls = [] \<or> rs = [] \<Longrightarrow> join_pairs keys ls rs = []"
  by (auto simp: join_pairs_def)

lemma compose_joined_success:
  assumes "joinable (joinKeys lq) ls rs"
  shows "compose_joined lq rq (ls, lreason, False) (rs, rreason, False) limit =
    joined_ok (joinKeys lq) (ls, lreason, False) (rs, rreason, False) limit"
proof -
  let ?k = "joinKeys lq"
  have keyed: "\<forall>l \<in> set ls. keyed ?k l" "\<forall>r \<in> set rs. keyed ?k r"
    using assms by (auto simp: joinable_def)
  then have left: "key_left ?k (subquery_id lq) ls = Inr (map (\<lambda>l. (key_of ?k l, l)) ls)"
    by (simp add: key_left_Inr_iff)
  obtain g where g: "rfold (group_right_step ?k (subquery_id rq) (map fst (map (\<lambda>l. (key_of ?k l, l)) ls)))
      (enumerate 0 rs) [] = Inr g"
    using group_right_total[of rs ?k] assms by (force simp: joinable_def)
  have "grouped_by ?k rs g" using group_right_Inr[OF _ g, of "[]"] by (simp add: grouped_by_def)
  note loop = join_loop_pairs[OF this keyed(1), of limit]
  have run: "rfold (join_pair ?k limit) (join_pairs ?k ls rs) ([], 0) =
      Inr (take limit (merge_pairs ?k (join_pairs ?k ls rs)), length (join_pairs ?k ls rs))"
    using assms by (subst join_pairs_fold) (simp add: joinable_def)
  have len: "length (merge_pairs ?k ps) = length ps" for ps by (simp add: merge_pairs_def)
  show ?thesis
  proof (cases "ls = [] \<or> rs = []")
    case True
    with left g join_pairs_empty[OF True, of ?k] show ?thesis
      by (auto simp: compose_joined_def joined_ok_def lift_failure_def merge_pairs_def Let_def)
  next
    case False
    with left g loop run show ?thesis
      by (auto simp: compose_joined_def joined_ok_def lift_failure_def Let_def len min_def)
  qed
qed

lemma compose_joined_no_error:
  assumes "cr_error (compose_joined lq rq (ls, lreason, lt) (rs, rreason, rt) limit) = None"
  shows "\<not> lt \<and> \<not> rt \<and> joinable (joinKeys lq) ls rs"
proof -
  let ?k = "joinKeys lq"
  have nt: "\<not> lt" "\<not> rt" using assms by (auto simp: compose_joined_def compose_failure_def split: if_splits)
  with assms obtain ks g where
    ks: "key_left ?k (subquery_id lq) ls = Inr ks"
    and g: "rfold (group_right_step ?k (subquery_id rq) (map fst ks)) (enumerate 0 rs) [] = Inr g"
    and loop: "ls = [] \<or> rs = [] \<or> (\<exists>st. join_loop ?k limit ks g = Inr st)"
    by (auto simp: compose_joined_def lift_failure_def compose_failure_def rbind_def Let_def
        split: sum.splits if_splits)
  from ks have keyed: "\<forall>l \<in> set ls. keyed ?k l" and ks': "ks = map (\<lambda>l. (key_of ?k l, l)) ls"
    by (simp_all add: key_left_Inr_iff)
  from group_right_Inr[OF _ g, of "[]"] have grp: "grouped_by ?k rs g"
    and dom: "\<forall>r \<in> set rs. keyed ?k r \<and> (\<exists>k \<in> set (map fst ks). key_eq k (key_of ?k r))"
    by (simp_all add: grouped_by_def)
  have "\<forall>(l, r) \<in> set (join_pairs ?k ls rs). \<exists>m. merge_rows ?k l r = Inr m"
  proof (cases "ls = [] \<or> rs = []")
    case True
    from join_pairs_empty[OF True, of ?k] show ?thesis by simp
  next
    case False
    with loop obtain rows cnt where "join_loop ?k limit ks g = Inr (rows, cnt)" by auto
    then show ?thesis unfolding ks' join_loop_pairs[OF grp keyed] join_pairs_fold by blast
  qed
  with nt keyed dom show ?thesis by (auto simp: joinable_def ks')
qed

subsection \<open>The fields of a merged row\<close>

definition merged_of :: "string list \<Rightarrow> row \<Rightarrow> row \<Rightarrow> row \<Rightarrow> bool" where
  "merged_of keys l r m \<longleftrightarrow> dict_ok m \<and>
     (\<forall>f. map_of m f = (case map_of l f of Some v \<Rightarrow> Some v
        | None \<Rightarrow> if f \<in> set keys then None else map_of r f)) \<and>
     (\<forall>f v w. f \<notin> set keys \<longrightarrow> map_of l f = Some v \<longrightarrow> map_of r f = Some w \<longrightarrow> py_eq v w)"

lemma merge_rows_merged:
  "dict_ok l \<Longrightarrow> dict_ok r \<Longrightarrow> merge_rows keys l r = Inr m \<Longrightarrow> merged_of keys l r m"
  unfolding merge_rows_def
proof (induction r arbitrary: l)
  case Nil
  then show ?case by (auto simp: merged_of_def split: option.splits)
next
  case (Cons e r)
  obtain f v where e: "e = (f, v)" by (cases e)
  from Cons.prems(3) obtain l' where l': "merge_field keys (f, v) l = Inr l'"
    and rest: "rfold (merge_field keys) r l' = Inr m" by (auto simp: e rbind_Inr_iff)
  from l' have cases: "f \<in> set keys \<and> l' = l \<or> (\<exists>w. f \<notin> set keys \<and> map_of l f = Some w \<and> py_eq w v \<and> l' = l)
      \<or> f \<notin> set keys \<and> map_of l f = None \<and> l' = AList.update f v l"
    by (auto simp: merge_field_def split: if_splits option.splits)
  have "dict_ok l'" using cases Cons.prems(1) by auto
  moreover have ok: "dict_ok r" "map_of r f = None"
    using Cons.prems(2) by (auto simp: dict_ok_def e map_of_eq_None_iff)
  ultimately have "merged_of keys l' r m" by (intro Cons.IH[OF _ _ rest])
  with cases ok(2) show ?case
    unfolding merged_of_def e by (elim disjE exE conjE) (auto simp: update_conv' split: option.splits)
qed

subsection \<open>Shape of a composed result\<close>

definition composed_ok :: "composed_result \<Rightarrow> bool" where
  "composed_ok c \<longleftrightarrow>
     (cr_error c \<noteq> None \<longrightarrow> cr_rows c = [] \<and> cr_sections c = [] \<and> cr_empty_reason c = None \<and>
        cr_total_count c = 0) \<and>
     (cr_rows c \<noteq> [] \<longrightarrow> cr_empty_reason c = None) \<and>
     (cr_total_count c \<noteq> 0 \<longrightarrow> cr_empty_reason c = None) \<and>
     length (cr_rows c) \<le> cr_total_count c \<and>
     (cr_mode c \<noteq> Separate \<longrightarrow> cr_sections c = [] \<and>
        (length (cr_rows c) < cr_total_count c \<longrightarrow> cr_truncated c)) \<and>
     (cr_mode c = Separate \<longrightarrow> cr_rows c = []) \<and> dict_ok (cr_sections c)"

lemma dict_ok_fold_update: "dict_ok d \<Longrightarrow> dict_ok (fold (\<lambda>e d. AList.update (fst e) (snd e) d) es d)"
  by (induction es arbitrary: d) simp_all

lemma compose_failure_ok: "composed_ok (compose_failure mode message tr trunc)"
  by (simp add: composed_ok_def compose_failure_def)

lemma compose_single_ok: "composed_ok (compose_single s)"
  by (cases s) (simp add: composed_ok_def compose_single_def)

lemma compose_separate_ok: "composed_ok (compose_separate subs sources)"
  by (auto simp: composed_ok_def compose_separate_def overall_empty_reason_def list_ex_iff sum_list_eq_0_iff
      dict_ok_fold_update)

lemma compose_joined_ok: "composed_ok (compose_joined lq rq l r limit)"
proof (cases "cr_error (compose_joined lq rq l r limit)")
  case None
  obtain ls lreason lt rs rreason rt where lr: "l = (ls, lreason, lt)" "r = (rs, rreason, rt)"
    by (cases l; cases r)
  from compose_joined_no_error[OF None[unfolded lr]] have
    nt: "lt = False" "rt = False" and ok: "joinable (joinKeys lq) ls rs" by auto
  have "length (merge_pairs k ps) = length ps" for k ps by (simp add: merge_pairs_def)
  with compose_joined_success[OF ok, of rq lreason rreason limit]
    join_pairs_empty[of ls rs "joinKeys lq"] show ?thesis
    by (auto simp: lr nt composed_ok_def joined_ok_def Let_def merge_pairs_def)
next
  case (Some e)
  then show ?thesis
    by (auto simp: compose_joined_def lift_failure_def compose_failure_ok rbind_def Let_def
        split: prod.splits if_splits sum.splits)
qed

lemma compose_bom_ok: "compose_bom_shortage g s t spec limit = Inr c \<Longrightarrow> composed_ok c"
  by (auto simp: compose_bom_shortage_def compose_failure_def Let_def composed_ok_def
      split: prod.splits if_splits option.splits sum.splits bom_error.splits)

lemma compose_mode_Inl_ok: "compose_mode subs = Inl c \<Longrightarrow> composed_ok c"
  by (auto simp: compose_mode_def compose_failure_ok split: if_splits)

lemma compose_sources_ok:
  "compose_sources mode subs sources validated catalog limit = Inr c \<Longrightarrow> composed_ok c"
  by (auto simp: compose_sources_def compose_failure_ok compose_single_ok compose_separate_ok
      compose_joined_ok intro: compose_bom_ok split: option.splits sum.splits composition_mode.splits)

lemma compose_results_ok: "compose_results subs results limit raw catalog = Inr c \<Longrightarrow> composed_ok c"
  by (auto simp: compose_results_def rbind_Inr_iff compose_failure_ok dest: compose_mode_Inl_ok
      compose_sources_ok split: sum.splits if_splits)

lemma compose_without_transform_total: "\<exists>c. compose_results subs results limit PNone catalog = Inr c"
  by (auto simp: compose_results_def raw_transform_name_def validate_result_transform_def
      validate_transform_shape_def compose_sources_def split: sum.splits)

lemma joined_rows_merged:
  assumes "cr_error (compose_joined lq rq (ls, a, lt) (rs, b, rt) limit) = None"
    and "\<forall>r \<in> set ls \<union> set rs. dict_ok r"
    and "m \<in> set (cr_rows (compose_joined lq rq (ls, a, lt) (rs, b, rt) limit))"
  shows "\<exists>l \<in> set ls. \<exists>r \<in> set rs. key_eq (key_of (joinKeys lq) r) (key_of (joinKeys lq) l) \<and>
    merged_of (joinKeys lq) l r m"
proof -
  let ?k = "joinKeys lq"
  from compose_joined_no_error[OF assms(1)] have
    nt: "lt = False" "rt = False" and ok: "joinable ?k ls rs" by auto
  from assms(3) have "m \<in> set (merge_pairs ?k (join_pairs ?k ls rs))"
    unfolding nt compose_joined_success[OF ok] by (auto simp: joined_ok_def Let_def dest: in_set_takeD)
  then obtain l r where lr: "(l, r) \<in> set (join_pairs ?k ls rs)" "m = projr (merge_rows ?k l r)"
    by (auto simp: merge_pairs_def)
  from lr(1) have mem: "l \<in> set ls" "r \<in> set rs" "key_eq (key_of ?k r) (key_of ?k l)"
    by (auto simp: join_pairs_def)
  from ok lr have "merge_rows ?k l r = Inr m" by (auto simp: joinable_def)
  with merge_rows_merged[of l r ?k m] mem assms(2) show ?thesis by auto
qed

subsection \<open>Properties\<close>

text \<open>C6: \<open>_compose_joined\<close> is the relational join: it succeeds exactly when no source is truncated,
  every row has non-null hashable join keys, every right row's key occurs on the left and no matching
  pair disagrees on another field; then its rows are the merged matching pairs in left-major order,
  cut at the row limit, and its total counts all of them.\<close>

theorem compose_joined_is_join:
  "compose_joined lq rq (ls, a, lt) (rs, b, rt) limit = joined_ok (joinKeys lq) (ls, a, lt) (rs, b, rt) limit
     \<longleftrightarrow> \<not> lt \<and> \<not> rt \<and> joinable (joinKeys lq) ls rs"
  (is "?c = ?j \<longleftrightarrow> ?ok")
proof
  assume "?c = ?j"
  then have "cr_error ?c = None" by (simp add: joined_ok_def Let_def)
  then show ?ok by (rule compose_joined_no_error)
next
  assume ?ok
  then show "?c = ?j" using compose_joined_success[of lq ls rs rq a b limit] by (simp add: joined_ok_def)
qed

text \<open>Every row that \<open>_compose_joined\<close> returns merges one left and one right row with equal join
  keys: it has every field of the left row with its value, adds exactly the right row's other non-key
  fields, and the two rows agree on the fields they share.\<close>

theorem joined_rows_come_from_pairs:
  assumes "cr_error (compose_joined lq rq (ls, a, lt) (rs, b, rt) limit) = None"
    and "\<forall>r \<in> set ls \<union> set rs. dict_ok r"
    and "m \<in> set (cr_rows (compose_joined lq rq (ls, a, lt) (rs, b, rt) limit))"
  shows "\<exists>l \<in> set ls. \<exists>r \<in> set rs. key_eq (key_of (joinKeys lq) r) (key_of (joinKeys lq) l) \<and>
    merged_of (joinKeys lq) l r m"
  using assms by (rule joined_rows_merged)

definition example_left :: "row list" where
  "example_left = [[(''componentId'', PInt 5), (''name'', PStr ''bolt'')]]"

definition example_right :: "row list" where
  "example_right = [[(''componentId'', PDec (Dec 50 (-1))), (''stock'', PInt 3), (''name'', PStr ''bolt'')]]"

theorem joined_rows_come_from_pairs_witness:
  "\<exists>l \<in> set example_left. \<exists>r \<in> set example_right.
     key_eq (key_of [''componentId''] r) (key_of [''componentId''] l) \<and>
     merged_of [''componentId''] l r
       [(''componentId'', PInt 5), (''name'', PStr ''bolt''), (''stock'', PInt 3)]"
proof -
  have keys: "joinKeys example_graph = [''componentId'']" by (simp add: example_graph_def)
  let ?m = "[(''componentId'', PInt 5), (''name'', PStr ''bolt''), (''stock'', PInt 3)]"
  have err: "cr_error (compose_joined example_graph example_sql (example_left, None, False)
      (example_right, None, False) 10) = None" by code_simp
  have ok: "\<forall>r \<in> set example_left \<union> set example_right. dict_ok r" by code_simp
  have m: "?m \<in> set (cr_rows (compose_joined example_graph example_sql (example_left, None, False)
      (example_right, None, False) 10))" by code_simp
  from joined_rows_come_from_pairs[OF err ok m] show ?thesis by (simp only: keys)
qed

text \<open>Whatever the plan, the source results, the limit and the transform, a result that
  \<open>compose_results\<close> returns is well formed: an error carries no rows, sections, count or empty
  reason; an empty reason appears only with no rows counted; the rows never exceed the total, and
  fewer rows than the total are flagged as truncated.\<close>

theorem composed_result_well_formed:
  assumes "compose_results subs results limit raw catalog = Inr c"
  shows "composed_ok c"
  using assms by (rule compose_results_ok)

theorem composed_result_well_formed_witness:
  "composed_ok (compose_failure Single (SourceMissing ''g'' ''graph'') None False)"
proof (rule composed_result_well_formed[of "[example_graph]" "[]" 10 PNone None])
  show "compose_results [example_graph] [] 10 PNone None =
      Inr (compose_failure Single (SourceMissing ''g'' ''graph'') None False)" by code_simp
qed

text \<open>Without a formal transform no exception leaves \<open>compose_results\<close>: every malformed source,
  key or limit becomes a result.\<close>

theorem compose_results_never_raises:
  "\<exists>c. compose_results subs results limit PNone catalog = Inr c"
  by (rule compose_without_transform_total)


end
