(* ===== verification/Orchestrator.thy ===== *)
theory Orchestrator
  imports Request_Guard Route_Query Execute_Plan Composition
begin

text \<open>
  The orchestrator graph (\<open>orchestrator/graph.py\<close>) with the strict-query and composition nodes
  (\<open>orchestrator/nodes/strict_query.py\<close>, \<open>nodes/compose_results.py\<close>): a state machine whose states are a
  node and the shared state.  A node that raises ends the run.

  The run of the strict pipeline, entity resolution and answer generation are arguments, as are
  the chat models and databases of the other nodes.  Observability fields of the state are left out;
  the strict node's elapsed time too.
\<close>

subsection \<open>The strict attempt\<close>

datatype strict_run =
    StrictNotBuilt string
  | StrictTimeout
  | StrictRaised string
  | StrictReturned row

text \<open>\<open>_rejection_reason\<close>; \<open>Inl\<close> is the class of an exception that reading the result raises.\<close>

fun any_section_rows :: "(string \<times> pyval) list \<Rightarrow> string + bool" where
  "any_section_rows [] = Inr False"
| "any_section_rows ((_, v) # sections) = (case v of
     PDict section \<Rightarrow> if py_truthy (dict_get section ''rows'' PNone) then Inr True else any_section_rows sections
   | _ \<Rightarrow> Inl ''AttributeError'')"

definition rejection_reason :: "row \<Rightarrow> string + string option" where
  "rejection_reason result =
     (if py_truthy (dict_get result ''query_failure'' PNone) \<or> py_truthy (dict_get result ''error'' PNone)
      then Inr (Some ''query_failure'')
      else (case dict_get result ''composed_result'' PNone of
          PDict composed \<Rightarrow>
            if py_truthy (dict_get composed ''error'' PNone) then Inr (Some ''composition_failure'')
            else if py_truthy (dict_get composed ''truncated'' PNone) then Inr (Some ''truncated'')
            else if py_truthy (dict_get composed ''rows'' PNone) then Inr None
            else let sections = dict_get composed ''sections'' PNone in
              rbind (if \<not> py_truthy sections then Inr False
                     else (case sections of PDict d \<Rightarrow> any_section_rows d | _ \<Rightarrow> Inl ''AttributeError'')) (\<lambda>found.
                Inr (if found then None else Some ''empty_result''))
        | _ \<Rightarrow> Inr (Some ''composition_failure'')))"

definition ORCHESTRATOR_FIELDS :: "string list" where
  "ORCHESTRATOR_FIELDS = [''query'', ''query_strategy'', ''strict_attempt'', ''entity'', ''confirmed_entity'',
     ''tool_plan'', ''routeDraft'', ''rawRouteDraft'', ''subqueries'', ''resultTransform'', ''sql_query'',
     ''cypher_query'', ''sql_result'', ''graph_result'', ''composed_result'', ''query_failure'', ''final_answer'',
     ''answer_metadata'', ''routeRepairCount'', ''outputPlanRepairCount'', ''resultInvariantRetryCount'',
     ''visualization'', ''error'']"

definition accepted_fields :: "row \<Rightarrow> row" where
  "accepted_fields result = filter (\<lambda>(k, _). k \<in> set ORCHESTRATOR_FIELDS \<and>
     k \<notin> {''query'', ''confirmed_entity'', ''final_answer'', ''answer_metadata''}) result"

definition strict_reason :: "strict_run \<Rightarrow> string option" where
  "strict_reason run = (case run of
     StrictNotBuilt e \<Rightarrow> Some (''initialization:'' @ e)
   | StrictTimeout \<Rightarrow> Some ''timeout''
   | StrictRaised e \<Rightarrow> Some e
   | StrictReturned result \<Rightarrow> (case rejection_reason result of Inl e \<Rightarrow> Some e | Inr reason \<Rightarrow> reason))"

subsection \<open>The shared state\<close>

record orchestrator_state =
  os_query :: string
  os_confirmed :: pyval
  os_query_failure :: "query_failure option"
  os_strategy :: "string option"
  os_strict_attempt :: "string option option"
  os_strict_fields :: row
  os_entity :: pyval
  os_route :: "route_result option"
  os_plan :: "output_plan option"
  os_execution :: "plan_output option"
  os_composed :: "composed_result option"
  os_answer :: "string option"

definition initial_orchestrator_state :: "string \<Rightarrow> pyval \<Rightarrow> orchestrator_state" where
  "initial_orchestrator_state query confirmed = \<lparr>os_query = query, os_confirmed = confirmed, os_query_failure = None,
     os_strategy = None, os_strict_attempt = None, os_strict_fields = [], os_entity = PNone, os_route = None,
     os_plan = None, os_execution = None, os_composed = None, os_answer = None\<rparr>"

datatype node = GuardRequest | ClassifyTopic | StrictQuery | ResolveEntity | RouteQuery | PlanOutputs
  | ExecutePlan | ComposeResults | GenerateAnswer | Finished

datatype node_error =
    ResolveRaised string
  | RouteRaised route_error
  | PlanRaised output_error
  | ExecuteRaised execute_error
  | ComposeRaised compose_escape
  | AnswerRaised string

record orchestrator_env =
  oe_topic :: "string \<Rightarrow> string + string option"
  oe_strict :: "string \<Rightarrow> pyval \<Rightarrow> strict_run"
  oe_resolve :: "string \<Rightarrow> pyval \<Rightarrow> string + pyval"
  oe_router :: "string \<Rightarrow> pyval \<Rightarrow> route_env"
  oe_planner :: "string \<Rightarrow> pyval \<Rightarrow> planner_env"
  oe_production :: production
  oe_catalog :: semantic_catalog
  oe_row_limit :: int
  oe_render :: "plan_text \<Rightarrow> string"
  oe_answer :: "orchestrator_state \<Rightarrow> string + string"

subsection \<open>Nodes\<close>

definition strict_query :: "orchestrator_env \<Rightarrow> orchestrator_state \<Rightarrow> orchestrator_state" where
  "strict_query env s = (let run = oe_strict env (os_query s) (os_confirmed s); reason = strict_reason run in
     (case (reason, run) of
        (None, StrictReturned result) \<Rightarrow>
          s\<lparr>os_strategy := Some ''strict'', os_strict_attempt := Some None, os_strict_fields := accepted_fields result\<rparr>
      | _ \<Rightarrow> s\<lparr>os_strategy := Some ''pr61'', os_strict_attempt := Some reason\<rparr>))"

definition plan_state :: "orchestrator_state \<Rightarrow> planning_state" where
  "plan_state s = (case os_route s of
     None \<Rightarrow> \<lparr>ps_query = os_query s, ps_entity = os_entity s, ps_route = None, ps_raw_route = PNone, ps_transform = PNone\<rparr>
   | Some r \<Rightarrow> planning_state_of (os_query s) (os_entity s) r)"

text \<open>The dictionaries that execution stores and composition reads.\<close>

definition encode_reason :: "retry_empty_reason option \<Rightarrow> pyval" where
  "encode_reason r = (case r of None \<Rightarrow> PNone | Some NoData \<Rightarrow> PStr ''NO_DATA'' | Some Inconclusive \<Rightarrow> PStr ''INCONCLUSIVE'')"

definition encode_summary :: "(plan_text \<Rightarrow> string) \<Rightarrow> summary \<Rightarrow> row" where
  "encode_summary render x = [(''result'', su_result x),
     (''error'', case su_error x of None \<Rightarrow> PNone | Some t \<Rightarrow> PStr (render t)),
     (''empty_reason'', encode_reason (su_empty_reason x)), (''truncated'', PBool (su_truncated x))]"

definition composition_sources :: "(plan_text \<Rightarrow> string) \<Rightarrow> plan_output option \<Rightarrow> (string, row option) dict" where
  "composition_sources render out = (case out of
     None \<Rightarrow> [(''sql'', None), (''graph'', None)]
   | Some x \<Rightarrow> [(''sql'', map_option (encode_summary render) (po_sql_result x)),
               (''graph'', map_option (encode_summary render) (po_graph_result x))])"

definition planned_subqueries :: "orchestrator_state \<Rightarrow> subquery list" where
  "planned_subqueries s = (case os_plan s of None \<Rightarrow> [] | Some p \<Rightarrow> pl_subqueries p)"

definition planned_transform :: "orchestrator_state \<Rightarrow> bom_shortage_transform option" where
  "planned_transform s = (case os_plan s of None \<Rightarrow> None | Some p \<Rightarrow> pl_transform p)"

definition compose_results_node :: "orchestrator_env \<Rightarrow> orchestrator_state \<Rightarrow> compose_escape + composed_result" where
  "compose_results_node env s = compose_results (planned_subqueries s)
     (composition_sources (oe_render env) (os_execution s)) (oe_row_limit env)
     (encode_transform (planned_transform s)) (Some (oe_catalog env))"

definition route_by_query_failure :: "orchestrator_state \<Rightarrow> node \<Rightarrow> node" where
  "route_by_query_failure s allowed = (if os_query_failure s \<noteq> None then GenerateAnswer else allowed)"

text \<open>\<open>state.get("query_strategy", "pr61")\<close>.\<close>

definition route_by_strategy :: "orchestrator_state \<Rightarrow> node" where
  "route_by_strategy s = (if os_strategy s = Some ''strict'' then GenerateAnswer else ResolveEntity)"

subsection \<open>The graph\<close>

datatype config = At node orchestrator_state | Aborted node node_error

text \<open>One superstep: the node runs on the state and its outgoing edge chooses the next node.\<close>

inductive orch_step :: "orchestrator_env \<Rightarrow> config \<Rightarrow> config \<Rightarrow> bool" for env where
  guard: "s' = s\<lparr>os_query_failure := guard_request (os_query s)\<rparr> \<Longrightarrow>
     orch_step env (At GuardRequest s) (At (route_by_query_failure s' ClassifyTopic) s')"
| classify: "s' = s\<lparr>os_query_failure := classify_topic (oe_topic env) (os_query s)\<rparr> \<Longrightarrow>
     orch_step env (At ClassifyTopic s) (At (route_by_query_failure s' StrictQuery) s')"
| strict: "s' = strict_query env s \<Longrightarrow> orch_step env (At StrictQuery s) (At (route_by_strategy s') s')"
| resolve: "oe_resolve env (os_query s) (os_confirmed s) = Inr entity \<Longrightarrow>
     orch_step env (At ResolveEntity s) (At RouteQuery (s\<lparr>os_entity := entity\<rparr>))"
| resolve_raise: "oe_resolve env (os_query s) (os_confirmed s) = Inl e \<Longrightarrow>
     orch_step env (At ResolveEntity s) (Aborted ResolveEntity (ResolveRaised e))"
| route: "route_query (oe_router env (os_query s) (os_entity s)) (os_query s) (os_entity s) = Inr r \<Longrightarrow>
     orch_step env (At RouteQuery s) (At PlanOutputs (s\<lparr>os_route := Some r\<rparr>))"
| route_raise: "route_query (oe_router env (os_query s) (os_entity s)) (os_query s) (os_entity s) = Inl e \<Longrightarrow>
     orch_step env (At RouteQuery s) (Aborted RouteQuery (RouteRaised e))"
| plan: "plan_outputs (oe_planner env (os_query s) (os_entity s)) (oe_catalog env) (plan_state s) = Inr p \<Longrightarrow>
     orch_step env (At PlanOutputs s) (At ExecutePlan (s\<lparr>os_plan := Some p\<rparr>))"
| plan_raise: "plan_outputs (oe_planner env (os_query s) (os_entity s)) (oe_catalog env) (plan_state s) = Inl e \<Longrightarrow>
     orch_step env (At PlanOutputs s) (Aborted PlanOutputs (PlanRaised e))"
| execute: "execute_plan (production_env (oe_production env) (os_query s) (os_entity s)) (planned_subqueries s) = Inr out \<Longrightarrow>
     orch_step env (At ExecutePlan s)
       (At ComposeResults (s\<lparr>os_execution := Some out, os_query_failure := po_query_failure out\<rparr>))"
| execute_raise: "execute_plan (production_env (oe_production env) (os_query s) (os_entity s)) (planned_subqueries s) = Inl e \<Longrightarrow>
     orch_step env (At ExecutePlan s) (Aborted ExecutePlan (ExecuteRaised e))"
| compose: "compose_results_node env s = Inr c \<Longrightarrow>
     orch_step env (At ComposeResults s) (At GenerateAnswer (s\<lparr>os_composed := Some c\<rparr>))"
| compose_raise: "compose_results_node env s = Inl e \<Longrightarrow>
     orch_step env (At ComposeResults s) (Aborted ComposeResults (ComposeRaised e))"
| answer: "oe_answer env s = Inr a \<Longrightarrow>
     orch_step env (At GenerateAnswer s) (At Finished (s\<lparr>os_answer := Some a\<rparr>))"
| answer_raise: "oe_answer env s = Inl e \<Longrightarrow>
     orch_step env (At GenerateAnswer s) (Aborted GenerateAnswer (AnswerRaised e))"

inductive_cases orch_step_AtE: "orch_step env (At n s) c"
inductive_cases orch_step_AbortedE: "orch_step env (Aborted n e) c"

inductive orch_reach :: "orchestrator_env \<Rightarrow> orchestrator_state \<Rightarrow> config \<Rightarrow> bool" for env s0 where
  start: "orch_reach env s0 (At GuardRequest s0)"
| step: "orch_reach env s0 c \<Longrightarrow> orch_step env c c' \<Longrightarrow> orch_reach env s0 c'"

subsection \<open>Executable steps\<close>

definition next_config :: "orchestrator_env \<Rightarrow> config \<Rightarrow> config option" where
  "next_config env c = (case c of
     Aborted _ _ \<Rightarrow> None
   | At n s \<Rightarrow> (case n of
       GuardRequest \<Rightarrow> (let s' = s\<lparr>os_query_failure := guard_request (os_query s)\<rparr>
                       in Some (At (route_by_query_failure s' ClassifyTopic) s'))
     | ClassifyTopic \<Rightarrow> (let s' = s\<lparr>os_query_failure := classify_topic (oe_topic env) (os_query s)\<rparr>
                       in Some (At (route_by_query_failure s' StrictQuery) s'))
     | StrictQuery \<Rightarrow> (let s' = strict_query env s in Some (At (route_by_strategy s') s'))
     | ResolveEntity \<Rightarrow> Some (case oe_resolve env (os_query s) (os_confirmed s) of
           Inl e \<Rightarrow> Aborted ResolveEntity (ResolveRaised e)
         | Inr entity \<Rightarrow> At RouteQuery (s\<lparr>os_entity := entity\<rparr>))
     | RouteQuery \<Rightarrow> Some (case route_query (oe_router env (os_query s) (os_entity s)) (os_query s) (os_entity s) of
           Inl e \<Rightarrow> Aborted RouteQuery (RouteRaised e)
         | Inr r \<Rightarrow> At PlanOutputs (s\<lparr>os_route := Some r\<rparr>))
     | PlanOutputs \<Rightarrow> Some (case plan_outputs (oe_planner env (os_query s) (os_entity s)) (oe_catalog env) (plan_state s) of
           Inl e \<Rightarrow> Aborted PlanOutputs (PlanRaised e)
         | Inr p \<Rightarrow> At ExecutePlan (s\<lparr>os_plan := Some p\<rparr>))
     | ExecutePlan \<Rightarrow> Some (case execute_plan (production_env (oe_production env) (os_query s) (os_entity s)) (planned_subqueries s) of
           Inl e \<Rightarrow> Aborted ExecutePlan (ExecuteRaised e)
         | Inr out \<Rightarrow> At ComposeResults (s\<lparr>os_execution := Some out, os_query_failure := po_query_failure out\<rparr>))
     | ComposeResults \<Rightarrow> Some (case compose_results_node env s of
           Inl e \<Rightarrow> Aborted ComposeResults (ComposeRaised e)
         | Inr c \<Rightarrow> At GenerateAnswer (s\<lparr>os_composed := Some c\<rparr>))
     | GenerateAnswer \<Rightarrow> Some (case oe_answer env s of
           Inl e \<Rightarrow> Aborted GenerateAnswer (AnswerRaised e)
         | Inr a \<Rightarrow> At Finished (s\<lparr>os_answer := Some a\<rparr>))
     | Finished \<Rightarrow> None))"

lemma orch_step_iff: "orch_step env c c' \<longleftrightarrow> next_config env c = Some c'"
proof
  assume "orch_step env c c'"
  then show "next_config env c = Some c'"
    by (cases rule: orch_step.cases) (simp_all add: next_config_def Let_def)
next
  assume n: "next_config env c = Some c'"
  then obtain m s where c: "c = At m s" by (cases c) (auto simp: next_config_def)
  show "orch_step env c c'"
    using n unfolding c
    by (cases m) (auto simp: next_config_def Let_def intro: orch_step.intros split: sum.splits)
qed

text \<open>Every step moves towards the end of the graph, so a run has at most nine steps.\<close>

fun node_rank :: "node \<Rightarrow> nat" where
  "node_rank GuardRequest = 9" | "node_rank ClassifyTopic = 8" | "node_rank StrictQuery = 7"
| "node_rank ResolveEntity = 6" | "node_rank RouteQuery = 5" | "node_rank PlanOutputs = 4"
| "node_rank ExecutePlan = 3" | "node_rank ComposeResults = 2" | "node_rank GenerateAnswer = 1" | "node_rank Finished = 0"

fun config_rank :: "config \<Rightarrow> nat" where
  "config_rank (At n s) = node_rank n"
| "config_rank (Aborted n e) = 0"

lemma step_decreases: "orch_step env c c' \<Longrightarrow> config_rank c' < config_rank c"
  by (cases rule: orch_step.cases) (auto simp: route_by_query_failure_def route_by_strategy_def)

lemma final_iff: "next_config env c = None \<longleftrightarrow> config_rank c = 0"
  by (cases c; rename_tac n s; case_tac n) (auto simp: next_config_def Let_def)

function run_graph :: "orchestrator_env \<Rightarrow> config \<Rightarrow> config" where
  "run_graph env c = (case next_config env c of None \<Rightarrow> c | Some c' \<Rightarrow> run_graph env c')"
  by pat_completeness auto
termination
  by (relation "measure (\<lambda>(env, c). config_rank c)") (auto simp: orch_step_iff[symmetric] dest: step_decreases)

declare run_graph.simps [simp del]

lemma run_graph_reach: "orch_reach env s0 c \<Longrightarrow> orch_reach env s0 (run_graph env c) \<and> config_rank (run_graph env c) = 0"
proof (induction env c rule: run_graph.induct)
  case (1 env c)
  show ?case
  proof (cases "next_config env c")
    case None
    with 1(2) final_iff[of env c] show ?thesis by (simp add: run_graph.simps[of env c])
  next
    case (Some c')
    with 1(2) have "orch_reach env s0 c'" by (auto simp: orch_step_iff intro: orch_reach.step)
    from 1(1)[OF Some this] Some show ?thesis by (simp add: run_graph.simps[of env c])
  qed
qed

text \<open>The graph is deterministic: every reachable final configuration is the one the run computes.\<close>

lemma run_graph_step: "orch_step env c c' \<Longrightarrow> run_graph env c = run_graph env c'"
  by (simp add: orch_step_iff run_graph.simps[of env c])

lemma reach_run: "orch_reach env s0 c \<Longrightarrow> run_graph env (At GuardRequest s0) = run_graph env c"
  by (induction rule: orch_reach.induct) (simp_all add: run_graph_step)

lemma reach_final: "orch_reach env s0 c \<Longrightarrow> config_rank c = 0 \<Longrightarrow> c = run_graph env (At GuardRequest s0)"
  using reach_run[of env s0 c] final_iff[of env c] by (simp add: run_graph.simps[of env c])

lemma steps_bounded: "(orch_step env ^^ n) c c' \<Longrightarrow> n + config_rank c' \<le> config_rank c"
proof (induction n arbitrary: c')
  case (Suc n)
  then obtain d where "(orch_step env ^^ n) c d" "orch_step env d c'" by auto
  with Suc.IH[of d] step_decreases[of env d c'] show ?case by simp
qed simp

subsection \<open>What holds at every node\<close>

definition admitted :: "orchestrator_env \<Rightarrow> string \<Rightarrow> bool" where
  "admitted env query \<longleftrightarrow> \<not> has_write_intent query \<and> classify_topic (oe_topic env) query = None"

text \<open>After the strict attempt failed, the second path starts from the question alone.\<close>

definition fallback_state :: "orchestrator_env \<Rightarrow> orchestrator_state \<Rightarrow> orchestrator_state" where
  "fallback_state env s0 = s0\<lparr>os_query_failure := None, os_strategy := Some ''pr61'',
     os_strict_attempt := Some (strict_reason (oe_strict env (os_query s0) (os_confirmed s0)))\<rparr>"

definition planned_for :: "orchestrator_env \<Rightarrow> orchestrator_state \<Rightarrow> bool" where
  "planned_for env s \<longleftrightarrow> (\<exists>p. os_plan s = Some p \<and>
     plan_outputs (oe_planner env (os_query s) (os_entity s)) (oe_catalog env) (plan_state s) = Inr p)"

definition executed_for :: "orchestrator_env \<Rightarrow> orchestrator_state \<Rightarrow> bool" where
  "executed_for env s \<longleftrightarrow> (\<exists>out. os_execution s = Some out \<and> os_query_failure s = po_query_failure out \<and>
     execute_plan (production_env (oe_production env) (os_query s) (os_entity s)) (planned_subqueries s) = Inr out)"

text \<open>The three ways in which a question reaches its answer.\<close>

definition blocked_outcome :: "orchestrator_env \<Rightarrow> orchestrator_state \<Rightarrow> orchestrator_state \<Rightarrow> bool" where
  "blocked_outcome env s0 s \<longleftrightarrow> \<not> admitted env (os_query s0) \<and>
     (\<exists>f a. s = s0\<lparr>os_query_failure := Some f, os_answer := a\<rparr> \<and>
        (guard_request (os_query s0) = Some f \<or> classify_topic (oe_topic env) (os_query s0) = Some f))"

definition strict_outcome :: "orchestrator_env \<Rightarrow> orchestrator_state \<Rightarrow> orchestrator_state \<Rightarrow> bool" where
  "strict_outcome env s0 s \<longleftrightarrow> admitted env (os_query s0) \<and>
     (\<exists>result a. oe_strict env (os_query s0) (os_confirmed s0) = StrictReturned result \<and> rejection_reason result = Inr None \<and>
        s = s0\<lparr>os_query_failure := None, os_strategy := Some ''strict'', os_strict_attempt := Some None,
               os_strict_fields := accepted_fields result, os_answer := a\<rparr>)"

text \<open>The second path keeps the question and the record of the strict attempt, and nothing else of it.\<close>

definition second_path :: "orchestrator_env \<Rightarrow> orchestrator_state \<Rightarrow> orchestrator_state \<Rightarrow> bool" where
  "second_path env s0 s \<longleftrightarrow> admitted env (os_query s0) \<and>
     (\<exists>reason. strict_reason (oe_strict env (os_query s0) (os_confirmed s0)) = Some reason \<and>
        os_strict_attempt s = Some (Some reason)) \<and>
     os_strategy s = Some ''pr61'' \<and> os_strict_fields s = os_strict_fields s0 \<and>
     os_query s = os_query s0 \<and> os_confirmed s = os_confirmed s0"

definition routed_for :: "orchestrator_env \<Rightarrow> orchestrator_state \<Rightarrow> bool" where
  "routed_for env s \<longleftrightarrow> (\<exists>r. os_route s = Some r \<and>
     route_query (oe_router env (os_query s) (os_entity s)) (os_query s) (os_entity s) = Inr r)"

definition composed_for :: "orchestrator_env \<Rightarrow> orchestrator_state \<Rightarrow> bool" where
  "composed_for env s \<longleftrightarrow> (\<exists>c. os_composed s = Some c \<and> compose_results_node env s = Inr c)"

definition planned_outcome :: "orchestrator_env \<Rightarrow> orchestrator_state \<Rightarrow> orchestrator_state \<Rightarrow> bool" where
  "planned_outcome env s0 s \<longleftrightarrow> second_path env s0 s \<and> routed_for env s \<and> planned_for env s \<and> executed_for env s \<and>
     composed_for env s"

text \<open>An aborted run names the node that raised and the call that failed there.\<close>

definition abort_cause :: "orchestrator_env \<Rightarrow> orchestrator_state \<Rightarrow> node \<Rightarrow> node_error \<Rightarrow> bool" where
  "abort_cause env s0 n e = (case e of
     ResolveRaised x \<Rightarrow> n = ResolveEntity \<and> admitted env (os_query s0) \<and>
       oe_resolve env (os_query s0) (os_confirmed s0) = Inl x
   | RouteRaised x \<Rightarrow> n = RouteQuery \<and> (\<exists>s. second_path env s0 s \<and>
       route_query (oe_router env (os_query s) (os_entity s)) (os_query s) (os_entity s) = Inl x)
   | PlanRaised x \<Rightarrow> n = PlanOutputs \<and> (\<exists>s. second_path env s0 s \<and> routed_for env s \<and>
       plan_outputs (oe_planner env (os_query s) (os_entity s)) (oe_catalog env) (plan_state s) = Inl x)
   | ExecuteRaised x \<Rightarrow> n = ExecutePlan \<and> (\<exists>s. second_path env s0 s \<and> planned_for env s \<and>
       execute_plan (production_env (oe_production env) (os_query s) (os_entity s)) (planned_subqueries s) = Inl x)
   | ComposeRaised x \<Rightarrow> n = ComposeResults \<and> (\<exists>s. second_path env s0 s \<and> planned_for env s \<and> compose_results_node env s = Inl x)
   | AnswerRaised x \<Rightarrow> n = GenerateAnswer \<and> (\<exists>s. oe_answer env s = Inl x))"

definition answerable :: "orchestrator_env \<Rightarrow> orchestrator_state \<Rightarrow> orchestrator_state \<Rightarrow> bool" where
  "answerable env s0 s \<longleftrightarrow> blocked_outcome env s0 s \<or> strict_outcome env s0 s \<or> planned_outcome env s0 s"

definition orch_inv :: "orchestrator_env \<Rightarrow> orchestrator_state \<Rightarrow> config \<Rightarrow> bool" where
  "orch_inv env s0 c = (case c of
     Aborted n e \<Rightarrow> abort_cause env s0 n e
   | At n s \<Rightarrow> (case n of
       GuardRequest \<Rightarrow> s = s0
     | ClassifyTopic \<Rightarrow> \<not> has_write_intent (os_query s0) \<and> s = s0\<lparr>os_query_failure := None\<rparr>
     | StrictQuery \<Rightarrow> admitted env (os_query s0) \<and> s = s0\<lparr>os_query_failure := None\<rparr>
     | ResolveEntity \<Rightarrow> second_path env s0 s
     | RouteQuery \<Rightarrow> second_path env s0 s
     | PlanOutputs \<Rightarrow> second_path env s0 s \<and> routed_for env s
     | ExecutePlan \<Rightarrow> second_path env s0 s \<and> routed_for env s \<and> planned_for env s
     | ComposeResults \<Rightarrow> second_path env s0 s \<and> routed_for env s \<and> planned_for env s \<and> executed_for env s
     | GenerateAnswer \<Rightarrow> answerable env s0 s
     | Finished \<Rightarrow> answerable env s0 s \<and> os_answer s \<noteq> None))"

lemma guard_request_None: "guard_request q = None \<longleftrightarrow> \<not> has_write_intent q"
  by (simp add: guard_request_def)

text \<open>The predicates read only fields that later nodes leave alone.\<close>

lemma plan_state_fields [simp]:
  "plan_state (s\<lparr>os_plan := x3\<rparr>) = plan_state s"
  "plan_state (s\<lparr>os_execution := x4, os_query_failure := x5\<rparr>) = plan_state s"
  "plan_state (s\<lparr>os_composed := x6\<rparr>) = plan_state s"
  "plan_state (s\<lparr>os_answer := x7\<rparr>) = plan_state s"
  by (simp_all add: plan_state_def split: option.splits)

lemma later_fields [simp]:
  "second_path env s0 (s\<lparr>os_entity := x1\<rparr>) = second_path env s0 s"
  "second_path env s0 (s\<lparr>os_route := x2\<rparr>) = second_path env s0 s"
  "second_path env s0 (s\<lparr>os_plan := x3\<rparr>) = second_path env s0 s"
  "second_path env s0 (s\<lparr>os_execution := x4, os_query_failure := x5\<rparr>) = second_path env s0 s"
  "second_path env s0 (s\<lparr>os_composed := x6\<rparr>) = second_path env s0 s"
  "second_path env s0 (s\<lparr>os_answer := x7\<rparr>) = second_path env s0 s"
  "routed_for env (s\<lparr>os_plan := x3\<rparr>) = routed_for env s"
  "routed_for env (s\<lparr>os_execution := x4, os_query_failure := x5\<rparr>) = routed_for env s"
  "routed_for env (s\<lparr>os_composed := x6\<rparr>) = routed_for env s"
  "routed_for env (s\<lparr>os_answer := x7\<rparr>) = routed_for env s"
  "planned_for env (s\<lparr>os_execution := x4, os_query_failure := x5\<rparr>) = planned_for env s"
  "planned_for env (s\<lparr>os_composed := x6\<rparr>) = planned_for env s"
  "planned_for env (s\<lparr>os_answer := x7\<rparr>) = planned_for env s"
  "executed_for env (s\<lparr>os_composed := x6\<rparr>) = executed_for env s"
  "executed_for env (s\<lparr>os_answer := x7\<rparr>) = executed_for env s"
  "composed_for env (s\<lparr>os_answer := x7\<rparr>) = composed_for env s"
  by (simp_all add: second_path_def routed_for_def planned_for_def executed_for_def composed_for_def
      planned_subqueries_def planned_transform_def compose_results_node_def)

lemma answerable_answer:
  assumes "answerable env s0 s"
  shows "answerable env s0 (s\<lparr>os_answer := b\<rparr>)"
proof -
  have "blocked_outcome env s0 (s\<lparr>os_answer := b\<rparr>)" if "blocked_outcome env s0 s"
    using that unfolding blocked_outcome_def by (elim conjE exE) (simp, blast)
  moreover have "strict_outcome env s0 (s\<lparr>os_answer := b\<rparr>)" if "strict_outcome env s0 s"
    using that unfolding strict_outcome_def by (elim conjE exE) (simp, blast)
  moreover have "planned_outcome env s0 (s\<lparr>os_answer := b\<rparr>)" if "planned_outcome env s0 s"
    using that by (simp add: planned_outcome_def)
  ultimately show ?thesis using assms by (auto simp: answerable_def)
qed

lemma same_answer: "s = s\<lparr>os_answer := os_answer s\<rparr>"
  by simp

lemma strict_query_inv:
  assumes "admitted env (os_query s0)" and "s = s0\<lparr>os_query_failure := None\<rparr>"
  shows "orch_inv env s0 (At (route_by_strategy (strict_query env s)) (strict_query env s))"
proof (cases "strict_reason (oe_strict env (os_query s0) (os_confirmed s0))")
  case None
  then obtain result where r: "oe_strict env (os_query s0) (os_confirmed s0) = StrictReturned result" "rejection_reason result = Inr None"
    by (auto simp: strict_reason_def split: strict_run.splits sum.splits)
  with None assms have "strict_outcome env s0 (strict_query env s)"
    by (cases s0) (auto simp: strict_outcome_def strict_query_def Let_def)
  with None r assms show ?thesis
    by (simp add: orch_inv_def answerable_def route_by_strategy_def strict_query_def Let_def)
next
  case (Some reason)
  with assms have "strict_query env s = fallback_state env s0"
    by (simp add: strict_query_def fallback_state_def Let_def)
  with Some assms show ?thesis
    by (simp add: orch_inv_def route_by_strategy_def fallback_state_def second_path_def)
qed

lemma orch_inv_step:
  assumes "orch_step env c c'" and "orch_inv env s0 c" and "os_answer s0 = None"
  shows "orch_inv env s0 c'"
  using assms(1)
proof cases
  case (guard s' s)
  with assms(2,3) show ?thesis
    by (cases "guard_request (os_query s0)"; cases s0)
      (auto simp: orch_inv_def route_by_query_failure_def guard_request_None answerable_def blocked_outcome_def admitted_def guard_request_def)
next
  case (classify s' s)
  with assms(2,3) show ?thesis
    by (cases "classify_topic (oe_topic env) (os_query s0)"; cases s0)
      (auto simp: orch_inv_def route_by_query_failure_def answerable_def blocked_outcome_def admitted_def)
next
  case (strict s' s)
  with assms(2) strict_query_inv show ?thesis by (auto simp: orch_inv_def)
next
  case (resolve s entity)
  with assms(2) show ?thesis by (auto simp: orch_inv_def)
next
  case (resolve_raise s e)
  with assms(2) show ?thesis by (auto simp: orch_inv_def abort_cause_def second_path_def)
next
  case (route s r)
  with assms(2) show ?thesis by (simp add: orch_inv_def routed_for_def)
next
  case (plan s p)
  with assms(2) show ?thesis by (simp add: orch_inv_def planned_for_def)
next
  case (execute s out)
  with assms(2) show ?thesis by (simp add: orch_inv_def executed_for_def planned_subqueries_def)
next
  case (compose s x)
  with assms(2) show ?thesis
    by (simp add: orch_inv_def answerable_def planned_outcome_def composed_for_def compose_results_node_def
        planned_subqueries_def planned_transform_def)
next
  case (answer s a)
  with assms(2) show ?thesis by (simp add: orch_inv_def answerable_answer)
qed (use assms(2) in \<open>auto simp: orch_inv_def abort_cause_def\<close>)

lemma reach_inv:
  assumes "orch_reach env s0 c" and "os_answer s0 = None"
  shows "orch_inv env s0 c"
  using assms(1)
proof (induction rule: orch_reach.induct)
  case start
  show ?case by (simp add: orch_inv_def)
next
  case (step c c')
  from orch_inv_step[OF step(2) step.IH assms(2)] show ?case .
qed

subsection \<open>What stops a run\<close>

lemma plan_outputs_valid:
  assumes "plan_outputs penv cat st = Inr p"
  shows "plan_wf False (pl_subqueries p) \<and>
    validate_result_transform (ps_transform st) (pl_subqueries p) (Some cat) = Inr (pl_transform p)"
  using assms unfolding plan_outputs_def
  by (auto simp: rbind_Inr_iff dest!: validate_subqueries_sound split: option.splits)

lemma transform_revalidates:
  assumes "validate_result_transform raw subs (Some cat) = Inr t"
  shows "validate_result_transform (encode_transform t) subs (Some cat) = Inr t"
proof (cases t)
  case None
  then show ?thesis by (simp add: encode_transform_def validate_result_transform_def validate_transform_shape_def)
next
  case (Some x)
  have shape: "validate_transform_shape raw = Inr (Some x)"
    using assms Some unfolding validate_result_transform_def
    by (auto simp: rbind_Inr_iff split: option.splits if_splits sum.splits list.splits)
  from validate_result_transform_sound[OF assms[unfolded Some]] have "positive_finite (productionQty x)" by blast
  from encode_transform_valid[OF this] shape assms show ?thesis
    by (simp add: validate_result_transform_def Some)
qed

text \<open>For a planned transform the catalog lookups of \<open>compose_results\<close> succeed; only the calculation raises.\<close>

lemma composition_escape:
  assumes "validate_result_transform raw subs (Some cat) = Inr t"
    and "compose_results subs results limit (encode_transform t) (Some cat) = Inl e"
  shows "\<exists>x. e = EscapedBom x \<and> (\<forall>site. x \<noteq> BomValueError site)"
proof (cases t)
  case None
  with assms(2) compose_without_transform_total[of subs results limit "Some cat"] show ?thesis
    by (auto simp: encode_transform_def)
next
  case (Some x)
  note v = transform_revalidates[OF assms(1)]
  from validate_result_transform_sound[OF assms(1)[unfolded Some]] obtain graph sql spec go so where
    s: "subs = [graph, sql]" "transform cat ''bom_shortage_v1'' = Inr spec"
    "map_of (ts_required_outputs spec) Graph = Some go" "map_of (ts_required_outputs spec) Sql = Some so"
    by (cases "transform cat ''bom_shortage_v1''") (auto simp: transform_source_wf_def)
  have bom: "\<exists>x. e = EscapedBom x \<and> (\<forall>site. x \<noteq> BomValueError site)"
    if "compose_bom_shortage a b x spec n = Inl e" for a b n
    using that unfolding compose_bom_shortage_def
    by (simp add: s(3,4) split: prod.splits if_splits)
      (auto simp: Let_def split: sum.splits bom_error.splits)
  show ?thesis
    using assms(2) v s(2) unfolding compose_results_def
    by (auto simp: raw_transform_name_def encode_transform_def Some compose_sources_def
        split: sum.splits if_splits dest: bom)
qed

lemma transform_route_join_alias:
  assumes "route_ok env query expected d" and "\<not> blank query" and "rd_transform d = Some t"
  shows "''componentId'' \<in> set (re_shared_aliases env)"
proof -
  from assms have "route_wf (re_shared_aliases env) (re_catalog env) (rd_subqueries d)"
    and "validate_bom_shortage_route (rd_subqueries d) = Inr ()" by (auto simp: route_ok_def)
  then show ?thesis
    by (auto simp: validate_bom_shortage_route_def route_wf_def list_all_iff split: if_splits list.splits)
qed

text \<open>The nodes of one system share one catalog.\<close>

definition shares_catalog :: "orchestrator_env \<Rightarrow> semantic_catalog \<Rightarrow> bool" where
  "shares_catalog env cat \<longleftrightarrow> oe_catalog env = cat \<and> plain_aliases cat \<and>
     (''componentId'' \<in> set (shared_join_aliases cat) \<longrightarrow> transform_plannable cat) \<and>
     (\<forall>q e. rules_ok (oe_planner env q e) cat \<and> re_catalog (oe_router env q e) = Some cat \<and>
       re_shared_aliases (oe_router env q e) = shared_join_aliases cat)"

text \<open>The exceptions that can end a run, each traced to the call it comes from.\<close>

definition external_cause :: "orchestrator_env \<Rightarrow> string \<Rightarrow> pyval \<Rightarrow> node_error \<Rightarrow> bool" where
  "external_cause env query confirmed e = (case e of
     ResolveRaised x \<Rightarrow> oe_resolve env query confirmed = Inl x
   | RouteRaised x \<Rightarrow> \<exists>entity. route_query (oe_router env query entity) query entity = Inl x
   | PlanRaised x \<Rightarrow> \<exists>entity r. \<exists>sub \<in> set (rd_subqueries (rr_draft r)).
       route_query (oe_router env query entity) query entity = Inr r \<and> rd_transform (rr_draft r) = None \<and>
       model_choice (oe_planner env query entity) (oe_catalog env) (planning_state_of query entity r)
         (rd_subqueries (rr_draft r)) sub = Inl x
   | ExecuteRaised x \<Rightarrow> \<exists>entity t st y. x = AgentRaised y \<and> agent_of (production_env (oe_production env) query entity) t st = Inl y
   | ComposeRaised x \<Rightarrow> \<exists>y. x = EscapedBom y \<and> (\<forall>site. y \<noteq> BomValueError site)
   | AnswerRaised x \<Rightarrow> \<exists>s. oe_answer env s = Inl x)"

lemma second_path_query: "second_path env s0 s \<Longrightarrow> os_query s = os_query s0"
  by (simp add: second_path_def)

lemma planned_for_wf:
  assumes "planned_for env s"
  shows "plan_wf False (planned_subqueries s) \<and> (\<exists>raw. validate_result_transform raw (planned_subqueries s)
    (Some (oe_catalog env)) = Inr (planned_transform s))"
  using assms plan_outputs_valid by (fastforce simp: planned_for_def planned_subqueries_def planned_transform_def)

lemma plan_error_cause:
  assumes "validate_ontology o1 = Inr ()" and "build_query_semantic_catalog bom_rules s1 g o1 = Inr cat"
    and "shares_catalog env cat" and "\<not> blank (os_query s)" and "routed_for env s"
    and "plan_outputs (oe_planner env (os_query s) (os_entity s)) (oe_catalog env) (plan_state s) = Inl x"
  shows "external_cause env (os_query s) confirmed (PlanRaised x)"
proof -
  let ?router = "oe_router env (os_query s) (os_entity s)"
  from assms(5) obtain r where r: "os_route s = Some r" "route_query ?router (os_query s) (os_entity s) = Inr r"
    by (auto simp: routed_for_def)
  from transform_route_join_alias[OF conjunct1[OF route_query_ok[OF r(2)]] assms(4)] assms(3)
  have "rd_transform (rr_draft r) = None \<or> transform_plannable cat"
    by (cases "rd_transform (rr_draft r)") (auto simp: shares_catalog_def)
  with built.routed_questions_plan[of "(bom_rules, s1, g, o1)" cat "oe_planner env (os_query s) (os_entity s)" ?router
      "os_query s" "os_entity s" r] assms r show ?thesis
    by (auto simp: external_cause_def shares_catalog_def catalog_input_ok_def build_catalog_def plan_state_def)
qed

lemma abort_external:
  assumes "validate_ontology o1 = Inr ()" and "build_query_semantic_catalog bom_rules s1 g o1 = Inr cat"
    and "shares_catalog env cat" and "\<not> blank (os_query s0)" and "abort_cause env s0 n e"
  shows "external_cause env (os_query s0) (os_confirmed s0) e"
proof (cases e)
  case (PlanRaised x)
  with assms(4,5) plan_error_cause[OF assms(1-3)] show ?thesis
    by (auto simp: abort_cause_def) (metis second_path_query)
next
  case (ExecuteRaised x)
  with assms(5) obtain s where s: "second_path env s0 s" "planned_for env s"
    "execute_plan (production_env (oe_production env) (os_query s) (os_entity s)) (planned_subqueries s) = Inl x"
    by (auto simp: abort_cause_def)
  from s(3) have "plan_run (production_env (oe_production env) (os_query s) (os_entity s)) (planned_subqueries s) = Inl x"
    by (cases "plan_run (production_env (oe_production env) (os_query s) (os_entity s)) (planned_subqueries s)")
      (auto simp: execute_plan_def)
  from plan_run_error[OF plan_wf_shape[OF conjunct1[OF planned_for_wf[OF s(2)]]] this] second_path_query[OF s(1)] ExecuteRaised
  show ?thesis by (auto simp: external_cause_def)
next
  case (RouteRaised x)
  with assms(5) show ?thesis
    by (auto simp: abort_cause_def external_cause_def) (metis second_path_query)
next
  case (ComposeRaised x)
  with assms(5) composition_escape planned_for_wf show ?thesis
    by (auto simp: abort_cause_def external_cause_def compose_results_node_def) blast
qed (use assms(5) in \<open>auto simp: abort_cause_def external_cause_def\<close>)

subsection \<open>Properties\<close>

text \<open>A system whose strict attempt times out, and whose output model answers as given.\<close>

definition example_system :: "planner_env \<Rightarrow> orchestrator_env" where
  "example_system planner = \<lparr>oe_topic = (\<lambda>_. Inr (Some ''ON_TOPIC'')), oe_strict = (\<lambda>_ _. StrictTimeout),
     oe_resolve = (\<lambda>_ _. Inr PNone), oe_router = (\<lambda>_ _. example_router), oe_planner = (\<lambda>_ _. planner),
     oe_production = example_production (Inr [[(''depth'', PInt 1), (''pid'', PInt 7), (''pname'', PStr ''a'')]]),
     oe_catalog = example_built_catalog, oe_row_limit = 200, oe_render = (\<lambda>_. []), oe_answer = (\<lambda>_. Inr ''ok'')\<rparr>"

definition example_silent_planner :: planner_env where
  "example_silent_planner = example_planner\<lparr>pe_ask := (\<lambda>_ _ _. Inl ''APIError'')\<rparr>"

definition example_start :: orchestrator_state where
  "example_start = initial_orchestrator_state ''tree'' PNone"

definition at_finish :: "config \<Rightarrow> orchestrator_state option" where
  "at_finish c = (case c of At Finished s \<Rightarrow> Some s | _ \<Rightarrow> None)"

lemma example_planned:
  "\<not> isl (plan_outputs example_planner example_built_catalog (planning_state_of ''tree'' PNone example_route_result))"
  by code_simp

definition example_routed :: orchestrator_state where
  "example_routed = example_start\<lparr>os_strategy := Some ''pr61'', os_strict_attempt := Some (Some ''timeout''),
     os_route := Some example_route_result\<rparr>"

lemma example_admitted: "guard_request ''tree'' = None" "classify_topic (\<lambda>_. Inr (Some ''ON_TOPIC'')) ''tree'' = None"
  by code_simp+

lemma example_reaches_planning: "orch_reach (example_system planner) example_start (At PlanOutputs example_routed)"
proof -
  let ?env = "example_system planner"
  have start: "os_query example_start = ''tree''" "example_start\<lparr>os_query_failure := None\<rparr> = example_start"
    "os_query_failure example_start = None" "os_entity example_start = PNone"
    "example_start\<lparr>os_entity := PNone\<rparr> = example_start"
    by (simp_all add: example_start_def initial_orchestrator_state_def)
  let ?strict = "example_start\<lparr>os_strategy := Some ''pr61'', os_strict_attempt := Some (Some ''timeout'')\<rparr>"
  have r1: "orch_reach ?env example_start (At ClassifyTopic example_start)"
    using orch_reach.step[OF orch_reach.start orch_step.guard[OF refl], of ?env example_start]
    by (simp add: start example_admitted route_by_query_failure_def)
  have "oe_topic ?env = (\<lambda>_. Inr (Some ''ON_TOPIC''))" by (simp add: example_system_def)
  with orch_reach.step[OF r1 orch_step.classify[OF refl]]
  have r2: "orch_reach ?env example_start (At StrictQuery example_start)"
    by (simp add: start example_admitted route_by_query_failure_def)
  have "strict_query ?env example_start = ?strict"
    by (simp add: strict_query_def example_system_def strict_reason_def Let_def)
  with orch_reach.step[OF r2 orch_step.strict[OF refl]]
  have r3: "orch_reach ?env example_start (At ResolveEntity ?strict)" by (simp add: route_by_strategy_def)
  have "oe_resolve ?env (os_query ?strict) (os_confirmed ?strict) = Inr PNone" by (simp add: example_system_def)
  from orch_reach.step[OF r3 orch_step.resolve[OF this]] start(5)
  have r4: "orch_reach ?env example_start (At RouteQuery ?strict)"
    by (simp add: example_start_def initial_orchestrator_state_def)
  have "route_query (oe_router ?env (os_query ?strict) (os_entity ?strict)) (os_query ?strict) (os_entity ?strict) =
      Inr example_route_result"
    using example_routing by (simp add: example_system_def start)
  from orch_reach.step[OF r4 orch_step.route[OF this]] show ?thesis by (simp add: example_routed_def)
qed

lemma example_plan_state: "plan_state example_routed = planning_state_of ''tree'' PNone example_route_result"
  by (simp add: plan_state_def example_routed_def example_start_def initial_orchestrator_state_def)

lemma example_finish:
  "case run_graph (example_system example_planner) (At PlanOutputs example_routed) of
     At Finished s \<Rightarrow> os_strategy s = Some ''pr61'' \<and> os_query_failure s = None | _ \<Rightarrow> False"
  by code_simp

lemma example_silent:
  "isl (plan_outputs example_silent_planner example_built_catalog (planning_state_of ''tree'' PNone example_route_result))"
  by code_simp

text \<open>C18: Only a question that shows no write intent and is not classified off topic reaches the strict pipeline
  or any later node that calls a model or a database, and the question is not changed on the way; the plan
  that \<open>execute_plan\<close> receives is well formed.\<close>

theorem only_admitted_questions_are_executed:
  assumes "orch_reach env s0 (At n s)" and "os_answer s0 = None"
  shows "(n \<in> {StrictQuery, ResolveEntity, RouteQuery, PlanOutputs, ExecutePlan, ComposeResults} \<longrightarrow>
      \<not> has_write_intent (os_query s) \<and> classify_topic (oe_topic env) (os_query s) = None \<and> os_query s = os_query s0) \<and>
    (n = ExecutePlan \<longrightarrow> plan_wf False (planned_subqueries s))"
proof -
  note inv = reach_inv[OF assms, unfolded orch_inv_def config.case]
  have "admitted env (os_query s) \<and> os_query s = os_query s0"
    if "n \<in> {StrictQuery, ResolveEntity, RouteQuery, PlanOutputs, ExecutePlan, ComposeResults}"
    using that inv by (auto simp: second_path_def)
  moreover have "plan_wf False (planned_subqueries s)" if "n = ExecutePlan"
    using inv unfolding that node.case by (blast dest: planned_for_wf)
  ultimately show ?thesis unfolding admitted_def by blast
qed

theorem only_admitted_questions_are_executed_witness:
  "\<exists>s. orch_reach (example_system example_planner) example_start (At ExecutePlan s) \<and> plan_wf False (planned_subqueries s)"
proof -
  let ?env = "example_system example_planner"
  let ?plan = "plan_outputs example_planner example_built_catalog (planning_state_of ''tree'' PNone example_route_result)"
  obtain p where "?plan = Inr p" using example_planned by (cases ?plan) auto
  then have "plan_outputs (oe_planner ?env (os_query example_routed) (os_entity example_routed)) (oe_catalog ?env)
      (plan_state example_routed) = Inr p"
    by (simp add: example_plan_state example_system_def)
  from orch_reach.step[OF example_reaches_planning orch_step.plan[OF this]]
  have reach: "orch_reach ?env example_start (At ExecutePlan (example_routed\<lparr>os_plan := Some p\<rparr>))" .
  have "os_answer example_start = None" by (simp add: example_start_def initial_orchestrator_state_def)
  from only_admitted_questions_are_executed[OF reach this] reach show ?thesis by blast
qed

text \<open>C21: Every run of the graph ends: from the start every sequence of steps has at most nine of them, exactly one
  reachable configuration has no successor, and it is the one that \<open>run_graph\<close> computes.\<close>

theorem orchestrator_runs_end:
  "((orch_step env ^^ k) (At GuardRequest s0) c \<longrightarrow> k \<le> 9) \<and>
   (\<forall>d. orch_reach env s0 d \<and> (\<forall>d'. \<not> orch_step env d d') \<longleftrightarrow> d = run_graph env (At GuardRequest s0))"
proof -
  have final: "(\<forall>d'. \<not> orch_step env d d') \<longleftrightarrow> config_rank d = 0" for d
    using final_iff[of env d] by (simp add: orch_step_iff)
  have "k \<le> 9" if "(orch_step env ^^ k) (At GuardRequest s0) c"
    using steps_bounded[OF that] by simp
  moreover have "orch_reach env s0 d \<and> config_rank d = 0 \<longleftrightarrow> d = run_graph env (At GuardRequest s0)" for d
    using run_graph_reach[OF orch_reach.start[of env s0]] reach_final[of env s0 d] by metis
  ultimately show ?thesis unfolding final by simp
qed

theorem orchestrator_runs_end_witness:
  "orch_reach (example_system example_planner) example_start
     (run_graph (example_system example_planner) (At GuardRequest example_start)) \<and>
   at_finish (run_graph (example_system example_planner) (At GuardRequest example_start)) \<noteq> None"
proof -
  have "at_finish (run_graph (example_system example_planner) (At GuardRequest example_start)) \<noteq> None"
    using example_finish unfolding reach_run[OF example_reaches_planning]
    by (auto simp: at_finish_def split: config.splits node.splits)
  with orchestrator_runs_end[where env = "example_system example_planner" and ?s0.0 = example_start]
  show ?thesis by blast
qed

text \<open>C20: Every finished run is one of three.  A blocked question goes straight to the answer with the failure of
  the gate that blocked it and nothing else.  An accepted strict attempt is answered from its result alone.
  Otherwise the rejected strict attempt leaves only its reason behind, and the answer is generated from the
  composition of the execution of the plan of the route of the question.\<close>

theorem finished_runs_are_blocked_strict_or_planned:
  assumes "orch_reach env s0 (At Finished s)" and "os_answer s0 = None"
  shows "(blocked_outcome env s0 s \<or> strict_outcome env s0 s \<or> planned_outcome env s0 s) \<and> os_answer s \<noteq> None"
  using reach_inv[OF assms] by (simp add: orch_inv_def answerable_def)

theorem finished_runs_are_blocked_strict_or_planned_witness:
  "\<exists>s. orch_reach (example_system example_planner) example_start (At Finished s) \<and>
     planned_outcome (example_system example_planner) example_start s"
proof -
  let ?env = "example_system example_planner"
  let ?final = "run_graph ?env (At GuardRequest example_start)"
  have "case ?final of At Finished s \<Rightarrow> os_strategy s = Some ''pr61'' \<and> os_query_failure s = None | _ \<Rightarrow> False"
    using example_finish unfolding reach_run[OF example_reaches_planning] .
  then obtain s where s: "?final = At Finished s" "os_strategy s = Some ''pr61''" "os_query_failure s = None"
    by (auto split: config.splits node.splits)
  from run_graph_reach[OF orch_reach.start[of ?env example_start]] s(1)
  have reach: "orch_reach ?env example_start (At Finished s)" by simp
  have "os_answer example_start = None" by (simp add: example_start_def initial_orchestrator_state_def)
  from finished_runs_are_blocked_strict_or_planned[OF reach this] s(2,3) reach show ?thesis
    by (auto simp: blocked_outcome_def strict_outcome_def)
qed



end
