(* ===== verification/Py_Text.thy ===== *)
theory Py_Text
  imports Py_Decimal
begin

text \<open>
  How Python writes values as text: \<open>str\<close> and \<open>repr\<close>, \<open>json.dumps\<close> with \<open>ensure_ascii=False\<close>, compact
  separators and \<open>default=str\<close>, and \<open>int\<close> on a string.  \<open>repr\<close> of a driver object (dates, times) is the
  driver's own and an argument of the functions that need it.
\<close>

subsection \<open>Numbers\<close>

definition digit_char :: "nat \<Rightarrow> char" where
  "digit_char n = char_of (48 + n)"

fun nat_str :: "nat \<Rightarrow> string" where
  "nat_str n = (if n < 10 then [digit_char n] else nat_str (n div 10) @ [digit_char (n mod 10)])"

declare nat_str.simps [simp del]

definition int_str :: "int \<Rightarrow> string" where
  "int_str n = (if n < 0 then CHR ''-'' # nat_str (nat (- n)) else nat_str (nat n))"

text \<open>A coefficient with \<open>k\<close> digits after the point.\<close>

definition fixed_str :: "nat \<Rightarrow> nat \<Rightarrow> string" where
  "fixed_str c k = (let ds = nat_str c; ds = replicate (Suc k - length ds) CHR ''0'' @ ds; n = length ds - k in
     take n ds @ (if k = 0 then [] else CHR ''.'' # drop n ds))"

definition exponent_str :: "nat \<Rightarrow> int \<Rightarrow> string" where
  "exponent_str width x = (let ds = nat_str (nat \<bar>x\<bar>) in
     (if x < 0 then CHR ''-'' else CHR ''+'') # replicate (width - length ds) CHR ''0'' @ ds)"

definition scientific_str :: "char \<Rightarrow> nat \<Rightarrow> nat \<Rightarrow> int \<Rightarrow> string" where
  "scientific_str mark width c e = (let ds = nat_str c in
     hd ds # (if tl ds = [] then [] else CHR ''.'' # tl ds) @ mark # exponent_str width (e + int (length ds) - 1))"

definition with_sign :: "int \<Rightarrow> string \<Rightarrow> string" where
  "with_sign c s = (if c < 0 then CHR ''-'' # s else s)"

definition adjusted :: "int \<Rightarrow> int \<Rightarrow> int" where
  "adjusted c e = e + int (length (nat_str (nat \<bar>c\<bar>))) - 1"

fun float_str :: "pyfloat \<Rightarrow> string" where
  "float_str FNaN = ''nan''"
| "float_str (FInf neg) = (if neg then ''-inf'' else ''inf'')"
| "float_str (FFin _ c e) = with_sign c
     (if e \<le> 0 \<and> -4 \<le> adjusted c e \<and> adjusted c e < 16 then fixed_str (nat \<bar>c\<bar>) (nat (- e))
      else scientific_str CHR ''e'' 2 (nat \<bar>c\<bar>) e)"

fun decimal_str :: "decimal \<Rightarrow> string" where
  "decimal_str DNaN = ''NaN''"
| "decimal_str (DInf neg) = (if neg then ''-Infinity'' else ''Infinity'')"
| "decimal_str (Dec c e) = with_sign c
     (if e \<le> 0 \<and> -6 \<le> adjusted c e then fixed_str (nat \<bar>c\<bar>) (nat (- e))
      else scientific_str CHR ''E'' 0 (nat \<bar>c\<bar>) e)"

subsection \<open>Strings and containers\<close>

definition hex_char :: "nat \<Rightarrow> char" where
  "hex_char n = (if n < 10 then digit_char n else char_of (87 + n))"

definition char_backslash :: char where "char_backslash = char_of (92 :: nat)"
definition char_quote :: char where "char_quote = char_of (39 :: nat)"
definition char_dquote :: char where "char_dquote = char_of (34 :: nat)"

definition repr_char :: "char \<Rightarrow> char \<Rightarrow> string" where
  "repr_char q c = (let n = code c in
     if c = q \<or> c = char_backslash then [char_backslash, c]
     else if n = 9 then [char_backslash, CHR ''t''] else if n = 10 then [char_backslash, CHR ''n'']
     else if n = 13 then [char_backslash, CHR ''r'']
     else if n < 32 \<or> (127 \<le> n \<and> n \<le> 160) \<or> n = 173
     then [char_backslash, CHR ''x'', hex_char (n div 16), hex_char (n mod 16)]
     else [c])"

definition repr_str :: "string \<Rightarrow> string" where
  "repr_str s = (let q = (if char_quote \<in> set s \<and> char_dquote \<notin> set s then char_dquote else char_quote) in
     q # concat (map (repr_char q) s) @ [q])"

fun joined :: "string \<Rightarrow> string list \<Rightarrow> string" where
  "joined sep [] = []"
| "joined sep [x] = x"
| "joined sep (x # xs) = x @ sep @ joined sep xs"

fun py_repr :: "(string \<Rightarrow> string \<Rightarrow> string) \<Rightarrow> pyval \<Rightarrow> string" where
  "py_repr orepr PNone = ''None''"
| "py_repr orepr (PBool b) = (if b then ''True'' else ''False'')"
| "py_repr orepr (PInt n) = int_str n"
| "py_repr orepr (PFloat f) = float_str f"
| "py_repr orepr (PDec d) = ''Decimal('' @ [char_quote] @ decimal_str d @ [char_quote] @ '')''"
| "py_repr orepr (PStr s) = repr_str s"
| "py_repr orepr (PObj c t) = orepr c t"
| "py_repr orepr (PList xs) = ''['' @ joined '', '' (map (py_repr orepr) xs) @ '']''"
| "py_repr orepr (PDict d) = ''{'' @ joined '', '' (map (\<lambda>(k, v). repr_str k @ '': '' @ py_repr orepr v) d) @ ''}''"

definition py_str :: "(string \<Rightarrow> string \<Rightarrow> string) \<Rightarrow> pyval \<Rightarrow> string" where
  "py_str orepr v = (case v of PStr s \<Rightarrow> s | PObj c t \<Rightarrow> t | PDec d \<Rightarrow> decimal_str d | _ \<Rightarrow> py_repr orepr v)"

subsection \<open>JSON\<close>

definition json_char :: "char \<Rightarrow> string" where
  "json_char c = (let n = code c in
     if c = char_dquote \<or> c = char_backslash then [char_backslash, c]
     else if n = 8 then [char_backslash, CHR ''b''] else if n = 9 then [char_backslash, CHR ''t'']
     else if n = 10 then [char_backslash, CHR ''n''] else if n = 12 then [char_backslash, CHR ''f'']
     else if n = 13 then [char_backslash, CHR ''r'']
     else if n < 32 then [char_backslash, CHR ''u'', CHR ''0'', CHR ''0'', hex_char (n div 16), hex_char (n mod 16)]
     else [c])"

definition json_string :: "string \<Rightarrow> string" where
  "json_string s = char_dquote # concat (map json_char s) @ [char_dquote]"

fun json_float :: "pyfloat \<Rightarrow> string" where
  "json_float FNaN = ''NaN''"
| "json_float (FInf neg) = (if neg then ''-Infinity'' else ''Infinity'')"
| "json_float f = float_str f"

fun json_dumps :: "pyval \<Rightarrow> string" where
  "json_dumps PNone = ''null''"
| "json_dumps (PBool b) = (if b then ''true'' else ''false'')"
| "json_dumps (PInt n) = int_str n"
| "json_dumps (PFloat f) = json_float f"
| "json_dumps (PDec d) = json_string (decimal_str d)"
| "json_dumps (PStr s) = json_string s"
| "json_dumps (PObj c t) = json_string t"
| "json_dumps (PList xs) = ''['' @ joined '','' (map json_dumps xs) @ '']''"
| "json_dumps (PDict d) = ''{'' @ joined '','' (map (\<lambda>(k, v). json_string k @ '':'' @ json_dumps v) d) @ ''}''"

subsection \<open>int(text)\<close>

text \<open>Digits, with single underscores between them.\<close>

fun underscored :: "string \<Rightarrow> string option" where
  "underscored [] = None"
| "underscored [c] = (if is_digit c then Some [c] else None)"
| "underscored (c # d # r) =
     (if \<not> is_digit c then None
      else map_option (\<lambda>ds. c # ds) (underscored (if d = CHR ''_'' then r else d # r)))"

definition int_of_string :: "string \<Rightarrow> int option" where
  "int_of_string s = (case signed (strip s) of (sg, r) \<Rightarrow>
     map_option (\<lambda>ds. sg * int (digits_value 0 ds)) (underscored r))"

subsection \<open>Round trips\<close>

lemma digit_char_code: "n < 10 \<Longrightarrow> code (digit_char n) = 48 + n"
  by (simp add: code_def digit_char_def)

lemma digit_char_is_digit: "n < 10 \<Longrightarrow> is_digit (digit_char n)"
  by (simp add: is_digit_def digit_char_code)

lemma nat_str_digits: "nat_str n \<noteq> [] \<and> list_all is_digit (nat_str n)"
proof (induction n rule: nat_str.induct)
  case (1 n)
  then show ?case by (cases "n < 10") (auto simp: nat_str.simps[of n] digit_char_is_digit)
qed

lemma digits_value_append: "digits_value acc (xs @ ys) = digits_value (digits_value acc xs) ys"
  by (induction xs arbitrary: acc) auto

lemma digits_value_nat_str: "digits_value 0 (nat_str n) = n"
proof (induction n rule: nat_str.induct)
  case (1 n)
  then show ?case by (cases "n < 10") (auto simp: nat_str.simps[of n] digits_value_append digit_char_code)
qed

text \<open>The text of an integer reads back as the integer.\<close>

lemma underscored_digits: "ds \<noteq> [] \<Longrightarrow> list_all is_digit ds \<Longrightarrow> underscored ds = Some ds"
proof (induction ds rule: underscored.induct)
  case (3 c d r)
  then have "d \<noteq> CHR ''_''" by (auto simp: is_digit_def code_def)
  with 3 show ?case by simp
qed auto

lemma digit_not_space: "is_digit c \<Longrightarrow> \<not> is_space c \<and> c \<noteq> CHR ''-'' \<and> c \<noteq> CHR ''+''"
  by (auto simp: is_digit_def is_space_def code_def Let_def)

lemma strip_ends:
  assumes "s \<noteq> []" and "\<not> is_space (hd s)" and "\<not> is_space (last s)"
  shows "strip s = s"
proof -
  have "dropWhile is_space s = s" using assms(1,2) by (cases s) auto
  moreover have "dropWhile is_space (rev s) = rev s" using assms(1,3) by (cases s rule: rev_cases) auto
  ultimately show ?thesis by (simp add: strip_def)
qed

lemma int_of_string_int_str: "int_of_string (int_str n) = Some n"
proof -
  let ?ds = "nat_str (nat \<bar>n\<bar>)"
  have d: "?ds \<noteq> []" "list_all is_digit ?ds" using nat_str_digits by auto
  then have ends: "is_digit (hd ?ds)" "is_digit (last ?ds)" by (auto simp: list_all_iff)
  have s: "int_str n = (if n < 0 then CHR ''-'' # ?ds else ?ds)" by (simp add: int_str_def)
  have minus: "\<not> is_space CHR ''-''" by code_simp
  have "strip (int_str n) = int_str n"
    by (rule strip_ends) (use d ends digit_not_space minus in \<open>auto simp: s\<close>)
  moreover have "signed (int_str n) = (if n < 0 then (-1, ?ds) else (1, ?ds))"
    using d ends digit_not_space by (cases ?ds) (auto simp: s signed_def)
  ultimately show ?thesis
    using underscored_digits[OF d] by (auto simp: int_of_string_def digits_value_nat_str)
qed

end
