(* ===== verification/Answer_Limits.thy ===== *)
theory Answer_Limits
  imports Composition Py_Text "HOL-Library.Sublist"
begin

text \<open>
  The answer context (\<open>orchestrator/nodes/answer_limits.py\<close>): the part of a composed result that the answer
  model sees, trimmed to a number of rows and a number of characters of compact JSON.  Several sections share one
  budget, filled in turns.
\<close>

subsection \<open>Limits\<close>

definition DEFAULT_MAX_ROWS :: int where "DEFAULT_MAX_ROWS = 200"
definition DEFAULT_MAX_CHARS :: int where "DEFAULT_MAX_CHARS = 8000"

datatype limit_error = LimitNotInteger string | LimitNegative string

type_synonym environ = "string \<Rightarrow> string option"

definition configured_limit :: "environ \<Rightarrow> string \<Rightarrow> int \<Rightarrow> int option \<Rightarrow> limit_error + nat" where
  "configured_limit environ name def explicit =
     rbind (case explicit of
         Some v \<Rightarrow> Inr v
       | None \<Rightarrow> (case environ name of
             None \<Rightarrow> Inr def
           | Some text \<Rightarrow> (case int_of_string text of None \<Rightarrow> Inl (LimitNotInteger name) | Some v \<Rightarrow> Inr v)))
       (\<lambda>value. if value < 0 then Inl (LimitNegative name) else Inr (nat value))"

definition json_size :: "row \<Rightarrow> nat" where
  "json_size r = length (json_dumps (PDict r))"

subsection \<open>One list of rows\<close>

fun keep_rows :: "nat \<Rightarrow> row list \<Rightarrow> row list \<Rightarrow> nat \<Rightarrow> row list" where
  "keep_rows max_chars [] kept char_count = kept"
| "keep_rows max_chars (r # rs) kept char_count =
     (if max_chars < char_count + json_size r
      then if kept = [] then kept @ [r] else kept
      else keep_rows max_chars rs (kept @ [r]) (char_count + json_size r))"

record truncated_result =
  tr_rows :: "row list"
  tr_total_count :: nat
  tr_truncated :: bool

definition truncate_rows :: "nat \<Rightarrow> nat \<Rightarrow> row list \<Rightarrow> truncated_result" where
  "truncate_rows max_rows max_chars rows = (let kept = keep_rows max_chars (take max_rows rows) [] 0 in
     \<lparr>tr_rows = kept, tr_total_count = length rows, tr_truncated = length kept < length rows\<rparr>)"

definition truncate_result_for_answer :: "environ \<Rightarrow> row list \<Rightarrow> int option \<Rightarrow> int option \<Rightarrow> limit_error + truncated_result" where
  "truncate_result_for_answer environ rows max_rows max_chars =
     rbind (configured_limit environ ''ANSWER_MAX_ROWS'' DEFAULT_MAX_ROWS max_rows) (\<lambda>row_limit.
     rbind (configured_limit environ ''ANSWER_MAX_CHARS'' DEFAULT_MAX_CHARS max_chars) (\<lambda>char_limit.
       Inr (truncate_rows row_limit char_limit rows)))"

subsection \<open>Sections in turns\<close>

record section_state =
  ss_included :: "(string, row list) dict"
  ss_positions :: "(string, nat) dict"
  ss_blocked :: "string list"
  ss_count :: nat
  ss_chars :: nat
  ss_progressed :: bool

definition include_row :: "string \<Rightarrow> row \<Rightarrow> section_state \<Rightarrow> section_state" where
  "include_row sid r st = st\<lparr>
     ss_included := AList.update sid (dict_get (ss_included st) sid [] @ [r]) (ss_included st),
     ss_positions := AList.update sid (Suc (dict_get (ss_positions st) sid 0)) (ss_positions st),
     ss_count := Suc (ss_count st)\<rparr>"

definition block_section :: "string \<Rightarrow> section_state \<Rightarrow> section_state" where
  "block_section sid st = st\<lparr>ss_blocked := List.insert sid (ss_blocked st)\<rparr>"

definition visit_section :: "nat \<Rightarrow> nat \<Rightarrow> string \<times> row list \<Rightarrow> section_state \<Rightarrow> section_state" where
  "visit_section max_rows max_chars = (\<lambda>(sid, rows) st.
     if max_rows \<le> ss_count st \<or> sid \<in> set (ss_blocked st) then st
     else let position = dict_get (ss_positions st) sid 0 in
       if length rows \<le> position then block_section sid st
       else let r = rows ! position in
         if max_chars < ss_chars st + json_size r
         then block_section sid (if ss_count st = 0 then include_row sid r st else st)
         else (include_row sid r st)\<lparr>ss_chars := ss_chars st + json_size r, ss_progressed := True\<rparr>)"

definition section_pass :: "nat \<Rightarrow> nat \<Rightarrow> (string, row list) dict \<Rightarrow> section_state \<Rightarrow> section_state" where
  "section_pass max_rows max_chars sections st =
     fold (visit_section max_rows max_chars) sections (st\<lparr>ss_progressed := False\<rparr>)"

lemma visit_fields:
  "ss_count (include_row sid r st) = Suc (ss_count st)"
  "ss_progressed (include_row sid r st) = ss_progressed st"
  "ss_blocked (include_row sid r st) = ss_blocked st"
  "ss_chars (include_row sid r st) = ss_chars st"
  "ss_count (block_section sid st) = ss_count st"
  "ss_progressed (block_section sid st) = ss_progressed st"
  "ss_included (block_section sid st) = ss_included st"
  "ss_positions (block_section sid st) = ss_positions st"
  "ss_chars (block_section sid st) = ss_chars st"
  by (simp_all add: include_row_def block_section_def)

lemma visit_progress:
  "ss_count st \<le> ss_count (visit_section n m x st) \<and>
   (ss_progressed (visit_section n m x st) \<longrightarrow> ss_progressed st \<or> ss_count st < ss_count (visit_section n m x st))"
  by (cases x) (simp add: visit_section_def Let_def visit_fields)

lemma visits_progress:
  "ss_count st \<le> ss_count (fold (visit_section n m) xs st) \<and>
   (ss_progressed (fold (visit_section n m) xs st) \<longrightarrow> ss_progressed st \<or> ss_count st < ss_count (fold (visit_section n m) xs st))"
proof (induction xs arbitrary: st)
  case (Cons x xs)
  from Cons.IH[of "visit_section n m x st"] visit_progress[of st n m x] show ?case by auto
qed simp

lemma pass_progress: "ss_progressed (section_pass n m xs st) \<Longrightarrow> ss_count st < ss_count (section_pass n m xs st)"
  using visits_progress[of "st\<lparr>ss_progressed := False\<rparr>" n m xs] by (simp add: section_pass_def)

text \<open>The loop ends: every turn that continues it includes a row.\<close>

function section_loop :: "nat \<Rightarrow> nat \<Rightarrow> (string, row list) dict \<Rightarrow> section_state \<Rightarrow> section_state" where
  "section_loop max_rows max_chars sections st =
     (if ss_count st < max_rows
      then let st' = section_pass max_rows max_chars sections st in
        if ss_progressed st' then section_loop max_rows max_chars sections st' else st'
      else st)"
  by pat_completeness auto
termination
  by (relation "measure (\<lambda>(n, m, xs, st). n - ss_count st)") (auto dest: pass_progress)

declare section_loop.simps [simp del]

definition initial_sections :: "(string, row list) dict \<Rightarrow> section_state" where
  "initial_sections sections = \<lparr>ss_included = map (\<lambda>(sid, _). (sid, [])) sections,
     ss_positions = map (\<lambda>(sid, _). (sid, 0)) sections, ss_blocked = [], ss_count = 0, ss_chars = 0,
     ss_progressed = False\<rparr>"

definition truncate_sections :: "nat \<Rightarrow> nat \<Rightarrow> (string, row list) dict \<Rightarrow> (string, row list) dict \<times> nat \<times> bool" where
  "truncate_sections max_rows max_chars sections =
     (let st = section_loop max_rows max_chars sections (initial_sections sections);
          source_count = sum_list (map (length \<circ> snd) sections)
      in (ss_included st, ss_count st, ss_count st < source_count))"

subsection \<open>The context\<close>

record answer_section_context =
  sx_tool :: string
  sx_rows :: "row list"
  sx_empty_reason :: "empty_reason option"
  sx_included_count :: nat
  sx_known_count :: nat
  sx_count_is_exact :: bool

record answer_context =
  ac_mode :: composition_mode
  ac_transform :: "pyval option"
  ac_rows :: "row list"
  ac_sections :: "(string, answer_section_context) dict"
  ac_empty_reason :: "empty_reason option"
  ac_included_count :: nat
  ac_total_count :: nat
  ac_total_count_is_exact :: bool
  ac_source_truncated :: bool
  ac_prompt_truncated :: bool

definition section_context :: "bool \<Rightarrow> (string, row list) dict \<Rightarrow> string \<times> composed_section \<Rightarrow> string \<times> answer_section_context" where
  "section_context source_truncated included = (\<lambda>(sid, s).
     let rows = dict_get included sid [] in
     (sid, \<lparr>sx_tool = cs_tool s, sx_rows = rows, sx_empty_reason = cs_empty_reason s,
       sx_included_count = length rows, sx_known_count = length (cs_rows s), sx_count_is_exact = \<not> source_truncated\<rparr>))"

definition answer_context_of :: "nat \<Rightarrow> nat \<Rightarrow> composed_result \<Rightarrow> answer_context" where
  "answer_context_of row_limit char_limit c =
     (let base = \<lparr>ac_mode = cr_mode c, ac_transform = cr_transform c, ac_rows = [], ac_sections = [],
            ac_empty_reason = cr_empty_reason c, ac_included_count = 0, ac_total_count = cr_total_count c,
            ac_total_count_is_exact = (cr_mode c = Joined \<or> \<not> cr_truncated c),
            ac_source_truncated = cr_truncated c, ac_prompt_truncated = False\<rparr> in
      if cr_mode c = Separate
      then (case truncate_sections row_limit char_limit (map (\<lambda>(sid, s). (sid, cs_rows s)) (cr_sections c)) of
          (included, count, trimmed) \<Rightarrow>
            base\<lparr>ac_sections := map (section_context (cr_truncated c) included) (cr_sections c),
                 ac_included_count := count, ac_prompt_truncated := trimmed\<rparr>)
      else let limited = truncate_rows row_limit char_limit (cr_rows c) in
        base\<lparr>ac_rows := tr_rows limited, ac_included_count := length (tr_rows limited),
             ac_prompt_truncated := tr_truncated limited\<rparr>)"

definition build_answer_context :: "environ \<Rightarrow> composed_result \<Rightarrow> int option \<Rightarrow> int option \<Rightarrow> limit_error + answer_context" where
  "build_answer_context environ c max_rows max_chars =
     rbind (configured_limit environ ''ANSWER_MAX_ROWS'' DEFAULT_MAX_ROWS max_rows) (\<lambda>row_limit.
     rbind (configured_limit environ ''ANSWER_MAX_CHARS'' DEFAULT_MAX_CHARS max_chars) (\<lambda>char_limit.
       Inr (answer_context_of row_limit char_limit c)))"

subsection \<open>What one list keeps\<close>

definition chars_of :: "row list \<Rightarrow> nat" where
  "chars_of rows = sum_list (map json_size rows)"

lemma chars_of_simps [simp]: "chars_of [] = 0" "chars_of (r # rs) = json_size r + chars_of rs"
    "chars_of (xs @ ys) = chars_of xs + chars_of ys"
  by (simp_all add: chars_of_def)

text \<open>Within the budget, or one row alone that exceeds it.\<close>

definition within_budget :: "nat \<Rightarrow> row list \<Rightarrow> bool" where
  "within_budget max_chars rows \<longleftrightarrow> chars_of rows \<le> max_chars \<or> length rows = 1"

lemma keep_rows_spec:
  assumes "chars_of kept = cc" and "cc \<le> m"
  shows "\<exists>k \<le> length rs. keep_rows m rs kept cc = kept @ take k rs \<and> within_budget m (kept @ take k rs) \<and>
    (kept @ rs \<noteq> [] \<longrightarrow> kept @ take k rs \<noteq> []) \<and>
    (k < length rs \<longrightarrow> m < chars_of (kept @ take (Suc k) rs) \<or> m < chars_of (kept @ take k rs))"
  using assms
proof (induction rs arbitrary: kept cc)
  case Nil
  then show ?case by (auto simp: within_budget_def)
next
  case (Cons r rs)
  show ?case
  proof (cases "m < cc + json_size r")
    case True
    then show ?thesis
    proof (cases "kept = []")
      case True
      with \<open>m < cc + json_size r\<close> Cons.prems show ?thesis
        by (intro exI[of _ 1]) (auto simp: within_budget_def)
    next
      case False
      with \<open>m < cc + json_size r\<close> Cons.prems show ?thesis
        by (intro exI[of _ 0]) (auto simp: within_budget_def)
    qed
  next
    case False
    with Cons.prems Cons.IH[of "kept @ [r]" "cc + json_size r"] obtain k where k: "k \<le> length rs"
      "keep_rows m rs (kept @ [r]) (cc + json_size r) = kept @ [r] @ take k rs"
      "within_budget m (kept @ [r] @ take k rs)"
      "k < length rs \<longrightarrow> m < chars_of (kept @ [r] @ take (Suc k) rs) \<or> m < chars_of (kept @ [r] @ take k rs)"
      by auto
    with False show ?thesis by (intro exI[of _ "Suc k"]) auto
  qed
qed

lemma truncate_rows_spec:
  fixes n m rows
  defines "kept \<equiv> tr_rows (truncate_rows n m rows)"
  shows "prefix kept rows" and "length kept \<le> n" and "within_budget m kept" and "rows \<noteq> [] \<Longrightarrow> 0 < n \<Longrightarrow> kept \<noteq> []"
    and "tr_truncated (truncate_rows n m rows) \<longleftrightarrow> kept \<noteq> rows"
proof -
  define R where "R = take n rows"
  from keep_rows_spec[of "[]" 0 m R] obtain k where "k \<le> length R" "keep_rows m R [] 0 = take k R"
    "within_budget m (take k R)" "R \<noteq> [] \<longrightarrow> take k R \<noteq> []" by auto
  note k = this[unfolded R_def]
  have kn: "k \<le> n" using k(1) by simp
  have kept: "kept = take k rows" using k(2) kn by (simp add: kept_def truncate_rows_def Let_def min_def)
  show "prefix kept rows" by (simp add: kept take_is_prefix)
  show "length kept \<le> n" using k(1) by (simp add: kept)
  show "within_budget m kept" using k(3) kn by (simp add: kept min_def)
  show "kept \<noteq> []" if "rows \<noteq> []" "0 < n" using k(1,4) that by (auto simp: kept)
  show "tr_truncated (truncate_rows n m rows) \<longleftrightarrow> kept \<noteq> rows"
  proof -
    have "tr_truncated (truncate_rows n m rows) \<longleftrightarrow> length kept < length rows"
      by (simp add: kept_def truncate_rows_def Let_def)
    also have "\<dots> \<longleftrightarrow> kept \<noteq> rows" by (auto simp: kept)
    finally show ?thesis .
  qed
qed

subsection \<open>What the sections keep\<close>

definition included_of :: "section_state \<Rightarrow> string \<Rightarrow> row list" where
  "included_of st sid = dict_get (ss_included st) sid []"

definition position_of :: "section_state \<Rightarrow> string \<Rightarrow> nat" where
  "position_of st sid = dict_get (ss_positions st) sid 0"

definition kept_count :: "(string, row list) dict \<Rightarrow> section_state \<Rightarrow> nat" where
  "kept_count xs st = sum_list (map (\<lambda>x. length (included_of st (fst x))) xs)"

definition kept_chars :: "(string, row list) dict \<Rightarrow> section_state \<Rightarrow> nat" where
  "kept_chars xs st = sum_list (map (\<lambda>x. chars_of (included_of st (fst x))) xs)"

lemma included_simps [simp]:
  "included_of (include_row sid r st) = (included_of st)(sid := included_of st sid @ [r])"
  "position_of (include_row sid r st) = (position_of st)(sid := Suc (position_of st sid))"
  "included_of (block_section sid st) = included_of st" "position_of (block_section sid st) = position_of st"
  "included_of (st\<lparr>ss_progressed := b\<rparr>) = included_of st" "position_of (st\<lparr>ss_progressed := b\<rparr>) = position_of st"
  "included_of (st\<lparr>ss_chars := c\<rparr>) = included_of st" "position_of (st\<lparr>ss_chars := c\<rparr>) = position_of st"
  by (auto simp: included_of_def position_of_def include_row_def block_section_def dict_get_def update_conv fun_eq_iff split: option.splits)

lemma sum_list_update:
  assumes "distinct (map fst xs)" and "(sid, v) \<in> set xs" and "\<And>s. s \<noteq> sid \<Longrightarrow> g s = f s" and "g sid = f sid + (d :: nat)"
  shows "sum_list (map (\<lambda>x. g (fst x)) xs) = sum_list (map (\<lambda>x. f (fst x)) xs) + d"
  using assms(1,2)
proof (induction xs)
  case (Cons x xs)
  have same: "sum_list (map (\<lambda>x. g (fst x)) xs) = sum_list (map (\<lambda>x. f (fst x)) xs)" if "sid \<notin> fst ` set xs"
  proof -
    have "g (fst y) = f (fst y)" if "y \<in> set xs" for y
      using assms(3)[of "fst y"] \<open>sid \<notin> fst ` set xs\<close> that by auto
    then show ?thesis by (simp cong: map_cong)
  qed
  show ?case
  proof (cases "fst x = sid")
    case True
    with Cons.prems same assms(4) show ?thesis by auto
  next
    case False
    with Cons assms(3) show ?thesis by auto
  qed
qed simp

lemma kept_include:
  assumes "dict_ok xs" and "(sid, rows) \<in> set xs" and "included_of st' = (included_of st)(sid := included_of st sid @ [r])"
  shows "kept_count xs st' = Suc (kept_count xs st)" and "kept_chars xs st' = kept_chars xs st + json_size r"
proof -
  show "kept_count xs st' = Suc (kept_count xs st)"
    unfolding kept_count_def
    using sum_list_update[of xs sid rows "\<lambda>s. length (included_of st' s)" "\<lambda>s. length (included_of st s)" 1] assms by (simp add: dict_ok_def)
  show "kept_chars xs st' = kept_chars xs st + json_size r"
    unfolding kept_chars_def
    using sum_list_update[of xs sid rows "\<lambda>s. chars_of (included_of st' s)" "\<lambda>s. chars_of (included_of st s)" "json_size r"] assms
    by (simp add: dict_ok_def)
qed

text \<open>At most one oversized row, the first of its section, is kept beyond the budget.\<close>

definition overrun :: "(string, row list) dict \<Rightarrow> nat \<Rightarrow> bool" where
  "overrun xs extra \<longleftrightarrow> extra = 0 \<or> (\<exists>x \<in> set xs. snd x \<noteq> [] \<and> extra = json_size (hd (snd x)))"

definition sections_inv :: "nat \<Rightarrow> nat \<Rightarrow> (string, row list) dict \<Rightarrow> section_state \<Rightarrow> bool" where
  "sections_inv n m xs st \<longleftrightarrow>
     (\<forall>x \<in> set xs. included_of st (fst x) = take (position_of st (fst x)) (snd x) \<and> position_of st (fst x) \<le> length (snd x)) \<and>
     ss_count st = kept_count xs st \<and> ss_count st \<le> n \<and> ss_chars st \<le> m \<and>
     (\<exists>extra. kept_chars xs st = ss_chars st + extra \<and> overrun xs extra \<and> (ss_count st = 0 \<longrightarrow> extra = 0))"

lemma kept_cong: "included_of st' = included_of st \<Longrightarrow> kept_count xs st' = kept_count xs st \<and> kept_chars xs st' = kept_chars xs st"
  by (simp add: kept_count_def kept_chars_def)

lemma visit_keeps_inv:
  assumes inv: "sections_inv n m xs st" and xs: "dict_ok xs" "x \<in> set xs"
  shows "sections_inv n m xs (visit_section n m x st)"
proof -
  obtain sid rows where x: "x = (sid, rows)" by (cases x)
  have blocked: "sections_inv n m xs (block_section sid s)" if "sections_inv n m xs s" for s
    using that kept_cong[of "block_section sid s" s xs] by (auto simp: sections_inv_def visit_fields)
  have row: "y = (sid, rows)" if "y \<in> set xs" "fst y = sid" for y
    using xs that x by (cases y) (auto simp: dict_ok_def dest: eq_key_imp_eq_value)
  let ?p = "position_of st sid"
  have at: "included_of st sid = take ?p rows" "?p \<le> length rows" using inv xs(2) x by (auto simp: sections_inv_def)
  show ?thesis
  proof (cases "n \<le> ss_count st \<or> sid \<in> set (ss_blocked st) \<or> length rows \<le> ?p")
    case True
    with inv blocked show ?thesis by (auto simp: visit_section_def x Let_def position_of_def)
  next
    case False
    let ?r = "rows ! ?p"
    have step: "\<forall>y \<in> set xs. ((included_of st)(sid := included_of st sid @ [?r])) (fst y) = take (((position_of st)(sid := Suc ?p)) (fst y)) (snd y) \<and>
        ((position_of st)(sid := Suc ?p)) (fst y) \<le> length (snd y)"
      using inv False at by (auto simp: sections_inv_def take_Suc_conv_app_nth dest: row)
    show ?thesis
    proof (cases "m < ss_chars st + json_size ?r")
      case True
      show ?thesis
      proof (cases "ss_count st = 0")
        case zero: True
        from inv zero have "kept_chars xs st = ss_chars st" "kept_count xs st = 0" by (auto simp: sections_inv_def)
        moreover from this have "included_of st sid = []"
          using xs(2) x by (auto simp: kept_count_def)
        then have "?p = 0" using at False by auto
        then have "overrun xs (json_size ?r)"
          using xs(2) x False by (auto simp: overrun_def hd_conv_nth intro!: bexI[of _ "(sid, rows)"])
        ultimately have "sections_inv n m xs (include_row sid ?r st)"
          using inv step False zero kept_include[OF xs(1) xs(2)[unfolded x], of "include_row sid ?r st" st ?r]
          by (auto simp: sections_inv_def visit_fields)
        with blocked True False zero show ?thesis by (simp add: visit_section_def x Let_def position_of_def)
      next
        case False
        with blocked inv True \<open>\<not> (n \<le> ss_count st \<or> _)\<close> show ?thesis by (simp add: visit_section_def x Let_def position_of_def)
      qed
    next
      case fits: False
      let ?st = "(include_row sid ?r st)\<lparr>ss_chars := ss_chars st + json_size ?r, ss_progressed := True\<rparr>"
      have "sections_inv n m xs ?st"
        using inv step False fits kept_include[OF xs(1) xs(2)[unfolded x], of ?st st ?r]
        by (auto simp: sections_inv_def visit_fields)
      moreover have "visit_section n m x st = ?st"
        using False fits by (simp add: visit_section_def x Let_def position_of_def)
      ultimately show ?thesis by simp
    qed
  qed
qed

lemma visits_keep_inv:
  "sections_inv n m xs st \<Longrightarrow> dict_ok xs \<Longrightarrow> set ys \<subseteq> set xs \<Longrightarrow> sections_inv n m xs (fold (visit_section n m) ys st)"
proof (induction ys arbitrary: st)
  case (Cons y ys)
  then show ?case using visit_keeps_inv[of n m xs st y] by simp
qed simp

lemma pass_keeps_inv:
  assumes "sections_inv n m xs st" and "dict_ok xs"
  shows "sections_inv n m xs (section_pass n m xs st)"
proof -
  have "sections_inv n m xs (st\<lparr>ss_progressed := False\<rparr>)"
    using assms(1) kept_cong[of "st\<lparr>ss_progressed := False\<rparr>" st xs] by (auto simp: sections_inv_def)
  from visits_keep_inv[OF this assms(2)] show ?thesis by (simp add: section_pass_def)
qed

lemma loop_keeps_inv: "sections_inv n m xs st \<Longrightarrow> dict_ok xs \<Longrightarrow> sections_inv n m xs (section_loop n m xs st)"
proof (induction n m xs st rule: section_loop.induct)
  case (1 n m xs st)
  from pass_keeps_inv[OF 1(2,3)] 1 show ?case
    by (auto simp: section_loop.simps[of n m xs st] Let_def)
qed

lemma loop_count: "ss_count st \<le> ss_count (section_loop n m xs st)"
proof (induction n m xs st rule: section_loop.induct)
  case (1 n m xs st)
  have "ss_count st \<le> ss_count (section_pass n m xs st)"
    using visits_progress[of "st\<lparr>ss_progressed := False\<rparr>" n m xs] by (simp add: section_pass_def)
  with 1 show ?case by (auto simp: section_loop.simps[of n m xs st] Let_def)
qed

lemma initial_view [simp]:
  "included_of (initial_sections xs) k = []" "position_of (initial_sections xs) k = 0" "ss_count (initial_sections xs) = 0"
  "ss_blocked (initial_sections xs) = []" "ss_chars (initial_sections xs) = 0"
proof -
  have m: "map_of (map (\<lambda>(sid, _). (sid, v)) xs) k \<in> {None, Some v}" for v :: 'v
    by (induction xs) auto
  from m[of "[] :: row list"] show "included_of (initial_sections xs) k = []"
    by (auto simp: included_of_def initial_sections_def dict_get_def)
  from m[of "0 :: nat"] show "position_of (initial_sections xs) k = 0"
    by (auto simp: position_of_def initial_sections_def dict_get_def)
qed (simp_all add: initial_sections_def)

lemma initial_inv: "sections_inv n m xs (initial_sections xs)"
  by (simp add: sections_inv_def kept_count_def kept_chars_def overrun_def)

text \<open>While nothing is included, only empty sections are passed over.\<close>

lemma first_pass_empty:
  assumes "ss_count (fold (visit_section n m) ys st) = 0" and "0 < n" and "dict_ok ys"
    and "\<forall>y \<in> set ys. fst y \<notin> set (ss_blocked st) \<and> position_of st (fst y) = 0"
  shows "\<forall>y \<in> set ys. snd y = []"
  using assms
proof (induction ys arbitrary: st)
  case (Cons y ys)
  obtain sid rows where y: "y = (sid, rows)" by (cases y)
  let ?st = "visit_section n m y st"
  have zero: "ss_count st = 0" "ss_count ?st = 0"
    using Cons.prems(1) visit_progress[of st n m y] visits_progress[of ?st n m ys] by auto
  have rows: "rows = []"
  proof (rule ccontr)
    assume "rows \<noteq> []"
    then have "ss_count ?st = 1"
      using zero(1) Cons.prems(2,4) by (auto simp: y visit_section_def Let_def visit_fields position_of_def)
    with zero(2) show False by simp
  qed
  then have st: "?st = block_section sid st"
    using zero(1) Cons.prems(2,4) by (auto simp: y visit_section_def Let_def)
  have "\<forall>z \<in> set ys. fst z \<notin> set (ss_blocked ?st) \<and> position_of ?st (fst z) = 0"
    using Cons.prems(3,4) unfolding st included_simps
    by (auto simp: y block_section_def dict_ok_def rev_image_eqI)
  with Cons.IH[of ?st] Cons.prems(1-3) rows y show ?case by (simp add: dict_ok_def)
qed simp

lemma sections_included:
  assumes "dict_ok xs" and "0 < n" and "\<exists>x \<in> set xs. snd x \<noteq> []"
  shows "0 < ss_count (section_loop n m xs (initial_sections xs))"
proof -
  let ?st = "initial_sections xs"
  have "0 < ss_count (section_pass n m xs ?st)"
  proof (rule ccontr)
    assume "\<not> ?thesis"
    then have "ss_count (fold (visit_section n m) xs (?st\<lparr>ss_progressed := False\<rparr>)) = 0" by (simp add: section_pass_def)
    from first_pass_empty[OF this assms(2,1)] assms(3) show False by simp
  qed
  then show ?thesis
    using loop_count[of "section_pass n m xs ?st" n m xs] assms(2)
    by (simp add: section_loop.simps[of n m xs ?st] Let_def)
qed

text \<open>What the context promises of the composed result.\<close>

definition context_rows :: "answer_context \<Rightarrow> row list" where
  "context_rows a = ac_rows a @ concat (map (sx_rows \<circ> snd) (ac_sections a))"

definition result_rows :: "composed_result \<Rightarrow> row list" where
  "result_rows c = (if cr_mode c = Separate then concat (map (cs_rows \<circ> snd) (cr_sections c)) else cr_rows c)"

definition context_ok :: "nat \<Rightarrow> nat \<Rightarrow> composed_result \<Rightarrow> answer_context \<Rightarrow> bool" where
  "context_ok n m c a \<longleftrightarrow>
     ac_included_count a = length (context_rows a) \<and> length (context_rows a) \<le> n \<and>
     (cr_mode c \<noteq> Separate \<longrightarrow> ac_sections a = [] \<and> prefix (ac_rows a) (cr_rows c) \<and> within_budget m (ac_rows a)) \<and>
     (cr_mode c = Separate \<longrightarrow> ac_rows a = [] \<and>
        list_all2 (\<lambda>(i, s) (j, x). i = j \<and> prefix (sx_rows x) (cs_rows s) \<and> sx_included_count x = length (sx_rows x) \<and>
          sx_known_count x = length (cs_rows s)) (cr_sections c) (ac_sections a) \<and>
        (\<exists>extra. chars_of (context_rows a) \<le> m + extra \<and> (extra = 0 \<or> (\<exists>s \<in> snd ` set (cr_sections c).
          cs_rows s \<noteq> [] \<and> extra = json_size (hd (cs_rows s)))))) \<and>
     (ac_prompt_truncated a \<longleftrightarrow> length (context_rows a) < length (result_rows c)) \<and>
     (0 < n \<and> result_rows c \<noteq> [] \<longrightarrow> context_rows a \<noteq> [])"

lemma separate_context_ok:
  assumes "cr_mode c = Separate" and "dict_ok (cr_sections c)"
  shows "context_ok n m c (answer_context_of n m c)"
proof -
  let ?xs = "map (\<lambda>(sid, s). (sid, cs_rows s)) (cr_sections c)"
  let ?st = "section_loop n m ?xs (initial_sections ?xs)"
  let ?a = "answer_context_of n m c"
  have ok: "dict_ok ?xs" using assms(2) by (simp add: dict_ok_def case_prod_beta' comp_def)
  from loop_keeps_inv[OF initial_inv ok] have inv: "sections_inv n m ?xs ?st" .
  have a: "ac_sections ?a = map (section_context (cr_truncated c) (ss_included ?st)) (cr_sections c)" "ac_rows ?a = []"
    "ac_included_count ?a = ss_count ?st"
    "ac_prompt_truncated ?a \<longleftrightarrow> ss_count ?st < sum_list (map (length \<circ> snd) ?xs)"
    by (simp_all add: answer_context_of_def assms(1) truncate_sections_def Let_def)
  have rows: "context_rows ?a = concat (map (\<lambda>x. included_of ?st (fst x)) ?xs)"
    by (simp add: context_rows_def a comp_def section_context_def case_prod_beta' Let_def included_of_def)
  have count: "length (context_rows ?a) = ss_count ?st"
    using inv by (simp add: rows length_concat comp_def sections_inv_def kept_count_def)
  have chars: "chars_of (context_rows ?a) = kept_chars ?xs ?st"
  proof -
    have "chars_of (concat zs) = sum_list (map chars_of zs)" for zs by (induction zs) auto
    then show ?thesis by (simp add: rows kept_chars_def comp_def)
  qed
  have len: "sum_list (map (length \<circ> snd) ?xs) = length (result_rows c)"
    by (simp add: result_rows_def assms(1) length_concat comp_def case_prod_beta')
  have pre: "prefix (included_of ?st i) (cs_rows s)" if "(i, s) \<in> set (cr_sections c)" for i s
  proof -
    from that have "(i, cs_rows s) \<in> set ?xs" by force
    with inv have "included_of ?st i = take (position_of ?st i) (cs_rows s)" by (auto simp: sections_inv_def)
    then show ?thesis by (simp add: take_is_prefix)
  qed
  have "list_all2 (\<lambda>(i, s) (j, x). i = j \<and> prefix (sx_rows x) (cs_rows s) \<and> sx_included_count x = length (sx_rows x) \<and>
      sx_known_count x = length (cs_rows s)) (cr_sections c) (ac_sections ?a)"
    unfolding a list_all2_map2 list_all2_same using pre by (auto simp: section_context_def Let_def included_of_def)
  moreover have "\<exists>extra. chars_of (context_rows ?a) \<le> m + extra \<and> (extra = 0 \<or> (\<exists>s \<in> snd ` set (cr_sections c).
      cs_rows s \<noteq> [] \<and> extra = json_size (hd (cs_rows s))))"
  proof -
    from inv obtain extra where e: "kept_chars ?xs ?st = ss_chars ?st + extra" "overrun ?xs extra" "ss_chars ?st \<le> m"
      unfolding sections_inv_def by blast
    then have "chars_of (context_rows ?a) \<le> m + extra" unfolding chars by simp
    moreover have "extra = 0 \<or> (\<exists>s \<in> snd ` set (cr_sections c). cs_rows s \<noteq> [] \<and> extra = json_size (hd (cs_rows s)))"
      using e(2) unfolding overrun_def by force
    ultimately show ?thesis by blast
  qed
  moreover have "context_rows ?a \<noteq> []" if "0 < n" "result_rows c \<noteq> []"
  proof -
    have "\<exists>x \<in> set ?xs. snd x \<noteq> []" using that(2) by (force simp: result_rows_def assms(1))
    from sections_included[OF ok that(1) this, of m] count show ?thesis by auto
  qed
  ultimately show ?thesis
    using count a(3,4) len inv[unfolded sections_inv_def, THEN conjunct2, THEN conjunct2, THEN conjunct1]
    unfolding context_ok_def by (simp add: assms(1) a(2))
qed

lemma plain_context_ok:
  assumes "cr_mode c \<noteq> Separate"
  shows "context_ok n m c (answer_context_of n m c)"
proof -
  let ?a = "answer_context_of n m c" and ?t = "truncate_rows n m (cr_rows c)"
  have a: "ac_sections ?a = []" "ac_rows ?a = tr_rows ?t" "ac_included_count ?a = length (tr_rows ?t)"
    "ac_prompt_truncated ?a = tr_truncated ?t"
    using assms by (simp_all add: answer_context_of_def Let_def)
  have "tr_truncated ?t \<longleftrightarrow> length (tr_rows ?t) < length (cr_rows c)" by (simp add: truncate_rows_def Let_def)
  then show ?thesis
    using truncate_rows_spec[where n = n and m = m and rows = "cr_rows c"] assms by (auto simp: context_ok_def context_rows_def result_rows_def a)
qed

lemma answer_context_ok: "dict_ok (cr_sections c) \<Longrightarrow> context_ok n m c (answer_context_of n m c)"
  using separate_context_ok plain_context_ok by blast

lemma context_ok_separate:
  "context_ok n m c a \<Longrightarrow> cr_mode c = Separate \<Longrightarrow>
   ac_rows a = [] \<and> (ac_prompt_truncated a \<longleftrightarrow> length (context_rows a) < length (result_rows c))"
  by (simp add: context_ok_def)

subsection \<open>Properties\<close>

text \<open>C30: The context that the answer model receives shows every section, and of each list of rows a prefix in the
  original order; it never has more rows than the row limit, stays within the character limit except for
  one first row that alone exceeds it, is marked as cut exactly when a row of the result is missing, and
  shows at least one row of a result that has rows.\<close>

theorem answer_context_is_bounded:
  assumes "build_answer_context environ c max_rows max_chars = Inr a" and "dict_ok (cr_sections c)"
  shows "\<exists>n m. configured_limit environ ''ANSWER_MAX_ROWS'' DEFAULT_MAX_ROWS max_rows = Inr n \<and>
    configured_limit environ ''ANSWER_MAX_CHARS'' DEFAULT_MAX_CHARS max_chars = Inr m \<and> context_ok n m c a"
  using assms answer_context_ok by (auto simp: build_answer_context_def rbind_Inr_iff)

definition example_sections :: composed_result where
  "example_sections = \<lparr>cr_mode = Separate, cr_transform = None, cr_rows = [],
     cr_sections = [(''a'', \<lparr>cs_tool = ''sql'', cs_rows = [[(''x'', PStr ''long'')], [(''x'', PInt 1)]], cs_empty_reason = None\<rparr>),
                    (''b'', \<lparr>cs_tool = ''graph'', cs_rows = [[(''y'', PInt 2)], [(''y'', PInt 3)]], cs_empty_reason = None\<rparr>)],
     cr_error = None, cr_empty_reason = None, cr_total_count = 4, cr_truncated = False\<rparr>"

theorem answer_context_is_bounded_witness:
  "\<exists>a. build_answer_context (\<lambda>_. Some ''9'') example_sections (Some 3) None = Inr a \<and>
     map (sx_rows \<circ> snd) (ac_sections a) = [[[(''x'', PStr ''long'')]], [[(''y'', PInt 2)]]] \<and> ac_prompt_truncated a"
proof -
  let ?res = "build_answer_context (\<lambda>_. Some ''9'') example_sections (Some 3) None"
  have "case ?res of Inl _ \<Rightarrow> False | Inr a \<Rightarrow> map (sx_rows \<circ> snd) (ac_sections a) = [[[(''x'', PStr ''long'')]], [[(''y'', PInt 2)]]]"
    by code_simp
  then obtain a where a: "?res = Inr a" "map (sx_rows \<circ> snd) (ac_sections a) = [[[(''x'', PStr ''long'')]], [[(''y'', PInt 2)]]]"
    by (auto split: sum.splits)
  have "dict_ok (cr_sections example_sections)" by code_simp
  from answer_context_is_bounded[OF a(1) this] obtain n m where ok: "context_ok n m example_sections a" by blast
  have mode: "cr_mode example_sections = Separate" by (simp add: example_sections_def)
  have "ac_prompt_truncated a \<longleftrightarrow> length (context_rows a) < length (result_rows example_sections)" "ac_rows a = []"
    using context_ok_separate[OF ok mode] by blast+
  moreover have "length (result_rows example_sections) = 4" by code_simp
  ultimately have "ac_prompt_truncated a" by (simp add: context_rows_def a(2))
  then show ?thesis by (intro exI[of _ a] conjI a)
qed

end
