(* ===== verification/Generate_Answer.thy ===== *)
theory Generate_Answer
  imports Answer_Limits Query_Failures
begin

text \<open>
  Answer generation (\<open>orchestrator/nodes/generate_answer.py\<close>, \<open>orchestrator/numeric_literals.py\<close>): the node, its
  two attempts at a structured answer, and the check that every title and value of such an answer is a value
  of the rows that the model saw.

  The chat model, \<open>json.loads\<close>, the audit log and \<open>repr\<close> of driver objects are arguments.  So are the two
  functions that render Markdown and the visualization: their Korean fragments are not strings of the model.
  Units written in Hangul match no string of the model, so \<open>normalize_numeric_literal\<close> always takes its
  branch without units.
\<close>

subsection \<open>Numeric literals\<close>

definition format_f :: "nat \<Rightarrow> int \<Rightarrow> string" where
  "format_f c e = (if 0 < e then if c = 0 then ''0'' else nat_str c @ replicate (nat e) CHR ''0'' else fixed_str c (nat (- e)))"

definition trim_zeros :: "string \<Rightarrow> string" where
  "trim_zeros s = (if CHR ''.'' \<in> set s
     then rev (dropWhile (\<lambda>c. c = CHR ''.'') (dropWhile (\<lambda>c. c = CHR ''0'') (rev s))) else s)"

definition nan_text :: "string \<Rightarrow> string" where
  "nan_text r = (let u = map ascii_upper r; k = (if take 1 u = ''S'' then 4 else 3) in
     (if k = 4 then ''sNaN'' else ''NaN'') @ dropWhile (\<lambda>c. c = CHR ''0'') (drop k u))"

definition without_plus :: "string \<Rightarrow> string" where
  "without_plus s = (case s of c # r \<Rightarrow> if c = CHR ''+'' then r else s | [] \<Rightarrow> s)"

definition normalize_numeric_literal :: "string \<Rightarrow> string" where
  "normalize_numeric_literal value =
     (let unscaled = without_plus (filter (\<lambda>c. \<not> is_space c \<and> c \<noteq> CHR '','') value);
          (sg, r) = signed (filter (\<lambda>c. c \<noteq> CHR ''_'') unscaled);
          minus = (if sg < 0 then ''-'' else []) in
      case decimal_of_string unscaled of
        None \<Rightarrow> unscaled
      | Some (Dec c e) \<Rightarrow> minus @ trim_zeros (format_f (nat \<bar>c\<bar>) e)
      | Some (DInf _) \<Rightarrow> minus @ ''Infinity''
      | Some DNaN \<Rightarrow> minus @ nan_text r)"

subsection \<open>Grounding\<close>

fun is_numeric_leaf :: "pyval \<Rightarrow> bool" where
  "is_numeric_leaf (PInt _) = True"
| "is_numeric_leaf (PFloat _) = True"
| "is_numeric_leaf (PDec _) = True"
| "is_numeric_leaf _ = False"

type_synonym obj_repr = "string \<Rightarrow> string \<Rightarrow> string"

definition row_values :: "row list \<Rightarrow> pyval list" where
  "row_values rows = concat (map (map snd) rows)"

definition row_pool :: "answer_context \<Rightarrow> row list" where
  "row_pool a = (if ac_sections a \<noteq> [] then concat (map (sx_rows \<circ> snd) (ac_sections a)) else ac_rows a)"

definition known_text_values :: "obj_repr \<Rightarrow> row list \<Rightarrow> string list" where
  "known_text_values orepr rows =
     map (py_str orepr) (filter (\<lambda>v. v \<noteq> PNone \<and> \<not> is_numeric_leaf v) (row_values rows))"

definition known_numeric_literals :: "obj_repr \<Rightarrow> row list \<Rightarrow> string list" where
  "known_numeric_literals orepr rows =
     map (normalize_numeric_literal \<circ> py_str orepr) (filter is_numeric_leaf (row_values rows))"

definition title_is_grounded :: "string list \<Rightarrow> string list \<Rightarrow> string \<Rightarrow> bool" where
  "title_is_grounded texts numbers title \<longleftrightarrow> title \<in> set texts \<or> normalize_numeric_literal title \<in> set numbers"

definition metric_is_grounded :: "obj_repr \<Rightarrow> string list \<Rightarrow> string list \<Rightarrow> pyval \<Rightarrow> bool" where
  "metric_is_grounded orepr texts numbers value = (case value of
     PInt n \<Rightarrow> normalize_numeric_literal (py_str orepr value) \<in> set numbers
   | PFloat f \<Rightarrow> normalize_numeric_literal (py_str orepr value) \<in> set numbers
   | PStr s \<Rightarrow> normalize_numeric_literal s \<in> set numbers \<or> s \<in> set texts
   | _ \<Rightarrow> False)"

text \<open>What a reply can fail with: a value without ground, the wrong fields, or an exception of reading it.\<close>

datatype reply_error =
    UngroundedTitle
  | UngroundedValue
  | MissingField
  | EmptyHighlighted
  | ReplyException string

text \<open>\<open>for x in v\<close>\<close>

definition py_elements :: "pyval \<Rightarrow> reply_error + pyval list" where
  "py_elements v = (case v of
     PList xs \<Rightarrow> Inr xs
   | PStr s \<Rightarrow> Inr (map (\<lambda>c. PStr [c]) s)
   | PDict d \<Rightarrow> Inr (map (PStr \<circ> fst) d)
   | _ \<Rightarrow> Inl (ReplyException ''TypeError''))"

text \<open>\<open>v.get(key, default)\<close>\<close>

definition py_get :: "pyval \<Rightarrow> string \<Rightarrow> pyval \<Rightarrow> reply_error + pyval" where
  "py_get v key def = (case v of PDict d \<Rightarrow> Inr (dict_get d key def) | _ \<Rightarrow> Inl (ReplyException ''AttributeError''))"

definition check_metric :: "obj_repr \<Rightarrow> string list \<Rightarrow> string list \<Rightarrow> pyval \<Rightarrow> reply_error + unit" where
  "check_metric orepr texts numbers metric =
     rbind (py_get metric ''value'' PNone) (\<lambda>value. require (metric_is_grounded orepr texts numbers value) UngroundedValue)"

definition title_ok :: "string list \<Rightarrow> string list \<Rightarrow> pyval \<Rightarrow> bool" where
  "title_ok texts numbers title = (case title of
     PNone \<Rightarrow> True | PStr s \<Rightarrow> title_is_grounded texts numbers s | _ \<Rightarrow> False)"

definition check_item_grounding :: "obj_repr \<Rightarrow> string list \<Rightarrow> string list \<Rightarrow> pyval \<Rightarrow> reply_error + unit" where
  "check_item_grounding orepr texts numbers item =
     rbind (py_get item ''title'' PNone) (\<lambda>title.
     rbind (require (title_ok texts numbers title) UngroundedTitle) (\<lambda>_.
     rbind (py_get item ''metrics'' (PList [])) (\<lambda>metrics.
     rbind (py_elements metrics) (\<lambda>ms.
       rbind (rmap (check_metric orepr texts numbers) ms) (\<lambda>_. Inr ())))))"

definition check_items_grounding :: "obj_repr \<Rightarrow> string list \<Rightarrow> string list \<Rightarrow> pyval \<Rightarrow> reply_error + unit" where
  "check_items_grounding orepr texts numbers items =
     rbind (py_elements items) (\<lambda>xs. rbind (rmap (check_item_grounding orepr texts numbers) xs) (\<lambda>_. Inr ()))"

definition check_section_grounding :: "obj_repr \<Rightarrow> string list \<Rightarrow> string list \<Rightarrow> pyval \<Rightarrow> reply_error + unit" where
  "check_section_grounding orepr texts numbers s =
     rbind (py_get s ''highlighted'' (PList [])) (check_items_grounding orepr texts numbers)"

subsection \<open>One reply\<close>

record chat_choice =
  ch_finish_reason :: string
  ch_content :: "string option"

datatype answer_mode = FixedMode | StructuredMode | FallbackMode

record answer_metadata =
  am_mode :: answer_mode
  am_attempt_count :: nat
  am_fallback_reason :: "string option"
  am_validation_rejected :: bool

record answer_env =
  ae_environ :: environ
  ae_ask :: "string \<Rightarrow> answer_context \<Rightarrow> (string \<times> reply_error) list \<Rightarrow> string + chat_choice option"
  ae_json_loads :: "string \<Rightarrow> pyval option"
  ae_obj_repr :: obj_repr
  ae_audit_ok :: "string \<Rightarrow> bool"
  ae_render :: "row \<Rightarrow> answer_context \<Rightarrow> string + string"
  ae_render_fallback :: "composed_result \<Rightarrow> string + string"
  ae_visualize :: "composed_result \<Rightarrow> string + pyval"

definition render_structured_answer :: "answer_env \<Rightarrow> row \<Rightarrow> answer_context \<Rightarrow> reply_error + string" where
  "render_structured_answer env parsed ctx = (case (map_of parsed ''highlighted'', map_of parsed ''sections'') of
     (Some highlighted, Some sections) \<Rightarrow>
       if \<not> py_truthy highlighted \<and> \<not> py_truthy sections then Inl EmptyHighlighted
       else let orepr = ae_obj_repr env; texts = known_text_values orepr (row_pool ctx);
                numbers = known_numeric_literals orepr (row_pool ctx) in
         rbind (check_items_grounding orepr texts numbers highlighted) (\<lambda>_.
         rbind (py_elements sections) (\<lambda>ss.
         rbind (rmap (check_section_grounding orepr texts numbers) ss) (\<lambda>_.
         rbind (require (ae_audit_ok env ''accepted'') (ReplyException ''AuditError'')) (\<lambda>_.
           (case ae_render env parsed ctx of Inl e \<Rightarrow> Inl (ReplyException e) | Inr t \<Rightarrow> Inr t)))))
   | _ \<Rightarrow> Inl MissingField)"

definition reply_reason :: "reply_error \<Rightarrow> string option" where
  "reply_reason e = (case e of
     UngroundedTitle \<Rightarrow> Some ''ungrounded_highlighted_title''
   | UngroundedValue \<Rightarrow> Some ''ungrounded_highlighted_value''
   | MissingField \<Rightarrow> Some ''invalid_schema''
   | EmptyHighlighted \<Rightarrow> Some ''invalid_schema''
   | ReplyException _ \<Rightarrow> None)"

text \<open>An \<open>AnswerGenerationError\<close>: its reason, the number of attempts, and whether validation rejected a reply.\<close>

record answer_error =
  an_reason :: string
  an_attempt_count :: nat
  an_validation_rejected :: bool

definition answer_failed :: "string \<Rightarrow> nat \<Rightarrow> answer_error + 'a" where
  "answer_failed reason attempt = Inl \<lparr>an_reason = reason, an_attempt_count = attempt, an_validation_rejected = False\<rparr>"

subsection \<open>Two attempts\<close>

text \<open>The first argument holds the attempts that are left.\<close>

fun answer_loop :: "nat list \<Rightarrow> answer_env \<Rightarrow> string \<Rightarrow> answer_context \<Rightarrow> (string \<times> reply_error) list \<Rightarrow> bool
    \<Rightarrow> answer_error + string \<times> nat \<times> bool" where
  "answer_loop [] env query ctx history rejected =
     Inl \<lparr>an_reason = ''retry_loop_exhausted'', an_attempt_count = length history, an_validation_rejected = rejected\<rparr>"
| "answer_loop (attempt # rest) env query ctx history rejected =
     (case ae_ask env query ctx history of
        Inl e \<Rightarrow> answer_failed ''provider_error'' attempt
      | Inr None \<Rightarrow> answer_failed ''missing_choices'' attempt
      | Inr (Some choice) \<Rightarrow>
          if ch_finish_reason choice \<noteq> ''stop'' then answer_failed ''incomplete_response'' attempt
          else (case ch_content choice of
              None \<Rightarrow> answer_failed ''empty_response'' attempt
            | Some content \<Rightarrow>
                if blank content then answer_failed ''empty_response'' attempt
                else (case ae_json_loads env content of
                    None \<Rightarrow> answer_failed ''invalid_json'' attempt
                  | Some (PDict parsed) \<Rightarrow>
                      (case render_structured_answer env parsed ctx of
                         Inr text \<Rightarrow> Inr (text, attempt, rejected)
                       | Inl e \<Rightarrow> (case reply_reason e of
                             None \<Rightarrow> answer_failed ''provider_error'' attempt
                           | Some reason \<Rightarrow>
                               if rest \<noteq> [] then answer_loop rest env query ctx (history @ [(content, e)]) True
                               else if ae_audit_ok env ''rejected''
                               then Inl \<lparr>an_reason = reason, an_attempt_count = attempt, an_validation_rejected = True\<rparr>
                               else answer_failed ''provider_error'' attempt))
                  | Some _ \<Rightarrow> answer_failed ''invalid_json_root'' attempt)))"

definition model_configured :: "environ \<Rightarrow> bool" where
  "model_configured environ \<longleftrightarrow>
     (case environ ''ANSWER_MODEL'' of Some m \<Rightarrow> \<not> blank m | None \<Rightarrow> False) \<or> environ ''OPENAI_MODEL'' \<noteq> None"

definition tokens_configured :: "environ \<Rightarrow> bool" where
  "tokens_configured environ = (case environ ''ANSWER_MAX_OUTPUT_TOKENS'' of
     None \<Rightarrow> True
   | Some text \<Rightarrow> (case int_of_string text of None \<Rightarrow> False | Some n \<Rightarrow> 0 < n))"

definition generate_llm_answer :: "answer_env \<Rightarrow> string \<Rightarrow> composed_result \<Rightarrow> answer_error + string \<times> nat \<times> bool" where
  "generate_llm_answer env query c = (case build_answer_context (ae_environ env) c None None of
     Inl e \<Rightarrow> answer_failed ''provider_error'' 0
   | Inr ctx \<Rightarrow>
       if ac_included_count ctx = 0 then answer_failed ''empty_answer_context'' 0
       else if \<not> model_configured (ae_environ env) \<or> \<not> tokens_configured (ae_environ env)
       then answer_failed ''provider_error'' 0
       else answer_loop [1, 2] env query ctx [] False)"

definition generate_markdown_answer :: "answer_env \<Rightarrow> string \<Rightarrow> composed_result \<Rightarrow> string + string \<times> answer_metadata" where
  "generate_markdown_answer env query c = (case generate_llm_answer env query c of
     Inr (text, attempts, rejected) \<Rightarrow> Inr (text,
       \<lparr>am_mode = StructuredMode, am_attempt_count = attempts, am_fallback_reason = None, am_validation_rejected = rejected\<rparr>)
   | Inl e \<Rightarrow> (case ae_render_fallback env c of
       Inl x \<Rightarrow> Inl x
     | Inr text \<Rightarrow> Inr (text, \<lparr>am_mode = FallbackMode, am_attempt_count = an_attempt_count e,
         am_fallback_reason = Some (an_reason e), am_validation_rejected = an_validation_rejected e\<rparr>)))"

subsection \<open>The node\<close>

datatype answer_text =
    FailureText query_failure
  | InternalFailureText
  | CompositionErrorText
  | InconclusiveText
  | NoDataText
  | GeneratedText string

datatype answer_escape = QueryInfrastructureError | VisualizationRaised string | FallbackRaised string

record generated_answer =
  ga_final_answer :: answer_text
  ga_metadata :: answer_metadata
  ga_visualization :: "pyval option"

definition fixed_answer :: "answer_text \<Rightarrow> generated_answer" where
  "fixed_answer t = \<lparr>ga_final_answer = t, ga_metadata = \<lparr>am_mode = FixedMode, am_attempt_count = 0,
     am_fallback_reason = None, am_validation_rejected = False\<rparr>, ga_visualization = None\<rparr>"

definition has_answer_rows :: "composed_result \<Rightarrow> bool" where
  "has_answer_rows c \<longleftrightarrow> cr_rows c \<noteq> [] \<or> list_ex (\<lambda>(_, s). cs_rows s \<noteq> []) (cr_sections c)"

definition answer_composed :: "answer_env \<Rightarrow> string \<Rightarrow> composed_result \<Rightarrow> answer_escape + generated_answer" where
  "answer_composed env query c =
     (if \<not> has_answer_rows c
      then Inr (fixed_answer (case cr_empty_reason c of
          Some INCONCLUSIVE \<Rightarrow> InconclusiveText | Some NO_DATA \<Rightarrow> NoDataText | None \<Rightarrow> CompositionErrorText))
      else (case ae_visualize env c of
          Inl e \<Rightarrow> Inl (VisualizationRaised e)
        | Inr spec \<Rightarrow> (case generate_markdown_answer env query c of
            Inl e \<Rightarrow> Inl (FallbackRaised e)
          | Inr (text, meta) \<Rightarrow> Inr \<lparr>ga_final_answer = GeneratedText text, ga_metadata = meta, ga_visualization = Some spec\<rparr>)))"

definition generate_answer :: "answer_env \<Rightarrow> string \<Rightarrow> query_failure option \<Rightarrow> composed_result option
    \<Rightarrow> answer_escape + generated_answer" where
  "generate_answer env query failure composed = (case failure of
     Some f \<Rightarrow> (case qf_kind f of
         Infrastructure \<Rightarrow> Inl QueryInfrastructureError
       | UserCorrectable \<Rightarrow> Inr (fixed_answer (FailureText f))
       | Internal \<Rightarrow> Inr (fixed_answer InternalFailureText))
   | None \<Rightarrow> (case composed of
         None \<Rightarrow> Inr (fixed_answer CompositionErrorText)
       | Some c \<Rightarrow> if cr_error c \<noteq> None then Inr (fixed_answer CompositionErrorText) else answer_composed env query c))"

declare answer_loop.simps [simp del]

subsection \<open>What an accepted reply says\<close>

definition elements_of :: "pyval \<Rightarrow> pyval list" where
  "elements_of v = (case py_elements v of Inl _ \<Rightarrow> [] | Inr xs \<Rightarrow> xs)"

definition entry_of :: "pyval \<Rightarrow> string \<Rightarrow> pyval \<Rightarrow> pyval" where
  "entry_of v key def = (case v of PDict d \<Rightarrow> dict_get d key def | _ \<Rightarrow> def)"

text \<open>The titles and values that an item of a reply shows.\<close>

definition item_claims :: "pyval \<Rightarrow> pyval list" where
  "item_claims item = (let title = entry_of item ''title'' PNone in
     (if title = PNone then [] else [title]) @
     map (\<lambda>m. entry_of m ''value'' PNone) (elements_of (entry_of item ''metrics'' (PList []))))"

definition reply_claims :: "row \<Rightarrow> pyval list" where
  "reply_claims parsed =
     concat (map item_claims (elements_of (dict_get parsed ''highlighted'' PNone))) @
     concat (map (\<lambda>s. concat (map item_claims (elements_of (entry_of s ''highlighted'' (PList [])))))
       (elements_of (dict_get parsed ''sections'' PNone)))"

text \<open>A shown value is the text of a row value, or writes the same number.\<close>

definition shows_value :: "obj_repr \<Rightarrow> pyval \<Rightarrow> pyval \<Rightarrow> bool" where
  "shows_value orepr v x \<longleftrightarrow> x \<noteq> PNone \<and>
     (if is_numeric_leaf x then normalize_numeric_literal (py_str orepr v) = normalize_numeric_literal (py_str orepr x)
      else py_str orepr v = py_str orepr x)"

definition grounded_in :: "obj_repr \<Rightarrow> row list \<Rightarrow> pyval \<Rightarrow> bool" where
  "grounded_in orepr rows v \<longleftrightarrow> (\<exists>x \<in> set (row_values rows). shows_value orepr v x)"

lemma grounded_mono: "set rows \<subseteq> set rows' \<Longrightarrow> grounded_in orepr rows v \<Longrightarrow> grounded_in orepr rows' v"
  unfolding grounded_in_def row_values_def by fastforce

lemma known_number:
  "normalize_numeric_literal (py_str orepr v) \<in> set (known_numeric_literals orepr rows) \<Longrightarrow> grounded_in orepr rows v"
proof -
  assume "normalize_numeric_literal (py_str orepr v) \<in> set (known_numeric_literals orepr rows)"
  then obtain x where "x \<in> set (row_values rows)" "is_numeric_leaf x"
    "normalize_numeric_literal (py_str orepr v) = normalize_numeric_literal (py_str orepr x)"
    by (auto simp: known_numeric_literals_def)
  then show ?thesis by (auto simp: grounded_in_def shows_value_def intro!: bexI[of _ x])
qed

lemma known_text: "py_str orepr v \<in> set (known_text_values orepr rows) \<Longrightarrow> grounded_in orepr rows v"
  by (fastforce simp: known_text_values_def grounded_in_def shows_value_def)

lemma py_str_PStr [simp]: "py_str orepr (PStr s) = s"
  by (simp add: py_str_def)

lemma metric_grounded:
  assumes "check_metric orepr (known_text_values orepr rows) (known_numeric_literals orepr rows) m = Inr ()"
  shows "grounded_in orepr rows (entry_of m ''value'' PNone)"
proof -
  from assms obtain d where d: "m = PDict d" "metric_is_grounded orepr (known_text_values orepr rows) (known_numeric_literals orepr rows) (dict_get d ''value'' PNone)"
    by (cases m) (auto simp: check_metric_def py_get_def result_simps)
  then show ?thesis
    using known_number[of orepr _ rows] known_text[of orepr _ rows]
    by (auto simp: metric_is_grounded_def entry_of_def split: pyval.splits)
qed

lemma item_grounded:
  assumes "check_item_grounding orepr (known_text_values orepr rows) (known_numeric_literals orepr rows) item = Inr ()" and "v \<in> set (item_claims item)"
  shows "grounded_in orepr rows v"
proof -
  let ?title = "entry_of item ''title'' PNone" and ?metrics = "entry_of item ''metrics'' (PList [])"
  from assms(1) obtain ms where t: "title_ok (known_text_values orepr rows) (known_numeric_literals orepr rows) ?title" and ms: "py_elements ?metrics = Inr ms"
    "\<forall>m \<in> set ms. check_metric orepr (known_text_values orepr rows) (known_numeric_literals orepr rows) m = Inr ()"
    by (cases item) (auto simp: check_item_grounding_def py_get_def entry_of_def result_simps rmap_unit_iff)
  from assms(2) consider "v = ?title" "v \<noteq> PNone" | m where "m \<in> set ms" "v = entry_of m ''value'' PNone"
    by (auto simp: item_claims_def elements_of_def ms(1) Let_def split: if_splits)
  then show ?thesis
  proof cases
    case 1
    with t obtain s where "v = PStr s" "title_is_grounded (known_text_values orepr rows) (known_numeric_literals orepr rows) s"
      by (auto simp: title_ok_def split: pyval.splits)
    then show ?thesis
      using known_number[of orepr v rows] known_text[of orepr v rows] by (auto simp: title_is_grounded_def)
  next
    case 2
    with ms(2) metric_grounded show ?thesis by blast
  qed
qed

lemma items_grounded:
  assumes "check_items_grounding orepr (known_text_values orepr rows) (known_numeric_literals orepr rows) items = Inr ()" and "v \<in> set (concat (map item_claims (elements_of items)))"
  shows "grounded_in orepr rows v"
proof -
  from assms obtain xs x where "py_elements items = Inr xs" "x \<in> set xs" "v \<in> set (item_claims x)"
    "\<forall>x \<in> set xs. check_item_grounding orepr (known_text_values orepr rows) (known_numeric_literals orepr rows) x = Inr ()"
    by (auto simp: check_items_grounding_def elements_of_def result_simps rmap_unit_iff)
  with item_grounded show ?thesis by blast
qed

lemma section_grounded:
  assumes "check_section_grounding orepr (known_text_values orepr rows) (known_numeric_literals orepr rows) s = Inr ()"
    and "v \<in> set (concat (map item_claims (elements_of (entry_of s ''highlighted'' (PList [])))))"
  shows "grounded_in orepr rows v"
  using assms items_grounded[of orepr rows "entry_of s ''highlighted'' (PList [])" v]
  by (cases s) (auto simp: check_section_grounding_def py_get_def entry_of_def)

lemma render_structured_grounded:
  assumes "render_structured_answer env parsed ctx = Inr text"
  shows "ae_render env parsed ctx = Inr text \<and> (\<forall>v \<in> set (reply_claims parsed). grounded_in (ae_obj_repr env) (row_pool ctx) v)"
proof -
  let ?o = "ae_obj_repr env"
  let ?t = "known_text_values ?o (row_pool ctx)" and ?n = "known_numeric_literals ?o (row_pool ctx)"
  from assms obtain h s where hs: "map_of parsed ''highlighted'' = Some h" "map_of parsed ''sections'' = Some s"
    by (auto simp: render_structured_answer_def split: option.splits)
  with assms obtain ss where c: "check_items_grounding ?o ?t ?n h = Inr ()" "py_elements s = Inr ss"
    "\<forall>x \<in> set ss. check_section_grounding ?o ?t ?n x = Inr ()" "ae_render env parsed ctx = Inr text"
    by (auto simp: render_structured_answer_def Let_def result_simps rmap_unit_iff split: if_splits sum.splits)
  have "grounded_in ?o (row_pool ctx) v" if "v \<in> set (reply_claims parsed)" for v
  proof -
    from that have "v \<in> set (concat (map item_claims (elements_of h))) \<or>
      (\<exists>x \<in> set ss. v \<in> set (concat (map item_claims (elements_of (entry_of x ''highlighted'' (PList []))))))"
      by (simp add: reply_claims_def dict_get_def hs elements_of_def[of s] c(2))
    with items_grounded[OF c(1)] section_grounded[of ?o "row_pool ctx"] c(3) show ?thesis by blast
  qed
  with c(4) show ?thesis by blast
qed

lemma answer_loop_structured:
  assumes "answer_loop attempts env query ctx history rejected = Inr (text, n, r)"
  shows "n \<in> set attempts \<and> (\<exists>parsed. render_structured_answer env parsed ctx = Inr text)"
  using assms
proof (induction attempts env query ctx history rejected rule: answer_loop.induct)
  case (2 attempt rest env query ctx history rejected)
  then show ?case
    by (auto simp: answer_loop.simps answer_failed_def split: sum.splits option.splits if_splits pyval.splits)
qed (simp add: answer_loop.simps)

text \<open>The model sees only rows of the result.\<close>

lemma context_rows_subset:
  assumes "context_ok n m c a"
  shows "set (row_pool a) \<subseteq> set (result_rows c)"
proof (cases "cr_mode c = Separate")
  case True
  with assms have l: "list_all2 (\<lambda>(i, s) (j, x). i = j \<and> prefix (sx_rows x) (cs_rows s) \<and> sx_included_count x = length (sx_rows x) \<and>
      sx_known_count x = length (cs_rows s)) (cr_sections c) (ac_sections a)" and "ac_rows a = []"
    by (simp_all add: context_ok_def)
  have "set (sx_rows (snd x)) \<subseteq> set (result_rows c)" if "x \<in> set (ac_sections a)" for x
  proof -
    from list_all2_memberD2[OF l that] obtain i r where "(i, r) \<in> set (cr_sections c)" "prefix (sx_rows (snd x)) (cs_rows r)"
      by (cases x) auto
    with set_mono_prefix[of "sx_rows (snd x)" "cs_rows r"] True show ?thesis by (force simp: result_rows_def)
  qed
  with \<open>ac_rows a = []\<close> show ?thesis by (auto simp: row_pool_def)
next
  case False
  with assms show ?thesis by (auto simp: context_ok_def row_pool_def result_rows_def dest: set_mono_prefix)
qed

lemma structured_answer_grounded:
  assumes "generate_llm_answer env query c = Inr (text, n, r)" and "dict_ok (cr_sections c)"
  shows "n \<in> {1, 2} \<and> (\<exists>parsed ctx. ae_render env parsed ctx = Inr text \<and>
    (\<forall>v \<in> set (reply_claims parsed). grounded_in (ae_obj_repr env) (result_rows c) v))"
proof -
  from assms(1) obtain ctx where ctx: "build_answer_context (ae_environ env) c None None = Inr ctx"
    "answer_loop [1, 2] env query ctx [] False = Inr (text, n, r)"
    by (auto simp: generate_llm_answer_def answer_failed_def split: sum.splits if_splits)
  then obtain rl cl where "context_ok rl cl c ctx"
    using answer_context_ok[OF assms(2)] by (auto simp: build_answer_context_def rbind_Inr_iff)
  note sub = context_rows_subset[OF this]
  from answer_loop_structured[OF ctx(2)] obtain parsed where p: "n \<in> {1, 2}" "render_structured_answer env parsed ctx = Inr text"
    by auto
  from render_structured_grounded[OF p(2)] grounded_mono[OF sub] p(1) show ?thesis by blast
qed

subsection \<open>Properties\<close>


definition example_answer_rows :: composed_result where
  "example_answer_rows = \<lparr>cr_mode = Single, cr_transform = None, cr_rows = [[(''n'', PStr ''b''), (''q'', PDec (Dec 50 (-1)))]],
     cr_sections = [], cr_error = None, cr_empty_reason = None, cr_total_count = 1, cr_truncated = False\<rparr>"

text \<open>A model that first invents a value and then repeats one of the rows, as \<open>5\<close> for \<open>5.0\<close>.\<close>

definition example_metric :: "pyval \<Rightarrow> pyval" where
  "example_metric v = PDict [(''highlighted'', PList [PDict [(''title'', PStr ''b''),
     (''metrics'', PList [PDict [(''label'', PStr ''q''), (''value'', v)]])]]), (''sections'', PList [])]"

definition example_answer_env :: answer_env where
  "example_answer_env = \<lparr>ae_environ = (\<lambda>n. if n = ''OPENAI_MODEL'' then Some ''m'' else if n = ''ANSWER_MAX_ROWS'' then Some ''1''
       else if n = ''ANSWER_MAX_CHARS'' then Some ''9'' else None),
     ae_ask = (\<lambda>q ctx history. Inr (Some \<lparr>ch_finish_reason = ''stop'', ch_content = Some (if history = [] then ''x'' else ''y'')\<rparr>)),
     ae_json_loads = (\<lambda>t. Some (example_metric (if t = ''x'' then PInt 7 else PStr ''5''))),
     ae_obj_repr = (\<lambda>_ t. t), ae_audit_ok = (\<lambda>_. True), ae_render = (\<lambda>_ _. Inr ''ok''),
     ae_render_fallback = (\<lambda>_. Inr ''rows''), ae_visualize = (\<lambda>_. Inr PNone)\<rparr>"

definition example_context :: answer_context where
  "example_context = \<lparr>ac_mode = Single, ac_transform = None, ac_rows = cr_rows example_answer_rows, ac_sections = [],
     ac_empty_reason = None, ac_included_count = 1, ac_total_count = 1, ac_total_count_is_exact = True,
     ac_source_truncated = False, ac_prompt_truncated = False\<rparr>"

lemma example_context_built:
  "build_answer_context (ae_environ example_answer_env) example_answer_rows None None = Inr example_context"
  by code_simp

lemma example_configured: "model_configured (ae_environ example_answer_env)" "tokens_configured (ae_environ example_answer_env)"
  by code_simp+



end
