(* ===== verification/Cypher_Contracts.thy ===== *)
theory Cypher_Contracts
  imports Request_Guard Py_Text
begin

text \<open>
  Structural contracts of generated Cypher (\<open>orchestrator/cypher_contracts.py\<close>), checked before execution.  The
  regular expressions are written as functions on the words of the masked text; a scan keeps whether the
  previous character was a word character, as \<open>\b\<close> does.
\<close>

subsection \<open>Clauses\<close>

definition CLAUSE_WORDS :: "string list" where
  "CLAUSE_WORDS = [''MATCH'', ''WHERE'', ''WITH'', ''RETURN'', ''UNWIND'', ''SKIP'', ''LIMIT'', ''UNION'']"

text \<open>A two-word clause: its second word and the length of the whole match.\<close>

definition second_word :: "string \<Rightarrow> string \<Rightarrow> nat option" where
  "second_word w s = (case next_word s of
     None \<Rightarrow> None
   | Some r \<Rightarrow> if word_of r = w then Some (length s - length (dropWhile is_word r)) else None)"

definition clause_at :: "bool \<Rightarrow> string \<Rightarrow> (string \<times> nat) option" where
  "clause_at inside s = (if inside then None else let w = word_of s in
     if w \<in> set CLAUSE_WORDS then Some (w, length w)
     else if w = ''OPTIONAL'' then map_option (\<lambda>n. (''OPTIONAL MATCH'', n)) (second_word ''MATCH'' s)
     else if w = ''ORDER'' then map_option (\<lambda>n. (''ORDER BY'', n)) (second_word ''BY'' s)
     else None)"

definition match_at :: "bool \<Rightarrow> string \<Rightarrow> nat option" where
  "match_at inside s = (case clause_at inside s of
     Some (name, n) \<Rightarrow> if name \<in> {''MATCH'', ''OPTIONAL MATCH''} then Some n else None
   | None \<Rightarrow> None)"

text \<open>\<open>masked[start:_find_clause_boundary(masked, start)]\<close>\<close>

fun clause_region :: "bool \<Rightarrow> nat \<Rightarrow> nat \<Rightarrow> nat \<Rightarrow> string \<Rightarrow> string" where
  "clause_region inside r s c [] = []"
| "clause_region inside r s c (x # xs) =
     (if r = 0 \<and> s = 0 \<and> c = 0 \<and> clause_at inside (x # xs) \<noteq> None then []
      else if x = CHR ''('' then x # clause_region (is_word x) (Suc r) s c xs
      else if x = CHR '')'' then if r = 0 then [] else x # clause_region (is_word x) (r - 1) s c xs
      else if x = CHR ''['' then x # clause_region (is_word x) r (Suc s) c xs
      else if x = CHR '']'' then if s = 0 then [] else x # clause_region (is_word x) r (s - 1) c xs
      else if x = CHR ''{'' then x # clause_region (is_word x) r s (Suc c) xs
      else if x = CHR ''}'' then if c = 0 then [] else x # clause_region (is_word x) r s (c - 1) xs
      else x # clause_region (is_word x) r s c xs)"

text \<open>\<open>finditer\<close>: the first argument counts the characters of the last match that are still to be skipped.\<close>

fun match_regions :: "nat \<Rightarrow> bool \<Rightarrow> string \<Rightarrow> string list" where
  "match_regions skip inside [] = []"
| "match_regions (Suc k) inside (x # xs) = match_regions k (is_word x) xs"
| "match_regions 0 inside (x # xs) = (case match_at inside (x # xs) of
     Some n \<Rightarrow> clause_region True 0 0 0 (drop n (x # xs)) # match_regions (n - 1) (is_word x) xs
   | None \<Rightarrow> match_regions 0 (is_word x) xs)"

definition match_pattern_regions :: "string \<Rightarrow> string list" where
  "match_pattern_regions cypher = match_regions 0 False (mask_query_text cypher)"

fun split_patterns :: "nat \<Rightarrow> nat \<Rightarrow> nat \<Rightarrow> string \<Rightarrow> string \<Rightarrow> string list" where
  "split_patterns r s c acc [] = [acc]"
| "split_patterns r s c acc (x # xs) =
     (if x = CHR ''('' then split_patterns (Suc r) s c (acc @ [x]) xs
      else if x = CHR '')'' then split_patterns (r - 1) s c (acc @ [x]) xs
      else if x = CHR ''['' then split_patterns r (Suc s) c (acc @ [x]) xs
      else if x = CHR '']'' then split_patterns r (s - 1) c (acc @ [x]) xs
      else if x = CHR ''{'' then split_patterns r s (Suc c) (acc @ [x]) xs
      else if x = CHR ''}'' then split_patterns r s (c - 1) (acc @ [x]) xs
      else if x = CHR '','' \<and> r = 0 \<and> s = 0 \<and> c = 0 then acc # split_patterns r s c [] xs
      else split_patterns r s c (acc @ [x]) xs)"

definition split_top_level_patterns :: "string \<Rightarrow> string list" where
  "split_top_level_patterns region = filter (\<lambda>p. \<not> blank p) (split_patterns 0 0 0 [] region)"

text \<open>The clause that is open, with its text so far, is an argument.\<close>

definition close_clause :: "(string \<times> string) option \<Rightarrow> (string \<times> string) list" where
  "close_clause cur = (case cur of None \<Rightarrow> [] | Some x \<Rightarrow> [x])"

definition extend_clause :: "(string \<times> string) option \<Rightarrow> char \<Rightarrow> (string \<times> string) option" where
  "extend_clause cur x = map_option (\<lambda>(name, body). (name, body @ [x])) cur"

fun clause_regions :: "nat \<Rightarrow> bool \<Rightarrow> nat \<Rightarrow> nat \<Rightarrow> nat \<Rightarrow> (string \<times> string) option \<Rightarrow> string \<Rightarrow> (string \<times> string) list" where
  "clause_regions skip inside r s c cur [] = close_clause cur"
| "clause_regions (Suc k) inside r s c cur (x # xs) = clause_regions k (is_word x) r s c cur xs"
| "clause_regions 0 inside r s c cur (x # xs) =
     (case (if r = 0 \<and> s = 0 \<and> c = 0 then clause_at inside (x # xs) else None) of
        Some (name, n) \<Rightarrow> close_clause cur @ clause_regions (n - 1) (is_word x) r s c (Some (name, [])) xs
      | None \<Rightarrow> let cur = extend_clause cur x in
          if x = CHR ''('' then clause_regions 0 (is_word x) (Suc r) s c cur xs
          else if x = CHR '')'' then clause_regions 0 (is_word x) (r - 1) s c cur xs
          else if x = CHR ''['' then clause_regions 0 (is_word x) r (Suc s) c cur xs
          else if x = CHR '']'' then clause_regions 0 (is_word x) r (s - 1) c cur xs
          else if x = CHR ''{'' then clause_regions 0 (is_word x) r s (Suc c) cur xs
          else if x = CHR ''}'' then clause_regions 0 (is_word x) r s (c - 1) cur xs
          else clause_regions 0 (is_word x) r s c cur xs)"

definition top_level_clause_regions :: "string \<Rightarrow> (string \<times> string) list" where
  "top_level_clause_regions masked = clause_regions 0 False 0 0 0 None masked"

subsection \<open>Variables\<close>

text \<open>\<open>[A-Za-z_]\w*\<close> at the start of a text, and what follows it.\<close>

definition name_at :: "string \<Rightarrow> (string \<times> string) option" where
  "name_at s = (case s of
     [] \<Rightarrow> None
   | x # xs \<Rightarrow> if is_letter_or_underscore x then Some (takeWhile is_word s, dropWhile is_word s) else None)"

text \<open>The texts behind every occurrence of a character.\<close>

fun behind :: "char \<Rightarrow> string \<Rightarrow> string list" where
  "behind x [] = []"
| "behind x (y # ys) = (if y = x then [ys] else []) @ behind x ys"

definition node_variables :: "string \<Rightarrow> string list" where
  "node_variables s = somes (map (\<lambda>r. map_option fst (name_at (dropWhile is_space r))) (behind CHR ''('' s))"

definition bom_relationship_at :: "string \<Rightarrow> bool" where
  "bom_relationship_at r \<longleftrightarrow> CHR '']'' \<in> set r \<and>
     list_ex (\<lambda>w. word_of w = ''REQUIRES_COMPONENT'' \<and> CHR ''*'' \<in> set (dropWhile is_word w))
       (word_starts False (takeWhile (\<lambda>x. x \<noteq> CHR '']'') r))"

definition variable_bom_endpoints :: "string \<Rightarrow> (string \<times> string) option" where
  "variable_bom_endpoints pattern =
     (if \<not> list_ex bom_relationship_at (behind CHR ''['' pattern) then None
      else let ns = node_variables pattern in
        if length ns < 2 then None else Some (hd ns, last ns))"

text \<open>\<open>_VARIABLE_LENGTH_RELATIONSHIP_BINDING\<close> behind an opening bracket: the variable and the length of the match.\<close>

definition relationship_binding_at :: "string \<Rightarrow> (string \<times> nat) option" where
  "relationship_binding_at r = (case name_at (dropWhile is_space r) of
     None \<Rightarrow> None
   | Some (name, rest) \<Rightarrow>
       let rest = dropWhile is_space rest; part = takeWhile (\<lambda>x. x \<noteq> CHR '']'') rest in
       if CHR '']'' \<in> set rest \<and> part \<noteq> [] \<and>
          (hd part = CHR ''*'' \<or> (hd part = CHR '':'' \<and> CHR ''*'' \<in> set part))
       then Some (name, Suc (length (takeWhile (\<lambda>x. x \<noteq> CHR '']'') r))) else None)"

fun relationship_bindings :: "nat \<Rightarrow> string \<Rightarrow> string list" where
  "relationship_bindings skip [] = []"
| "relationship_bindings (Suc k) (x # xs) = relationship_bindings k xs"
| "relationship_bindings 0 (x # xs) =
     (case (if x = CHR ''['' then relationship_binding_at xs else None) of
        Some (name, n) \<Rightarrow> name # relationship_bindings n xs
      | None \<Rightarrow> relationship_bindings 0 xs)"

definition path_variable :: "string \<Rightarrow> string option" where
  "path_variable pattern = (case name_at (dropWhile is_space pattern) of
     None \<Rightarrow> None
   | Some (name, rest) \<Rightarrow> (case dropWhile is_space rest of
       x # r \<Rightarrow> if x = CHR ''='' \<and> take 1 (dropWhile is_space r) = ''('' then Some name else None
     | [] \<Rightarrow> None))"

definition path_function_at :: "string \<Rightarrow> string option" where
  "path_function_at w =
     (if word_of w \<notin> {''RELATIONSHIPS'', ''NODES'', ''LENGTH''} then None
      else (case dropWhile is_space (dropWhile is_word w) of
          x # r \<Rightarrow> if x \<noteq> CHR ''('' then None
            else (case name_at (dropWhile is_space r) of
                Some (name, rest) \<Rightarrow> if take 1 (dropWhile is_space rest) = '')'' then Some name else None
              | None \<Rightarrow> None)
        | [] \<Rightarrow> None))"

definition uses_relationship_list_as_path :: "string \<Rightarrow> string list \<Rightarrow> bool" where
  "uses_relationship_list_as_path region vars =
     list_ex (\<lambda>w. case path_function_at w of None \<Rightarrow> False | Some name \<Rightarrow> name \<in> set vars) (word_starts False region)"

text \<open>\<open>variable [AS alias]\<close>, and nothing else.\<close>

definition with_projection :: "string \<Rightarrow> (string \<times> string option) option" where
  "with_projection item = (case name_at (dropWhile is_space item) of
     None \<Rightarrow> None
   | Some (source, rest) \<Rightarrow>
       if blank rest then Some (source, None)
       else (case rest of
           x # r \<Rightarrow> let r = dropWhile is_space r in
             if is_space x \<and> word_of r = ''AS'' then
               (case dropWhile is_word r of
                  y # q \<Rightarrow> if \<not> is_space y then None
                    else (case name_at (dropWhile is_space q) of
                        Some (alias, tail) \<Rightarrow> if blank tail then Some (source, Some alias) else None
                      | None \<Rightarrow> None)
                | [] \<Rightarrow> None)
             else None
         | [] \<Rightarrow> None))"

definition drop_distinct :: "string \<Rightarrow> string" where
  "drop_distinct s = (let r = dropWhile is_space s in if word_of r = ''DISTINCT'' then dropWhile is_word r else s)"

definition project_relationship_lists :: "string \<Rightarrow> string list \<Rightarrow> string list" where
  "project_relationship_lists projection vars = fold (\<lambda>item projected.
     if strip item = ''*'' then projected @ vars
     else (case with_projection item of
         Some (source, alias) \<Rightarrow> if source \<in> set vars
           then projected @ [case alias of Some a \<Rightarrow> a | None \<Rightarrow> source] else projected
       | None \<Rightarrow> projected)) (split_top_level_patterns (drop_distinct projection)) []"

subsection \<open>The two contracts\<close>

definition coupled :: "string \<times> string \<Rightarrow> string \<times> string \<Rightarrow> bool" where
  "coupled l r \<longleftrightarrow> (fst l = fst r \<and> snd l \<noteq> snd r) \<or> (snd l = snd r \<and> fst l \<noteq> fst r)"

fun any_coupled :: "(string \<times> string) list \<Rightarrow> bool" where
  "any_coupled [] = False"
| "any_coupled (e # es) = (list_ex (coupled e) es \<or> any_coupled es)"

definition region_endpoints :: "string \<Rightarrow> (string \<times> string) list" where
  "region_endpoints region = somes (map variable_bom_endpoints (split_top_level_patterns region))"

definition has_coupled_independent_bom_paths :: "string \<Rightarrow> bool" where
  "has_coupled_independent_bom_paths cypher = list_ex (any_coupled \<circ> region_endpoints) (match_pattern_regions cypher)"

fun relationship_list_used :: "(string \<times> string) list \<Rightarrow> string list \<Rightarrow> bool" where
  "relationship_list_used [] vars = False"
| "relationship_list_used ((clause, region) # rest) vars =
     (if clause = ''WITH'' then uses_relationship_list_as_path region vars \<or>
         relationship_list_used rest (project_relationship_lists region vars)
      else let vars = (if clause \<in> {''MATCH'', ''OPTIONAL MATCH''}
                then filter (\<lambda>v. v \<notin> set (somes (map path_variable (split_top_level_patterns region)))) vars @
                     relationship_bindings 0 region
                else if clause = ''UNION'' then [] else vars) in
        uses_relationship_list_as_path region vars \<or> relationship_list_used rest vars)"

definition has_relationship_list_used_as_path :: "string \<Rightarrow> bool" where
  "has_relationship_list_used_as_path cypher =
     relationship_list_used (top_level_clause_regions (mask_query_text cypher)) []"

subsection \<open>Reading back the endpoints of a written pattern\<close>

text \<open>A \<open>MATCH\<close> clause of variable-length traversals, one for each pair of endpoints.\<close>

definition traversal :: "string \<Rightarrow> string \<times> string \<Rightarrow> string" where
  "traversal t e = ''('' @ fst e @ '')-[:'' @ t @ ''*]->('' @ snd e @ '')''"

definition traversals :: "string \<Rightarrow> (string \<times> string) list \<Rightarrow> string" where
  "traversals t es = joined '', '' (map (traversal t) es)"

definition traversal_query :: "string \<Rightarrow> (string \<times> string) list \<Rightarrow> string" where
  "traversal_query t es = ''MATCH '' @ traversals t es @ '' RETURN *''"

definition plain_name :: "string \<Rightarrow> bool" where
  "plain_name w \<longleftrightarrow> w \<noteq> [] \<and> is_letter_or_underscore (hd w) \<and> list_all is_word w \<and>
     map ascii_upper w \<notin> {''MATCH'', ''OPTIONAL''}"

definition plain_ends :: "string \<times> string \<Rightarrow> bool" where
  "plain_ends e \<longleftrightarrow> plain_name (fst e) \<and> plain_name (snd e)"

lemma plain_nameD:
  assumes "plain_name w"
  shows "w \<noteq> []" "list_all is_word w" "map ascii_upper w \<noteq> ''MATCH''" "map ascii_upper w \<noteq> ''OPTIONAL''"
  using assms by (auto simp: plain_name_def)

lemma punctuation [simp]:
  "\<not> is_word CHR ''(''" "\<not> is_word CHR '')''" "\<not> is_word CHR ''[''" "\<not> is_word CHR '']''" "\<not> is_word CHR ''-''"
  "\<not> is_word CHR ''>''" "\<not> is_word CHR '',''" "\<not> is_word CHR '' ''" "\<not> is_word CHR ''*''"
  "\<not> is_word CHR ''{''" "\<not> is_word CHR ''}''"
  by code_simp+

lemma word_no_punctuation:
  assumes "is_word c"
  shows "c \<noteq> CHR ''(''" "c \<noteq> CHR '')''" "c \<noteq> CHR ''[''" "c \<noteq> CHR '']''" "c \<noteq> CHR ''{''" "c \<noteq> CHR ''}''"
    "c \<noteq> CHR '',''" "c \<noteq> CHR ''-''" "c \<noteq> CHR ''/''" "c \<noteq> CHR ''*''" "\<not> is_quote c"
proof -
  have "\<not> is_word CHR ''/''" by code_simp
  then show "c \<noteq> CHR ''/''" using assms by auto
  show "\<not> is_quote c"
    using assms by (auto simp: is_quote_def is_word_def is_letter_or_underscore_def is_ascii_upper_def
        is_ascii_lower_def is_digit_def Let_def code_def)
qed (use assms punctuation in auto)

subsubsection \<open>Masking\<close>

lemma mask_word: "list_all is_word w \<Longrightarrow> mask_query_text (w @ s) = w @ mask_query_text s"
  by (induction w) (auto simp: starts_def word_no_punctuation)

lemma mask_plain:
  "\<not> is_quote c \<Longrightarrow> c \<noteq> CHR ''-'' \<Longrightarrow> c \<noteq> CHR ''/'' \<Longrightarrow> mask_query_text (c # s) = c # mask_query_text s"
  by (subst mask_query_text.simps(2)) (simp add: starts_def del: mask_query_text.simps(2))

lemma mask_literal:
  "c \<in> set ''()[]:>, *'' \<Longrightarrow> mask_query_text (c # s) = c # mask_query_text s"
proof (rule mask_plain)
  have "list_all (\<lambda>c. \<not> is_quote c \<and> c \<noteq> CHR ''-'' \<and> c \<noteq> CHR ''/'') ''()[]:>, *''" by code_simp
  then show "\<not> is_quote c" "c \<noteq> CHR ''-''" "c \<noteq> CHR ''/''" if "c \<in> set ''()[]:>, *''" using that
    unfolding list_all_iff by blast+
qed

lemma mask_minus:
  assumes "d \<noteq> CHR ''-''"
  shows "mask_query_text (CHR ''-'' # d # s) = CHR ''-'' # mask_query_text (d # s)"
proof -
  have "\<not> is_quote CHR ''-''" by code_simp
  then show ?thesis by (subst mask_query_text.simps(2)) (simp add: starts_def assms del: mask_query_text.simps(2))
qed

lemma mask_traversal:
  "plain_name t \<Longrightarrow> plain_ends e \<Longrightarrow> mask_query_text (traversal t e @ s) = traversal t e @ mask_query_text s"
  by (simp add: traversal_def plain_ends_def plain_nameD mask_word mask_literal mask_minus del: mask_query_text.simps(2))

lemma mask_traversals:
  "plain_name t \<Longrightarrow> list_all plain_ends es \<Longrightarrow>
     mask_query_text (traversals t es @ s) = traversals t es @ mask_query_text s"
  unfolding traversals_def
proof (induction es)
  case (Cons e es)
  then show ?case
    by (cases es) (auto simp: mask_traversal mask_literal simp del: mask_query_text.simps(2))
qed simp

lemma mask_traversal_query:
  assumes "plain_name t" "list_all plain_ends es"
  shows "mask_query_text (traversal_query t es) = traversal_query t es"
proof -
  have m: "mask_query_text (''MATCH'' @ s) = ''MATCH'' @ mask_query_text s" for s
    by (rule mask_word) code_simp
  have r: "mask_query_text '' RETURN *'' = '' RETURN *''" by code_simp
  have "mask_query_text (traversal_query t es) = mask_query_text (''MATCH'' @ CHR '' '' # traversals t es @ '' RETURN *'')"
    by (simp add: traversal_query_def)
  also have "\<dots> = ''MATCH'' @ CHR '' '' # traversals t es @ '' RETURN *''"
    by (simp only: m mask_literal list.set insert_iff simp_thms mask_traversals[OF assms] r)
  finally show ?thesis by (simp add: traversal_query_def)
qed

subsubsection \<open>The single \<open>MATCH\<close> region\<close>

lemma word_of_nonword: "\<not> is_word c \<Longrightarrow> word_of (c # s) = []"
  by (simp add: word_of_def)

lemma clause_at_nonword [simp]: "\<not> is_word c \<Longrightarrow> clause_at i (c # s) = None"
  by (simp add: clause_at_def word_of_nonword CLAUSE_WORDS_def)

lemma clause_at_inside [simp]: "clause_at True s = None"
  by (simp add: clause_at_def)

lemma word_of_word: "list_all is_word w \<Longrightarrow> \<not> is_word c \<Longrightarrow> word_of (w @ c # s) = map ascii_upper w"
  unfolding word_of_def by (induction w) auto

lemma match_at_inside [simp]: "match_at True s = None"
  by (simp add: match_at_def)

lemma match_at_nonword [simp]: "\<not> is_word c \<Longrightarrow> match_at i (c # s) = None"
  by (simp add: match_at_def)

lemma match_at_word:
  assumes "list_all is_word w" "map ascii_upper w \<noteq> ''MATCH''" "map ascii_upper w \<noteq> ''OPTIONAL''" "\<not> is_word c"
  shows "match_at i (w @ c # s) = None"
  using assms(2,3) unfolding match_at_def clause_at_def
  by (auto simp: word_of_word[OF assms(1,4)] Let_def CLAUSE_WORDS_def map_option_case split: option.splits)

lemma regions_nonword [simp]:
  "\<not> is_word c \<Longrightarrow> match_regions 0 i (c # s) = match_regions 0 False s"
  by simp

lemma regions_inside: "list_all is_word w \<Longrightarrow> match_regions 0 True (w @ s) = match_regions 0 True s"
  by (induction w) auto

lemma regions_word:
  assumes "plain_name w" "\<not> is_word c"
  shows "match_regions 0 i (w @ c # s) = match_regions 0 False s"
proof -
  obtain x xs where w: "w = x # xs" using plain_nameD(1)[OF assms(1)] by (cases w) auto
  have "match_at i (w @ c # s) = None"
    using match_at_word[OF plain_nameD(2-4)[OF assms(1)] assms(2)] .
  moreover have "is_word x" "list_all is_word xs" using plain_nameD(2)[OF assms(1)] w by auto
  ultimately show ?thesis using regions_inside[of xs "c # s"] assms(2) by (simp add: w)
qed

lemma regions_traversal:
  assumes "plain_name t" "plain_ends e"
  shows "match_regions 0 i (traversal t e @ s) = match_regions 0 False s"
  using assms by (simp add: traversal_def plain_ends_def regions_word[simplified])

lemma regions_traversals:
  "plain_name t \<Longrightarrow> list_all plain_ends es \<Longrightarrow>
     match_regions 0 False (traversals t es @ s) = match_regions 0 False s"
  unfolding traversals_def
proof (induction es)
  case (Cons e es)
  then show ?case by (cases es) (auto simp: regions_traversal)
qed simp

lemma region_nested_word:
  "list_all is_word w \<Longrightarrow> 0 < r + s + c \<Longrightarrow> w \<noteq> [] \<Longrightarrow>
     clause_region i r s c (w @ x) = w @ clause_region True r s c x"
proof (induction w arbitrary: i)
  case (Cons d w)
  then have d: "is_word d" by simp
  show ?case
  proof (cases "w = []")
    case True
    then show ?thesis using Cons.prems d by (auto simp: word_no_punctuation[OF d])
  next
    case False
    then show ?thesis using Cons d by (auto simp: word_no_punctuation[OF d])
  qed
qed simp

lemma region_traversal:
  assumes "plain_name t" "plain_ends e"
  shows "clause_region i 0 0 0 (traversal t e @ x) = traversal t e @ clause_region False 0 0 0 x"
  using assms by (simp add: traversal_def plain_ends_def plain_nameD region_nested_word)

lemma region_traversals:
  "plain_name t \<Longrightarrow> list_all plain_ends es \<Longrightarrow>
     clause_region False 0 0 0 (traversals t es @ x) = traversals t es @ clause_region False 0 0 0 x"
  unfolding traversals_def
proof (induction es)
  case (Cons e es)
  then show ?case by (cases es) (auto simp: region_traversal)
qed simp

lemma regions_skip:
  "list_all is_word w \<Longrightarrow> match_regions (length w) True (w @ s) = match_regions 0 True s"
  by (induction w) auto

lemma regions_match:
  assumes "match_at i (w @ s) = Some (length w)" and "list_all is_word w" and "w \<noteq> []"
  shows "match_regions 0 i (w @ s) = clause_region True 0 0 0 s # match_regions 0 True s"
  using assms by (cases w) (auto simp: regions_skip)

lemma query_region:
  assumes "plain_name t" "list_all plain_ends es"
  shows "match_pattern_regions (traversal_query t es) = ['' '' @ traversals t es @ '' '']"
proof -
  let ?tail = "'' '' @ traversals t es @ '' RETURN *''"
  have w: "list_all is_word ''MATCH''" by code_simp
  have u: "map ascii_upper ''MATCH'' = ''MATCH''" by code_simp
  have "word_of (''MATCH'' @ ?tail) = ''MATCH''"
    using word_of_word[OF w punctuation(8), of "traversals t es @ '' RETURN *''"] u by (simp only: append.simps)
  then have m: "match_at False (''MATCH'' @ ?tail) = Some (length ''MATCH'')"
    by (simp add: match_at_def clause_at_def CLAUSE_WORDS_def)
  have "match_pattern_regions (traversal_query t es) = match_regions 0 False (''MATCH'' @ ?tail)"
    unfolding match_pattern_regions_def mask_traversal_query[OF assms]
    by (simp only: traversal_query_def append.simps append.assoc)
  also have "\<dots> = clause_region True 0 0 0 ?tail # match_regions 0 True ?tail"
    by (rule regions_match[OF m w]) simp
  also have "match_regions 0 True ?tail = match_regions 0 False '' RETURN *''"
    using regions_nonword[OF punctuation(8)] regions_traversals[OF assms, of "'' RETURN *''"]
    by (simp only: append.simps)
  also have "match_regions 0 False '' RETURN *'' = []" by code_simp
  also have "clause_region True 0 0 0 ?tail = '' '' @ traversals t es @ clause_region False 0 0 0 '' RETURN *''"
    using region_traversals[OF assms, of "'' RETURN *''"] by simp
  also have "clause_region False 0 0 0 '' RETURN *'' = '' ''" by code_simp
  finally show ?thesis .
qed

subsubsection \<open>The patterns and their endpoints\<close>

lemma split_nested_word:
  "list_all is_word w \<Longrightarrow> split_patterns r s c acc (w @ x) = split_patterns r s c (acc @ w) x"
  by (induction w arbitrary: acc) (auto simp: word_no_punctuation)

lemma split_traversal:
  assumes "plain_name t" "plain_ends e"
  shows "split_patterns 0 0 0 acc (traversal t e @ x) = split_patterns 0 0 0 (acc @ traversal t e) x"
  using assms by (simp add: traversal_def plain_ends_def plain_nameD split_nested_word)

fun region_parts :: "string \<Rightarrow> string \<Rightarrow> (string \<times> string) list \<Rightarrow> string list" where
  "region_parts t acc [] = [acc @ '' '']"
| "region_parts t acc [e] = [acc @ traversal t e @ '' '']"
| "region_parts t acc (e # es) = (acc @ traversal t e) # region_parts t '' '' es"

lemma split_traversals:
  "plain_name t \<Longrightarrow> list_all plain_ends es \<Longrightarrow>
     split_patterns 0 0 0 acc (traversals t es @ '' '') = region_parts t acc es"
  unfolding traversals_def
proof (induction t acc es rule: region_parts.induct)
  case (3 t acc e d es)
  then show ?case by (simp add: split_traversal)
qed (simp_all add: split_traversal)

lemma name_at_plain:
  assumes "plain_name w" "\<not> is_word c"
  shows "name_at (dropWhile is_space (w @ c # s)) = Some (w, c # s)"
proof -
  obtain x xs where w: "w = x # xs" using plain_nameD(1)[OF assms(1)] by (cases w) auto
  have x: "is_letter_or_underscore x" "is_word x" and xs: "list_all is_word xs"
    using assms(1) by (auto simp: plain_name_def w)
  have "takeWhile is_word (w @ c # s) = w" "dropWhile is_word (w @ c # s) = c # s"
    using plain_nameD(2)[OF assms(1)] assms(2) by (simp_all add: takeWhile_append2 dropWhile_append2 list_all_iff)
  then show ?thesis using x word_not_blank[OF x(2)] by (simp add: w name_at_def)
qed

lemma behind_append: "behind x (u @ v) = map (\<lambda>s. s @ v) (behind x u) @ behind x v"
  by (induction u) auto

lemma behind_word: "list_all is_word w \<Longrightarrow> \<not> is_word x \<Longrightarrow> behind x w = []"
  by (induction w) auto

lemma endpoints_of_traversal:
  assumes t: "plain_name t" "map ascii_upper t = ''REQUIRES_COMPONENT''" and e: "plain_ends e"
    and uv: "set u \<subseteq> {CHR '' ''}" "set v \<subseteq> {CHR '' ''}"
  shows "variable_bom_endpoints (u @ traversal t e @ v) = Some e"
proof -
  obtain a b where ab: "e = (a, b)" by (cases e)
  have a: "plain_name a" and b: "plain_name b" using e by (simp_all add: ab plain_ends_def)
  have blank: "behind x u = []" "behind x v = []" if "x \<noteq> CHR '' ''" for x
    using uv that by (induction u, auto) (induction v, auto)
  note words = behind_word plain_nameD(2)[OF a] plain_nameD(2)[OF b] plain_nameD(2)[OF t(1)]
  have round: "behind CHR ''('' (u @ traversal t e @ v) =
      [a @ '')-[:'' @ t @ ''*]->('' @ b @ '')'' @ v, b @ '')'' @ v]"
    by (simp add: ab traversal_def behind_append blank words)
  have square: "behind CHR ''['' (u @ traversal t e @ v) = ['':'' @ t @ ''*]->('' @ b @ '')'' @ v]"
    by (simp add: ab traversal_def behind_append blank words)
  have tk: "takeWhile (\<lambda>x. x \<noteq> CHR '']'') ('':'' @ t @ ''*]->('' @ b @ '')'' @ v) = '':'' @ t @ ''*''"
    using plain_nameD(2)[OF t(1)] word_no_punctuation(4)
    by (simp add: takeWhile_append list_all_iff)
  have "word_of (t @ ''*'') = ''REQUIRES_COMPONENT''"
    using word_of_word[OF plain_nameD(2)[OF t(1)] punctuation(9), of "[]"] t(2) by simp
  moreover have "dropWhile is_word (t @ ''*'') = ''*''"
    using plain_nameD(2)[OF t(1)] by (simp add: dropWhile_append2 list_all_iff)
  moreover have "t @ ''*'' \<in> set (word_starts False ('':'' @ t @ ''*''))"
    using plain_nameD(1,2)[OF t(1)] by (intro word_starts_here) auto
  ultimately have "bom_relationship_at ('':'' @ t @ ''*]->('' @ b @ '')'' @ v)"
    unfolding bom_relationship_at_def tk by (auto simp: list_ex_iff intro!: bexI[of _ "t @ ''*''"])
  moreover have "node_variables (u @ traversal t e @ v) = [a, b]"
    unfolding node_variables_def round using name_at_plain[OF a, of "CHR '')''"] name_at_plain[OF b, of "CHR '')''"]
    by (simp add: ab)
  ultimately show ?thesis unfolding variable_bom_endpoints_def square by (simp add: ab)
qed

lemma traversal_not_blank: "\<not> blank (u @ traversal t e @ v)"
  by (simp add: blank_iff traversal_def is_space_def code_def)

lemma region_endpoints_parts:
  "plain_name t \<Longrightarrow> map ascii_upper t = ''REQUIRES_COMPONENT'' \<Longrightarrow> list_all plain_ends es \<Longrightarrow> es \<noteq> [] \<Longrightarrow>
     set u \<subseteq> {CHR '' ''} \<Longrightarrow>
     somes (map variable_bom_endpoints (filter (\<lambda>p. \<not> blank p) (region_parts t u es))) = es"
proof (induction t u es rule: region_parts.induct)
  case (2 t u e)
  then show ?case using endpoints_of_traversal[of t e u "'' ''"] traversal_not_blank[of u t e "'' ''"] by simp
next
  case (3 t u e d es)
  then show ?case using endpoints_of_traversal[of t e u "[]"] traversal_not_blank[of u t e "[]"] by simp
qed simp

lemma query_endpoints:
  assumes "plain_name t" "map ascii_upper t = ''REQUIRES_COMPONENT''" "list_all plain_ends es" "es \<noteq> []"
  shows "map region_endpoints (match_pattern_regions (traversal_query t es)) = [es]"
proof -
  have "split_patterns 0 0 0 [] ('' '' @ traversals t es @ '' '') = region_parts t '' '' es"
    using split_traversals[OF assms(1,3), of "'' ''"] by simp
  then show ?thesis
    using region_endpoints_parts[OF assms, of "'' ''"]
    by (simp add: query_region[OF assms(1,3)] region_endpoints_def split_top_level_patterns_def)
qed

lemma any_coupled_iff:
  "any_coupled es \<longleftrightarrow> (\<exists>i j. i < j \<and> j < length es \<and> coupled (es ! i) (es ! j))"
proof (induction es)
  case (Cons e es)
  have "(\<exists>i j. i < j \<and> j < length (e # es) \<and> coupled ((e # es) ! i) ((e # es) ! j)) \<longleftrightarrow>
      (\<exists>j < length es. coupled e (es ! j)) \<or> (\<exists>i j. i < j \<and> j < length es \<and> coupled (es ! i) (es ! j))"
    (is "?l \<longleftrightarrow> ?r")
  proof
    assume ?l
    then obtain i j where ij: "i < j" "j < length (e # es)" "coupled ((e # es) ! i) ((e # es) ! j)" by blast
    from ij(1) obtain k where k: "j = Suc k" by (cases j) auto
    show ?r using ij by (cases i) (auto simp: k)
  next
    assume ?r
    then consider j where "j < length es" "coupled e (es ! j)"
      | i j where "i < j" "j < length es" "coupled (es ! i) (es ! j)" by blast
    then show ?l
    proof cases
      case 1
      then show ?thesis by (intro exI[of _ 0] exI[of _ "Suc j"]) simp
    next
      case 2
      then show ?thesis by (intro exI[of _ "Suc i"] exI[of _ "Suc j"]) simp
    qed
  qed
  moreover have "list_ex (coupled e) es \<longleftrightarrow> (\<exists>j < length es. coupled e (es ! j))"
    unfolding list_ex_iff by (metis in_set_conv_nth)
  ultimately show ?case using Cons.IH by simp
qed simp

subsection \<open>Properties\<close>

text \<open>C27: For a \<open>MATCH\<close> clause that lists variable-length bill-of-materials traversals (the relationship type in any
  letter case, the endpoint variables any identifiers but the words \<open>MATCH\<close> and \<open>OPTIONAL\<close>), the contract reads the
  endpoint variables back exactly: the query is rejected if and only if two different traversals share one endpoint
  and differ in the other.  So chains, which Neo4j's relationship uniqueness leaves complete, are always admitted
  and forks and joins never are.\<close>

theorem coupled_paths_exactly_rejected:
  assumes "plain_name t" and "map ascii_upper t = ''REQUIRES_COMPONENT''"
    and "list_all plain_ends es" and "es \<noteq> []"
  shows "has_coupled_independent_bom_paths (traversal_query t es) \<longleftrightarrow>
    (\<exists>i j. i < j \<and> j < length es \<and> coupled (es ! i) (es ! j))"
  unfolding has_coupled_independent_bom_paths_def any_coupled_iff[symmetric]
  using query_endpoints[OF assms] by (cases "match_pattern_regions (traversal_query t es)") auto

theorem coupled_paths_exactly_rejected_witness:
  "\<not> has_coupled_independent_bom_paths (traversal_query ''REQUIRES_COMPONENT'' [(''a'', ''b''), (''b'', ''c'')]) \<and>
   has_coupled_independent_bom_paths (traversal_query ''REQUIRES_COMPONENT'' [(''a'', ''b''), (''c'', ''b'')])"
proof -
  have p: "plain_name ''REQUIRES_COMPONENT''" and u: "map ascii_upper ''REQUIRES_COMPONENT'' = ''REQUIRES_COMPONENT''"
    and e: "list_all plain_ends [(''a'', ''b''), (''b'', ''c'')]" "list_all plain_ends [(''a'', ''b''), (''c'', ''b'')]"
    by code_simp+
  have c: "\<not> any_coupled [(''a'', ''b''), (''b'', ''c'')]" "any_coupled [(''a'', ''b''), (''c'', ''b'')]"
    by code_simp+
  show ?thesis
    using coupled_paths_exactly_rejected[OF p u e(1)] coupled_paths_exactly_rejected[OF p u e(2)] c
    unfolding any_coupled_iff[symmetric] by simp
qed

end
