(* ===== verification/Sql_Guard.thy ===== *)
theory Sql_Guard
  imports Request_Guard Semantic_Catalog
begin

text \<open>
  The guard of generated SQL (\<open>orchestrator/guards/sql_guard.py\<close>).  The parser is the package \<open>sqlparse\<close>: it is
  an argument, a function from a text to statements, and a token is what the guard observes of the package's
  token objects, the values of their attributes and the results of the methods the guard calls.
\<close>

subsection \<open>Tokens\<close>

datatype sql_ttype = KeywordType | CteType | DdlType | DmlType | NameType | SymbolType | OtherType

datatype sql_class = ParenthesisClass | IdentifierListClass | FunctionClass | OtherClass

text \<open>A method that is absent or does not give a string is \<open>None\<close>.\<close>

datatype sql_token = SqlToken (tk_ttype: sql_ttype) (tk_class: sql_class) (tk_value: string) (tk_normalized: string)
  (tk_whitespace: bool) (tk_tokens: "sql_token list") (tk_identifiers: "sql_token list")
  (tk_real_name: "string option") (tk_parent_name: "string option") (tk_name: "string option")

record sql_statement =
  sq_tokens :: "sql_token list"
  sq_flatten :: "sql_token list"
  sq_type :: string
  sq_text :: string

definition ascii_lower :: "char \<Rightarrow> char" where
  "ascii_lower c = (if is_ascii_upper c then char_of (code c + 32) else c)"

definition lower :: "string \<Rightarrow> string" where
  "lower s = map ascii_lower s"

definition upper :: "string \<Rightarrow> string" where
  "upper s = map ascii_upper s"

subsection \<open>Forbidden functions\<close>

definition FORBIDDEN_FUNCTION_PREFIXES :: "string list" where
  "FORBIDDEN_FUNCTION_PREFIXES = [''pg_advisory_'', ''pg_try_advisory_'']"

definition FORBIDDEN_FUNCTIONS :: "string list" where
  "FORBIDDEN_FUNCTIONS = [''pg_sleep'', ''pg_sleep_for'', ''pg_sleep_until'', ''pg_read_file'',
     ''pg_read_binary_file'', ''pg_ls_dir'', ''pg_ls_logdir'', ''pg_ls_waldir'', ''pg_stat_file'',
     ''pg_terminate_backend'', ''pg_cancel_backend'', ''pg_reload_conf'', ''pg_rotate_logfile'', ''lo_import'',
     ''lo_export'', ''dblink'', ''dblink_connect'', ''dblink_exec'']"

definition SAFE_FROM_FUNCTIONS :: "string list" where
  "SAFE_FROM_FUNCTIONS = [''unnest'']"

definition is_forbidden_function :: "string \<Rightarrow> bool" where
  "is_forbidden_function name \<longleftrightarrow> lower name \<in> set FORBIDDEN_FUNCTIONS \<or>
     list_ex (\<lambda>p. starts p (lower name)) FORBIDDEN_FUNCTION_PREFIXES"

definition function_name_candidate :: "sql_token \<Rightarrow> string option" where
  "function_name_candidate t = (case tk_ttype t of
     NameType \<Rightarrow> Some (tk_value t)
   | SymbolType \<Rightarrow> (let raw = tk_value t in
       if 2 \<le> length raw \<and> hd raw = CHR 0x22 \<and> last raw = CHR 0x22 then Some (butlast (tl raw)) else None)
   | _ \<Rightarrow> None)"

fun forbidden_call :: "sql_token list \<Rightarrow> string option" where
  "forbidden_call [] = None"
| "forbidden_call (t # ts) = (case function_name_candidate t of
     Some name \<Rightarrow> if is_forbidden_function name \<and> ts \<noteq> [] \<and> tk_value (hd ts) = ''('' then Some name
       else forbidden_call ts
   | None \<Rightarrow> forbidden_call ts)"

definition visible_tokens :: "sql_token list \<Rightarrow> sql_token list" where
  "visible_tokens ts = filter (\<lambda>t. \<not> tk_whitespace t) ts"

definition find_forbidden_function_call :: "sql_statement \<Rightarrow> string option" where
  "find_forbidden_function_call s = forbidden_call (visible_tokens (sq_flatten s))"

subsection \<open>Tables\<close>

definition is_parenthesis :: "sql_token \<Rightarrow> bool" where
  "is_parenthesis t \<longleftrightarrow> tk_class t = ParenthesisClass"

definition find_parenthesis :: "sql_token \<Rightarrow> sql_token option" where
  "find_parenthesis t = (if is_parenthesis t then Some t else find is_parenthesis (tk_tokens t))"

definition table_candidates :: "sql_token \<Rightarrow> sql_token list" where
  "table_candidates t = (if tk_class t = IdentifierListClass then tk_identifiers t else [t])"

fun matching_function :: "string \<Rightarrow> string option \<Rightarrow> sql_token list \<Rightarrow> string option" where
  "matching_function real_name parent [] = None"
| "matching_function real_name parent (f # fs) = (case tk_name f of
     None \<Rightarrow> matching_function real_name parent fs
   | Some name \<Rightarrow>
       if lower name \<noteq> lower real_name then matching_function real_name parent fs
       else if (case parent of None \<Rightarrow> False | Some p \<Rightarrow> lower p \<noteq> ''pg_catalog'') then None
       else if lower name \<in> set SAFE_FROM_FUNCTIONS then Some name
       else matching_function real_name parent fs)"

definition safe_from_function :: "sql_token \<Rightarrow> string option" where
  "safe_from_function t = (case tk_real_name t of
     None \<Rightarrow> None
   | Some real_name \<Rightarrow> matching_function real_name (tk_parent_name t)
       (if tk_class t = FunctionClass then [t] else filter (\<lambda>c. tk_class c = FunctionClass) (tk_tokens t)))"

definition select_parenthesis :: "sql_token \<Rightarrow> bool" where
  "select_parenthesis t \<longleftrightarrow> is_parenthesis t \<and>
     (case visible_tokens (tk_tokens t) of _ # x # _ \<Rightarrow> tk_ttype x = DmlType | _ \<Rightarrow> False)"

fun nested_select_parens :: "sql_token \<Rightarrow> sql_token list" where
  "nested_select_parens (SqlToken ty c v n w ts ids r p m) =
     concat (map (\<lambda>child. (if select_parenthesis child then [child] else []) @ nested_select_parens child) ts)"

definition iter_nested_select_parens :: "sql_statement \<Rightarrow> sql_token list" where
  "iter_nested_select_parens s =
     concat (map (\<lambda>child. (if select_parenthesis child then [child] else []) @ nested_select_parens child) (sq_tokens s))"

text \<open>The names and tables collected so far, and whether a reference was unresolved.\<close>

record walk_state =
  wk_ctes :: "string list"
  wk_tables :: "string list"
  wk_unresolved :: bool

definition is_with :: "sql_token \<Rightarrow> bool" where
  "is_with t \<longleftrightarrow> tk_ttype t = CteType \<and> upper (tk_normalized t) = ''WITH''"

definition is_recursive :: "sql_token \<Rightarrow> bool" where
  "is_recursive t \<longleftrightarrow> tk_ttype t = KeywordType \<and> upper (tk_normalized t) = ''RECURSIVE''"

definition opens_source :: "sql_token \<Rightarrow> bool" where
  "opens_source t \<longleftrightarrow> tk_ttype t = KeywordType \<and>
     (upper (tk_normalized t) = ''FROM'' \<or> substring ''JOIN'' (upper (tk_normalized t)))"

definition after_recursive :: "sql_token list \<Rightarrow> sql_token list" where
  "after_recursive ts = (case ts of [] \<Rightarrow> [] | t # r \<Rightarrow> if is_recursive t then r else ts)"

definition declare_cte :: "sql_token \<Rightarrow> walk_state \<Rightarrow> walk_state" where
  "declare_cte t st = (case tk_real_name t of
     Some name \<Rightarrow> if name = [] then st else st\<lparr>wk_ctes := lower name # wk_ctes st\<rparr>
   | None \<Rightarrow> st)"

definition add_reference :: "sql_token \<Rightarrow> walk_state \<Rightarrow> walk_state" where
  "add_reference t st = (case tk_real_name t of
     None \<Rightarrow> st\<lparr>wk_unresolved := True\<rparr>
   | Some real_name \<Rightarrow> if real_name = [] then st\<lparr>wk_unresolved := True\<rparr>
       else (case tk_parent_name t of
         None \<Rightarrow> if lower real_name \<in> set (wk_ctes st) then st else st\<lparr>wk_unresolved := True\<rparr>
       | Some parent \<Rightarrow> st\<lparr>wk_tables := lower (parent @ ''.'' @ real_name) # wk_tables st\<rparr>))"

lemma size_tokens:
  "t \<in> set (tk_tokens u) \<Longrightarrow> size t < size u" "t \<in> set (tk_identifiers u) \<Longrightarrow> size t < size u"
  "size_list size (tk_tokens u) < size u"
  by (cases u; auto dest: size_list_estimation'[where f = size, OF _ order_refl] split: if_splits)+

lemma find_parenthesis_size: "find_parenthesis t = Some p \<Longrightarrow> size_list size (tk_tokens p) < size t"
  using size_tokens(1)[of p t] size_tokens(3)[of p] size_tokens(3)[of t]
  by (auto simp: find_parenthesis_def find_Some_iff split: if_splits)

lemma visible_size: "size_list size (visible_tokens ts) \<le> size_list size ts"
  unfolding visible_tokens_def by (induction ts) auto

lemma candidates_size: "size_list size (table_candidates t) \<le> Suc (size t)"
  by (cases t) (auto simp: table_candidates_def)

lemma after_recursive_size: "size_list size (after_recursive ts) \<le> size_list size ts"
  by (auto simp: after_recursive_def split: list.splits)

function walk :: "bool \<Rightarrow> sql_token list \<Rightarrow> walk_state \<Rightarrow> walk_state"
  and walk_ctes :: "sql_token list \<Rightarrow> walk_state \<Rightarrow> walk_state"
  and walk_sources :: "sql_token list \<Rightarrow> walk_state \<Rightarrow> walk_state" where
  "walk pending [] st = st"
| "walk pending (t # ts) st =
     (if is_with t then (case after_recursive ts of
          [] \<Rightarrow> st
        | c # rest \<Rightarrow> walk False rest (walk_ctes (table_candidates c) st))
      else if opens_source t then walk True ts st
      else if pending then walk False ts (walk_sources (table_candidates t) st)
      else walk False ts st)"
| "walk_ctes [] st = st"
| "walk_ctes (c # cs) st = walk_ctes cs (case find_parenthesis c of
     None \<Rightarrow> declare_cte c st
   | Some p \<Rightarrow> walk False (visible_tokens (tk_tokens p)) (declare_cte c st))"
| "walk_sources [] st = st"
| "walk_sources (c # cs) st = walk_sources cs
     (if safe_from_function c \<noteq> None then st
      else (case find_parenthesis c of
         Some p \<Rightarrow> walk False (visible_tokens (tk_tokens p)) st
       | None \<Rightarrow> add_reference c st))"
  by pat_completeness auto
termination
proof (relation "measure (\<lambda>x. case x of
    Inl (_, ts, _) \<Rightarrow> 2 * size_list size ts + 2
  | Inr (Inl (ts, _)) \<Rightarrow> 2 * size_list size ts + 1
  | Inr (Inr (ts, _)) \<Rightarrow> 2 * size_list size ts + 1)", goal_cases)
  case 1
  then show ?case by simp
next
  case (2 pending t ts st c rest)
  then show ?case using after_recursive_size[of ts] candidates_size[of c] by simp
next
  case (3 pending t ts st c rest)
  then show ?case using after_recursive_size[of ts] candidates_size[of c] by simp
next
  case (5 pending t ts st)
  then show ?case using candidates_size[of t] by simp
next
  case (8 c cs st p)
  then show ?case using visible_size[of "tk_tokens p"] find_parenthesis_size[of c p] by simp
next
  case (10 c cs st p)
  then show ?case using visible_size[of "tk_tokens p"] find_parenthesis_size[of c p] by simp
qed (use candidates_size in simp_all)

definition walk_for_tables :: "sql_token list \<Rightarrow> walk_state \<Rightarrow> walk_state" where
  "walk_for_tables tokens st = walk False (visible_tokens tokens) st"

subsection \<open>The guard\<close>

definition denied :: "string \<Rightarrow> guard_result" where
  "denied reason = \<lparr>gr_allowed = False, gr_reason_code = Some reason\<rparr>"

definition write_token :: "sql_token \<Rightarrow> bool" where
  "write_token t \<longleftrightarrow> tk_ttype t \<in> {KeywordType, DdlType, DmlType} \<and> upper (tk_normalized t) \<in> set SQL_WRITE_KEYWORDS"

definition read_only_shape :: "sql_statement \<Rightarrow> string \<Rightarrow> bool" where
  "read_only_shape s sql \<longleftrightarrow> sq_type s = ''SELECT'' \<or>
     (sq_type s = ''UNKNOWN'' \<and> starts ''WITH'' (upper (strip sql)))"

definition empty_walk :: walk_state where
  "empty_walk = \<lparr>wk_ctes = [], wk_tables = [], wk_unresolved = False\<rparr>"

definition walk_statement :: "sql_statement \<Rightarrow> walk_state" where
  "walk_statement s = fold (\<lambda>p. walk_for_tables (tk_tokens p)) (iter_nested_select_parens s)
     (walk_for_tables (sq_tokens s) empty_walk)"

definition allowed_tables :: "sql_schema \<Rightarrow> string set" where
  "allowed_tables schema = set (map lower (dict_keys (ss_tables schema)))"

definition sql_guard :: "(string \<Rightarrow> sql_statement list) \<Rightarrow> sql_schema \<Rightarrow> string \<Rightarrow> guard_result" where
  "sql_guard parse schema sql = (case filter (\<lambda>s. \<not> blank (sq_text s)) (parse sql) of
     [s] \<Rightarrow>
       if list_ex write_token (sq_flatten s) then denied ''WRITE_KEYWORD_DETECTED''
       else if find_forbidden_function_call s \<noteq> None then denied ''FORBIDDEN_FUNCTION_CALL''
       else if \<not> read_only_shape s sql then denied ''NOT_READ_ONLY_STATEMENT''
       else (let st = walk_statement s in
         if wk_unresolved st then denied ''UNRESOLVED_TABLE_REFERENCE''
         else if \<not> set (wk_tables st) \<subseteq> allowed_tables schema then denied ''UNKNOWN_TABLE''
         else \<lparr>gr_allowed = True, gr_reason_code = None\<rparr>)
   | _ \<Rightarrow> denied ''MULTIPLE_STATEMENTS'')"

subsection \<open>The references of a statement\<close>

text \<open>The candidates behind a \<open>FROM\<close> or \<open>JOIN\<close>, and the definitions behind a \<open>WITH\<close>, of one token list.\<close>

lemma after_recursive_length [termination_simp]: "length (after_recursive ts) - Suc 0 < Suc (length ts)"
  by (auto simp: after_recursive_def split: list.splits)

fun sources :: "bool \<Rightarrow> sql_token list \<Rightarrow> sql_token list" where
  "sources pending [] = []"
| "sources pending (t # ts) =
     (if is_with t then sources False (drop 1 (after_recursive ts))
      else if opens_source t then sources True ts
      else (if pending then table_candidates t else []) @ sources False ts)"

fun cte_definitions :: "sql_token list \<Rightarrow> sql_token list" where
  "cte_definitions [] = []"
| "cte_definitions (t # ts) =
     (if is_with t then concat (map table_candidates (take 1 (after_recursive ts))) @
        cte_definitions (drop 1 (after_recursive ts))
      else cte_definitions ts)"

text \<open>The token lists that the guard reads: the statement, the nested queries anywhere in it, and the parentheses
  of their sources and definitions.\<close>

inductive scanned :: "sql_statement \<Rightarrow> sql_token list \<Rightarrow> bool" for s where
  statement: "scanned s (sq_tokens s)"
| nested: "p \<in> set (iter_nested_select_parens s) \<Longrightarrow> scanned s (tk_tokens p)"
| subquery: "scanned s ts \<Longrightarrow> t \<in> set (sources False (visible_tokens ts)) \<Longrightarrow> safe_from_function t = None \<Longrightarrow>
    find_parenthesis t = Some p \<Longrightarrow> scanned s (tk_tokens p)"
| cte: "scanned s ts \<Longrightarrow> t \<in> set (cte_definitions (visible_tokens ts)) \<Longrightarrow> find_parenthesis t = Some p \<Longrightarrow>
    scanned s (tk_tokens p)"

definition declared :: "sql_statement \<Rightarrow> string set" where
  "declared s = {lower name | name t ts. scanned s ts \<and> t \<in> set (cte_definitions (visible_tokens ts)) \<and>
     tk_real_name t = Some name \<and> name \<noteq> []}"

definition table_source :: "sql_statement \<Rightarrow> sql_token \<Rightarrow> bool" where
  "table_source s t \<longleftrightarrow> (\<exists>ts. scanned s ts \<and> t \<in> set (sources False (visible_tokens ts))) \<and>
     safe_from_function t = None \<and> find_parenthesis t = None"

text \<open>A reference is covered when its name was collected.\<close>

definition covered :: "walk_state \<Rightarrow> sql_token \<Rightarrow> bool" where
  "covered st t \<longleftrightarrow> (\<exists>name. tk_real_name t = Some name \<and> name \<noteq> [] \<and> (case tk_parent_name t of
     None \<Rightarrow> lower name \<in> set (wk_ctes st)
   | Some parent \<Rightarrow> lower (parent @ ''.'' @ name) \<in> set (wk_tables st)))"

definition extends :: "walk_state \<Rightarrow> walk_state \<Rightarrow> bool" where
  "extends st st' \<longleftrightarrow> set (wk_ctes st) \<subseteq> set (wk_ctes st') \<and> set (wk_tables st) \<subseteq> set (wk_tables st') \<and>
     (wk_unresolved st \<longrightarrow> wk_unresolved st')"

lemma extends_refl [simp]: "extends st st"
  by (simp add: extends_def)

lemma extends_trans: "extends a b \<Longrightarrow> extends b c \<Longrightarrow> extends a c"
  by (auto simp: extends_def)

lemma extends_declare: "extends st (declare_cte t st)"
  by (auto simp: declare_cte_def extends_def split: option.splits)

lemma extends_reference: "extends st (add_reference t st)"
  by (auto simp: add_reference_def extends_def split: option.splits)

lemma walk_extends:
  "extends st (walk b ts st)" "extends st (walk_ctes cs st)" "extends st (walk_sources cs st)"
proof (induction b ts st and cs st and cs st rule: walk_walk_ctes_walk_sources.induct)
  case (2 pending t ts st)
  then show ?case by (auto split: list.splits intro: extends_trans)
next
  case (4 c cs st)
  then show ?case by (auto split: option.splits intro: extends_trans extends_declare)
next
  case (6 c cs st)
  then show ?case by (auto split: option.splits intro: extends_trans extends_reference)
qed simp_all

lemma covered_extends: "covered st t \<Longrightarrow> extends st st' \<Longrightarrow> covered st' t"
  by (auto simp: covered_def extends_def split: option.splits)

inductive checked :: "walk_state \<Rightarrow> bool \<Rightarrow> sql_token list \<Rightarrow> bool" for st where
  "(\<And>t. t \<in> set (sources b vs) \<Longrightarrow> safe_from_function t = None \<Longrightarrow> find_parenthesis t = None \<Longrightarrow> covered st t) \<Longrightarrow>
   (\<And>t p. t \<in> set (sources b vs) \<Longrightarrow> safe_from_function t = None \<Longrightarrow> find_parenthesis t = Some p \<Longrightarrow>
      checked st False (visible_tokens (tk_tokens p))) \<Longrightarrow>
   (\<And>t p. t \<in> set (cte_definitions vs) \<Longrightarrow> find_parenthesis t = Some p \<Longrightarrow>
      checked st False (visible_tokens (tk_tokens p))) \<Longrightarrow> checked st b vs"

inductive_simps checked_iff: "checked st b vs"

definition source_checked :: "walk_state \<Rightarrow> sql_token \<Rightarrow> bool" where
  "source_checked st t \<longleftrightarrow> safe_from_function t \<noteq> None \<or> (case find_parenthesis t of
     None \<Rightarrow> covered st t | Some p \<Rightarrow> checked st False (visible_tokens (tk_tokens p)))"

definition cte_checked :: "walk_state \<Rightarrow> sql_token \<Rightarrow> bool" where
  "cte_checked st t \<longleftrightarrow> (case find_parenthesis t of
     None \<Rightarrow> True | Some p \<Rightarrow> checked st False (visible_tokens (tk_tokens p)))"

lemma checked_parts: "checked st b vs \<longleftrightarrow>
    (\<forall>t \<in> set (sources b vs). source_checked st t) \<and> (\<forall>t \<in> set (cte_definitions vs). cte_checked st t)"
  by (subst checked_iff) (auto simp: source_checked_def cte_checked_def split: option.splits)

lemma checked_extends: "checked st b vs \<Longrightarrow> extends st st' \<Longrightarrow> checked st' b vs"
  by (induction b vs rule: checked.induct) (rule checked.intros; blast intro: covered_extends)

lemma source_checked_extends: "source_checked st t \<Longrightarrow> extends st st' \<Longrightarrow> source_checked st' t"
  by (auto simp: source_checked_def split: option.splits intro: covered_extends checked_extends)

lemma cte_checked_extends: "cte_checked st t \<Longrightarrow> extends st st' \<Longrightarrow> cte_checked st' t"
  by (auto simp: cte_checked_def split: option.splits intro: checked_extends)

lemma reference_covered: "\<not> wk_unresolved (add_reference t st) \<Longrightarrow> covered (add_reference t st) t"
  by (auto simp: add_reference_def covered_def split: option.splits if_splits)

lemma resolved_before: "extends st st' \<Longrightarrow> \<not> wk_unresolved st' \<Longrightarrow> \<not> wk_unresolved st"
  by (auto simp: extends_def)

lemma with_checked:
  assumes "is_with t" and "after_recursive ts = c # rest" and "\<not> wk_unresolved (walk b (t # ts) st)"
    and ctes: "\<not> wk_unresolved (walk_ctes (table_candidates c) st) \<Longrightarrow>
      \<forall>u \<in> set (table_candidates c). cte_checked (walk_ctes (table_candidates c) st) u"
    and more: "\<not> wk_unresolved (walk False rest (walk_ctes (table_candidates c) st)) \<Longrightarrow>
      checked (walk False rest (walk_ctes (table_candidates c) st)) False rest"
  shows "checked (walk b (t # ts) st) b (t # ts)"
proof -
  let ?m = "walk_ctes (table_candidates c) st"
  have ex: "extends ?m (walk False rest ?m)" by (rule walk_extends)
  have u: "\<not> wk_unresolved (walk False rest ?m)" using assms(1-3) by simp
  have "\<forall>u \<in> set (table_candidates c). cte_checked (walk False rest ?m) u"
    using ctes[OF resolved_before[OF ex u]] cte_checked_extends[OF _ ex] by blast
  with more[OF u] assms(1,2) show ?thesis by (auto simp: checked_parts)
qed

lemma source_step_checked:
  assumes "\<not> is_with t" and "\<not> opens_source t" and "\<not> wk_unresolved (walk True (t # ts) st)"
    and src: "\<not> wk_unresolved (walk_sources (table_candidates t) st) \<Longrightarrow>
      \<forall>u \<in> set (table_candidates t). source_checked (walk_sources (table_candidates t) st) u"
    and more: "\<not> wk_unresolved (walk False ts (walk_sources (table_candidates t) st)) \<Longrightarrow>
      checked (walk False ts (walk_sources (table_candidates t) st)) False ts"
  shows "checked (walk True (t # ts) st) True (t # ts)"
proof -
  let ?m = "walk_sources (table_candidates t) st"
  have ex: "extends ?m (walk False ts ?m)" by (rule walk_extends)
  have u: "\<not> wk_unresolved (walk False ts ?m)" using assms(1-3) by simp
  have "\<forall>u \<in> set (table_candidates t). source_checked (walk False ts ?m) u"
    using src[OF resolved_before[OF ex u]] source_checked_extends[OF _ ex] by blast
  with more[OF u] assms(1,2) show ?thesis by (auto simp: checked_parts)
qed

lemma walk_checked:
  "\<not> wk_unresolved (walk b ts st) \<Longrightarrow> checked (walk b ts st) b ts"
  "\<not> wk_unresolved (walk_ctes cs st) \<Longrightarrow> \<forall>t \<in> set cs. cte_checked (walk_ctes cs st) t"
  "\<not> wk_unresolved (walk_sources cs st) \<Longrightarrow> \<forall>t \<in> set cs. source_checked (walk_sources cs st) t"
proof (induction b ts st and cs st and cs st rule: walk_walk_ctes_walk_sources.induct)
  case (1 pending st)
  then show ?case by (simp add: checked_parts)
next
  case (2 pending t ts st)
  show ?case
  proof (cases "is_with t")
    case True
    show ?thesis
    proof (cases "after_recursive ts")
      case Nil
      with True show ?thesis by (simp add: checked_parts)
    next
      case (Cons c rest)
      from with_checked[OF True Cons 2(7) 2(1,2)[OF True Cons]] show ?thesis .
    qed
  next
    case False
    show ?thesis
    proof (cases "opens_source t")
      case True
      with False 2 show ?thesis by (simp add: checked_parts)
    next
      case opens: False
      show ?thesis
      proof (cases pending)
        case True
        from source_step_checked[OF False opens _ 2(4,5)[OF False opens True]] 2(7) True show ?thesis by simp
      next
        case p: False
        with False opens 2 show ?thesis by (simp add: checked_parts)
      qed
    qed
  qed
next
  case (4 c cs st)
  let ?m = "case find_parenthesis c of None \<Rightarrow> declare_cte c st
    | Some p \<Rightarrow> walk False (visible_tokens (tk_tokens p)) (declare_cte c st)"
  have ex: "extends ?m (walk_ctes cs ?m)" by (rule walk_extends)
  have u: "\<not> wk_unresolved (walk_ctes cs ?m)" using 4(3) by simp
  have "cte_checked ?m c"
    using 4(1) resolved_before[OF ex u] by (auto simp: cte_checked_def split: option.splits)
  from cte_checked_extends[OF this ex] 4(2)[OF u] show ?case by auto
next
  case (6 c cs st)
  let ?m = "if safe_from_function c \<noteq> None then st else (case find_parenthesis c of
      Some p \<Rightarrow> walk False (visible_tokens (tk_tokens p)) st | None \<Rightarrow> add_reference c st)"
  have ex: "extends ?m (walk_sources cs ?m)" by (rule walk_extends)
  have u: "\<not> wk_unresolved (walk_sources cs ?m)" using 6(3) by simp
  have "source_checked ?m c"
    using 6(1) resolved_before[OF ex u] reference_covered[of c st]
    by (auto simp: source_checked_def split: option.splits if_splits)
  from source_checked_extends[OF this ex] 6(2)[OF u] show ?case by auto
qed simp_all

subsubsection \<open>Every collected name was declared\<close>

definition known_cte :: "sql_statement \<Rightarrow> sql_token \<Rightarrow> bool" where
  "known_cte s t \<longleftrightarrow> (\<forall>name. tk_real_name t = Some name \<longrightarrow> name \<noteq> [] \<longrightarrow> lower name \<in> declared s) \<and>
     (\<forall>p. find_parenthesis t = Some p \<longrightarrow> scanned s (tk_tokens p))"

definition known_source :: "sql_statement \<Rightarrow> sql_token \<Rightarrow> bool" where
  "known_source s t \<longleftrightarrow> (\<forall>p. safe_from_function t = None \<longrightarrow> find_parenthesis t = Some p \<longrightarrow> scanned s (tk_tokens p))"

definition known_list :: "sql_statement \<Rightarrow> bool \<Rightarrow> sql_token list \<Rightarrow> bool" where
  "known_list s b vs \<longleftrightarrow> (\<forall>t \<in> set (cte_definitions vs). known_cte s t) \<and> (\<forall>t \<in> set (sources b vs). known_source s t)"

lemma scanned_known: "scanned s ts \<Longrightarrow> known_list s False (visible_tokens ts)"
  by (auto simp: known_list_def known_cte_def known_source_def declared_def intro: scanned.intros)

lemma known_with:
  assumes "known_list s b (t # ts)" and "is_with t" and "after_recursive ts = c # rest"
  shows "\<forall>u \<in> set (table_candidates c). known_cte s u" "known_list s False rest"
  using assms by (auto simp: known_list_def)

lemma known_step:
  assumes "known_list s b (t # ts)" and "\<not> is_with t"
  shows "opens_source t \<Longrightarrow> known_list s True ts"
    "\<not> opens_source t \<Longrightarrow> known_list s False ts"
    "\<not> opens_source t \<Longrightarrow> b \<Longrightarrow> \<forall>u \<in> set (table_candidates t). known_source s u"
  using assms by (auto simp: known_list_def)

definition ctes_declared :: "sql_statement \<Rightarrow> walk_state \<Rightarrow> bool" where
  "ctes_declared s st \<longleftrightarrow> set (wk_ctes st) \<subseteq> declared s"

lemma declare_declared: "known_cte s t \<Longrightarrow> ctes_declared s st \<Longrightarrow> ctes_declared s (declare_cte t st)"
  by (auto simp: ctes_declared_def declare_cte_def known_cte_def split: option.splits)

lemma reference_declared: "ctes_declared s st \<Longrightarrow> ctes_declared s (add_reference t st)"
  by (auto simp: ctes_declared_def add_reference_def split: option.splits)

lemma walk_declared:
  "known_list s b ts \<Longrightarrow> ctes_declared s st \<Longrightarrow> ctes_declared s (walk b ts st)"
  "\<forall>t \<in> set cs. known_cte s t \<Longrightarrow> ctes_declared s st \<Longrightarrow> ctes_declared s (walk_ctes cs st)"
  "\<forall>t \<in> set cs. known_source s t \<Longrightarrow> ctes_declared s st \<Longrightarrow> ctes_declared s (walk_sources cs st)"
proof (induction b ts st and cs st and cs st rule: walk_walk_ctes_walk_sources.induct)
  case (2 pending t ts st)
  then show ?case
    using known_with[OF 2(7)] known_step[OF 2(7)] by (auto split: list.splits)
next
  case (4 c cs st)
  have c: "known_cte s c" using 4(3) by simp
  then have "\<forall>p. find_parenthesis c = Some p \<longrightarrow> known_list s False (visible_tokens (tk_tokens p))"
    using scanned_known by (auto simp: known_cte_def)
  with 4 declare_declared[OF c 4(4)] show ?case by (auto split: option.splits)
next
  case (6 c cs st)
  have "\<forall>p. safe_from_function c = None \<longrightarrow> find_parenthesis c = Some p \<longrightarrow> known_list s False (visible_tokens (tk_tokens p))"
    using 6(3) scanned_known by (auto simp: known_source_def)
  with 6 reference_declared[OF 6(4), of c] show ?case by (auto split: option.splits)
qed simp_all

lemma fold_walk:
  "\<forall>p \<in> set ps. scanned s (tk_tokens p) \<Longrightarrow> ctes_declared s st \<Longrightarrow>
     st' = fold (\<lambda>p. walk_for_tables (tk_tokens p)) ps st \<Longrightarrow>
     extends st st' \<and> ctes_declared s st' \<and>
     (\<not> wk_unresolved st' \<longrightarrow> (\<forall>p \<in> set ps. checked st' False (visible_tokens (tk_tokens p))))"
proof (induction ps arbitrary: st)
  case (Cons p ps)
  let ?m = "walk_for_tables (tk_tokens p) st"
  have "ctes_declared s ?m"
    using Cons.prems walk_declared(1)[OF scanned_known] by (simp add: walk_for_tables_def)
  with Cons.IH[of ?m] Cons.prems have ih: "extends ?m st'" "ctes_declared s st'"
    "\<not> wk_unresolved st' \<longrightarrow> (\<forall>q \<in> set ps. checked st' False (visible_tokens (tk_tokens q)))" by simp_all
  have "checked ?m False (visible_tokens (tk_tokens p))" if "\<not> wk_unresolved st'"
    using resolved_before[OF ih(1) that] unfolding walk_for_tables_def by (rule walk_checked(1))
  moreover have "extends st ?m" unfolding walk_for_tables_def by (rule walk_extends(1))
  ultimately show ?case using ih checked_extends[OF _ ih(1)] extends_trans by auto
qed simp

lemma walk_statement_facts:
  "ctes_declared s (walk_statement s)"
  "\<not> wk_unresolved (walk_statement s) \<Longrightarrow> checked (walk_statement s) False (visible_tokens (sq_tokens s))"
  "\<not> wk_unresolved (walk_statement s) \<Longrightarrow> p \<in> set (iter_nested_select_parens s) \<Longrightarrow>
     checked (walk_statement s) False (visible_tokens (tk_tokens p))"
proof -
  let ?m = "walk_for_tables (sq_tokens s) empty_walk"
  have m: "ctes_declared s ?m"
    using walk_declared(1)[OF scanned_known[OF scanned.statement]]
    by (simp add: walk_for_tables_def ctes_declared_def empty_walk_def)
  have n: "\<forall>p \<in> set (iter_nested_select_parens s). scanned s (tk_tokens p)" by (blast intro: scanned.nested)
  have f: "extends ?m (walk_statement s)" "ctes_declared s (walk_statement s)" "\<not> wk_unresolved (walk_statement s) \<longrightarrow>
      (\<forall>p \<in> set (iter_nested_select_parens s). checked (walk_statement s) False (visible_tokens (tk_tokens p)))"
    using fold_walk[OF n m refl] by (simp_all add: walk_statement_def)
  show "ctes_declared s (walk_statement s)" by (rule f(2))
  show "checked (walk_statement s) False (visible_tokens (tk_tokens p))"
    if "\<not> wk_unresolved (walk_statement s)" "p \<in> set (iter_nested_select_parens s)"
    using f(3) that by blast
  assume u: "\<not> wk_unresolved (walk_statement s)"
  have "checked ?m False (visible_tokens (sq_tokens s))"
    unfolding walk_for_tables_def
    by (rule walk_checked(1)) (use resolved_before[OF f(1) u] in \<open>simp add: walk_for_tables_def\<close>)
  from checked_extends[OF this f(1)] show "checked (walk_statement s) False (visible_tokens (sq_tokens s))" .
qed

lemma scanned_checked:
  assumes "\<not> wk_unresolved (walk_statement s)"
  shows "scanned s ts \<Longrightarrow> checked (walk_statement s) False (visible_tokens ts)"
proof (induction rule: scanned.induct)
  case (subquery ts t p)
  then show ?case by (subst (asm) checked_iff) blast
next
  case (cte ts t p)
  then show ?case by (subst (asm) checked_iff) blast
qed (use walk_statement_facts assms in blast)+

lemma table_source_resolved:
  assumes "\<not> wk_unresolved (walk_statement s)" and "table_source s t"
  shows "\<exists>name. tk_real_name t = Some name \<and> (case tk_parent_name t of
     None \<Rightarrow> lower name \<in> declared s
   | Some parent \<Rightarrow> lower (parent @ ''.'' @ name) \<in> set (wk_tables (walk_statement s)))"
proof -
  from assms(2) obtain ts where ts: "scanned s ts" "t \<in> set (sources False (visible_tokens ts))"
    "safe_from_function t = None" "find_parenthesis t = None" by (auto simp: table_source_def)
  from scanned_checked[OF assms(1) ts(1)] ts(2-4) have "covered (walk_statement s) t"
    by (subst (asm) checked_iff) blast
  then show ?thesis
    using walk_statement_facts(1)[of s] by (auto simp: covered_def ctes_declared_def split: option.splits)
qed

lemma forbidden_call_None:
  "forbidden_call ts = None \<Longrightarrow> Suc i < length ts \<Longrightarrow> function_name_candidate (ts ! i) = Some name \<Longrightarrow>
     tk_value (ts ! Suc i) = ''('' \<Longrightarrow> \<not> is_forbidden_function name"
proof (induction ts arbitrary: i)
  case (Cons t ts)
  show ?case
  proof (cases i)
    case 0
    with Cons.prems show ?thesis by (cases ts) (auto split: option.splits if_splits)
  next
    case (Suc k)
    have "forbidden_call ts = None" using Cons.prems(1) by (auto split: option.splits if_splits)
    from Cons.IH[OF this, of k] Cons.prems Suc show ?thesis by simp
  qed
qed simp

lemma sql_guard_allowed:
  assumes "gr_allowed (sql_guard parse schema sql)"
  obtains s where "filter (\<lambda>s. \<not> blank (sq_text s)) (parse sql) = [s]" "\<not> list_ex write_token (sq_flatten s)"
    "find_forbidden_function_call s = None" "read_only_shape s sql" "\<not> wk_unresolved (walk_statement s)"
    "set (wk_tables (walk_statement s)) \<subseteq> allowed_tables schema"
  using assms by (auto simp: sql_guard_def denied_def Let_def split: list.splits if_splits)

definition confined :: "sql_schema \<Rightarrow> sql_statement \<Rightarrow> bool" where
  "confined schema s \<longleftrightarrow> (\<forall>t. table_source s t \<longrightarrow> (\<exists>name. tk_real_name t = Some name \<and> (case tk_parent_name t of
     None \<Rightarrow> lower name \<in> declared s
   | Some parent \<Rightarrow> lower (parent @ ''.'' @ name) \<in> lower ` set (dict_keys (ss_tables schema)))))"

lemma sql_guard_confined:
  assumes "gr_allowed (sql_guard parse schema sql)"
  shows "\<exists>s. filter (\<lambda>s. \<not> blank (sq_text s)) (parse sql) = [s] \<and> confined schema s"
proof -
  from assms obtain s where s: "filter (\<lambda>s. \<not> blank (sq_text s)) (parse sql) = [s]"
    "\<not> wk_unresolved (walk_statement s)" "set (wk_tables (walk_statement s)) \<subseteq> allowed_tables schema"
    by (rule sql_guard_allowed)
  have "confined schema s"
    unfolding confined_def
  proof (intro allI impI)
    fix t
    assume "table_source s t"
    from table_source_resolved[OF s(2) this] s(3)
    show "\<exists>name. tk_real_name t = Some name \<and> (case tk_parent_name t of
        None \<Rightarrow> lower name \<in> declared s
      | Some parent \<Rightarrow> lower (parent @ ''.'' @ name) \<in> lower ` set (dict_keys (ss_tables schema)))"
      by (auto simp: allowed_tables_def split: option.splits)
  qed
  with s(1) show ?thesis by blast
qed

lemma sql_guard_reads:
  assumes "gr_allowed (sql_guard parse schema sql)"
  shows "\<exists>s. filter (\<lambda>s. \<not> blank (sq_text s)) (parse sql) = [s] \<and> read_only_shape s sql \<and>
    (\<forall>t \<in> set (sq_flatten s). \<not> write_token t) \<and>
    (\<forall>i name. Suc i < length (visible_tokens (sq_flatten s)) \<longrightarrow>
       function_name_candidate (visible_tokens (sq_flatten s) ! i) = Some name \<longrightarrow>
       tk_value (visible_tokens (sq_flatten s) ! Suc i) = ''('' \<longrightarrow> \<not> is_forbidden_function name)"
proof -
  from assms obtain s where s: "filter (\<lambda>s. \<not> blank (sq_text s)) (parse sql) = [s]"
    "\<not> list_ex write_token (sq_flatten s)" "find_forbidden_function_call s = None" "read_only_shape s sql"
    by (rule sql_guard_allowed)
  show ?thesis
    using s(1,2,4) forbidden_call_None[OF s(3)[unfolded find_forbidden_function_call_def]]
    by (intro exI[of _ s]) (auto simp: list_ex_iff)
qed

subsection \<open>Example statements\<close>

definition leaf :: "sql_ttype \<Rightarrow> string \<Rightarrow> sql_token" where
  "leaf ty v = SqlToken ty OtherClass v (upper v) (blank v) [] [] None None None"

definition grouped :: "sql_class \<Rightarrow> sql_token list \<Rightarrow> string option \<Rightarrow> string option \<Rightarrow> sql_token" where
  "grouped c ts r p = SqlToken OtherType c [] [] False ts [] r p r"

fun leaves :: "sql_token \<Rightarrow> sql_token list" where
  "leaves (SqlToken ty c v n w ts ids r p m) =
     (if ts = [] then [SqlToken ty c v n w ts ids r p m] else concat (map leaves ts))"

definition example_select :: "sql_token list \<Rightarrow> sql_statement" where
  "example_select ts = \<lparr>sq_tokens = ts, sq_flatten = concat (map leaves ts), sq_type = ''SELECT'', sq_text = ''s''\<rparr>"

definition qualified_name :: "string \<Rightarrow> string \<Rightarrow> sql_token" where
  "qualified_name p n = grouped OtherClass [leaf NameType p, leaf OtherType ''.'', leaf NameType n] (Some n) (Some p)"

text \<open>\<open>WITH x AS (SELECT k FROM a.b) SELECT k FROM x\<close>\<close>

definition example_sql :: sql_statement where
  "example_sql = example_select [leaf CteType ''WITH'',
     grouped OtherClass [leaf NameType ''x'', leaf KeywordType ''AS'',
       grouped ParenthesisClass [leaf OtherType ''('', leaf DmlType ''SELECT'', leaf NameType ''k'',
         leaf KeywordType ''FROM'', qualified_name ''a'' ''b'', leaf OtherType '')''] None None] (Some ''x'') None,
     leaf DmlType ''SELECT'', leaf NameType ''k'', leaf KeywordType ''FROM'',
     grouped OtherClass [leaf NameType ''x''] (Some ''x'') None]"

text \<open>\<open>SELECT k FROM a.b WHERE k IN (WITH x AS (SELECT 1) SELECT k FROM c.d)\<close>\<close>

definition nested_with_sql :: sql_statement where
  "nested_with_sql = example_select [leaf DmlType ''SELECT'', leaf NameType ''k'', leaf KeywordType ''FROM'',
     qualified_name ''a'' ''b'',
     grouped OtherClass [leaf KeywordType ''WHERE'', leaf NameType ''k'', leaf KeywordType ''IN'',
       grouped ParenthesisClass [leaf OtherType ''('', leaf CteType ''WITH'',
         grouped OtherClass [leaf NameType ''x'', leaf KeywordType ''AS'',
           grouped ParenthesisClass [leaf OtherType ''('', leaf DmlType ''SELECT'', leaf OtherType ''1'', leaf OtherType '')''] None None]
           (Some ''x'') None,
         leaf DmlType ''SELECT'', leaf NameType ''k'', leaf KeywordType ''FROM'', qualified_name ''c'' ''d'',
         leaf OtherType '')''] None None] None None]"

definition example_tables :: sql_schema where
  "example_tables = \<lparr>ss_tables = [(''a.b'', \<lparr>tbl_aliases = [], tbl_columns = [], tbl_output_aliases = []\<rparr>)], ss_joins = []\<rparr>"

lemma example_sql_allowed: "gr_allowed (sql_guard (\<lambda>_. [example_sql]) example_tables ''WITH'')"
  by code_simp

lemma example_nested: "gr_allowed (sql_guard (\<lambda>_. [nested_with_sql]) example_tables ''SELECT'')"
  by code_simp

subsection \<open>Properties\<close>

text \<open>C25: When the SQL guard allows a text, the parser found exactly one statement in it, and every table the guard
  reads at a \<open>FROM\<close> or \<open>JOIN\<close> position, at the top level, in a nested query, in a subquery of a source or in the
  body of a \<open>WITH\<close> definition, is resolved: either a schema-qualified table of the catalog, up to letter case, or
  an unqualified name that the statement itself defines by \<open>WITH\<close>.\<close>

theorem sql_guard_confines_tables:
  assumes "gr_allowed (sql_guard parse schema sql)"
  shows "\<exists>s. filter (\<lambda>s. \<not> blank (sq_text s)) (parse sql) = [s] \<and> confined schema s"
  using assms by (rule sql_guard_confined)

theorem sql_guard_confines_tables_witness: "confined example_tables example_sql"
proof -
  have f: "filter (\<lambda>s. \<not> blank (sq_text s)) [example_sql] = [example_sql]" by code_simp
  obtain s where "[example_sql] = [s]" "confined example_tables s"
    using sql_guard_confines_tables[OF example_sql_allowed] unfolding f by blast
  then show ?thesis by (simp only: list.inject)
qed

text \<open>When the SQL guard allows a text, its only statement has a reading shape, no keyword token of it at any depth
  is a write keyword, and nowhere in it does the name of a forbidden function, bare or in double quotes, stand
  before an opening parenthesis with nothing but white space between.\<close>

theorem sql_guard_admits_only_reads:
  assumes "gr_allowed (sql_guard parse schema sql)"
  shows "\<exists>s. filter (\<lambda>s. \<not> blank (sq_text s)) (parse sql) = [s] \<and> read_only_shape s sql \<and>
    (\<forall>t \<in> set (sq_flatten s). \<not> write_token t) \<and>
    (\<forall>i name. Suc i < length (visible_tokens (sq_flatten s)) \<longrightarrow>
       function_name_candidate (visible_tokens (sq_flatten s) ! i) = Some name \<longrightarrow>
       tk_value (visible_tokens (sq_flatten s) ! Suc i) = ''('' \<longrightarrow> \<not> is_forbidden_function name)"
  using assms by (rule sql_guard_reads)

theorem sql_guard_admits_only_reads_witness:
  "read_only_shape example_sql ''WITH'' \<and> \<not> list_ex write_token (sq_flatten example_sql)"
proof -
  have f: "filter (\<lambda>s. \<not> blank (sq_text s)) [example_sql] = [example_sql]" by code_simp
  obtain s where "[example_sql] = [s]" "read_only_shape s ''WITH''" "\<forall>t \<in> set (sq_flatten s). \<not> write_token t"
    using sql_guard_admits_only_reads[OF example_sql_allowed] unfolding f by blast
  then show ?thesis unfolding list_ex_iff by (simp only: list.inject simp_thms bex_simps)
qed


end
