(* ===== verification/Query_Agents.thy ===== *)
theory Query_Agents
  imports Cypher_Contracts Sql_Guard Query_Execution
begin

text \<open>
  The two query agents as production assembles them (\<open>make_sql_agent_subgraph\<close> of
  \<open>orchestrator/subgraphs/sql_agent.py\<close>, \<open>make_cypher_agent_subgraph\<close> and \<open>_query_contract_error\<close> of
  \<open>orchestrator/subgraphs/cypher_agent.py\<close>): the retry graph with the guards, and for Cypher the structural
  contracts and the required aliases of the last \<open>RETURN\<close>.  The Korean messages are
  given by short English texts.
\<close>

subsection \<open>The required aliases\<close>

text \<open>The text up to \<open>ORDER BY\<close>, \<open>SKIP\<close> or \<open>LIMIT\<close>.\<close>

definition tail_clause :: "string \<Rightarrow> bool" where
  "tail_clause s \<longleftrightarrow> word_of s \<in> {''SKIP'', ''LIMIT''} \<or> (word_of s = ''ORDER'' \<and> second_word ''BY'' s \<noteq> None)"

fun before_tail :: "bool \<Rightarrow> string \<Rightarrow> string" where
  "before_tail inside [] = []"
| "before_tail inside (x # xs) =
     (if \<not> inside \<and> tail_clause (x # xs) then [] else x # before_tail (is_word x) xs)"

definition return_projection :: "string \<Rightarrow> string option" where
  "return_projection cypher = (case filter (\<lambda>w. word_of w = ''RETURN'') (word_starts False cypher) of
     [] \<Rightarrow> None
   | ws \<Rightarrow> Some (before_tail False (dropWhile is_word (last ws))))"

text \<open>What may be left of a text behind \<open>\s*\<close>.\<close>

fun after_spaces :: "string \<Rightarrow> string list" where
  "after_spaces [] = [[]]"
| "after_spaces (x # xs) = (x # xs) # (if is_space x then after_spaces xs else [])"

definition after_one_space :: "string \<Rightarrow> string list" where
  "after_one_space s = (case s of [] \<Rightarrow> [] | x # xs \<Rightarrow> if is_space x then after_spaces xs else [])"

definition double_quote :: char where "double_quote = CHR 0x22"

definition quoted_forms :: "string \<Rightarrow> string list" where
  "quoted_forms alias = [backtick # alias @ [backtick], double_quote # alias @ [double_quote]]"

definition word_boundary :: "string \<Rightarrow> string \<Rightarrow> bool" where
  "word_boundary before rest \<longleftrightarrow> (before \<noteq> [] \<and> is_word (last before)) \<noteq> (rest \<noteq> [] \<and> is_word (hd rest))"

definition explicit_alias_at :: "string \<Rightarrow> string \<Rightarrow> bool" where
  "explicit_alias_at alias s \<longleftrightarrow> list_ex (\<lambda>q. starts q s) (quoted_forms alias) \<or>
     (starts alias s \<and> word_boundary alias (drop (length alias) s))"

definition explicit_alias :: "string \<Rightarrow> string \<Rightarrow> bool" where
  "explicit_alias alias projection = list_ex (\<lambda>w. word_of w = ''AS'' \<and>
     list_ex (explicit_alias_at alias) (after_one_space (dropWhile is_word w))) (word_starts False projection)"

definition ends_item :: "string \<Rightarrow> bool" where
  "ends_item s = (case dropWhile is_space s of [] \<Rightarrow> True | x # _ \<Rightarrow> x = CHR '','')"

definition bare_alias_at :: "string \<Rightarrow> string \<Rightarrow> bool" where
  "bare_alias_at alias s =
     list_ex (\<lambda>q. starts q s \<and> ends_item (drop (length q) s)) (quoted_forms alias @ [alias])"

definition after_distinct :: "string \<Rightarrow> string list" where
  "after_distinct s = (if map ascii_upper (take 8 s) = ''DISTINCT'' then after_one_space (drop 8 s) else [])"

definition bare_alias :: "string \<Rightarrow> string \<Rightarrow> bool" where
  "bare_alias alias projection = list_ex (\<lambda>item. list_ex (\<lambda>s. list_ex (bare_alias_at alias) (s # after_distinct s))
     (after_spaces item)) (projection # behind CHR '','' projection)"

definition alias_projected :: "string \<Rightarrow> string \<Rightarrow> bool" where
  "alias_projected projection alias \<longleftrightarrow> explicit_alias alias projection \<or> bare_alias alias projection"

definition query_contract_error :: "string \<Rightarrow> string list \<Rightarrow> string option" where
  "query_contract_error cypher required_outputs =
     (if has_relationship_list_used_as_path cypher then Some ''relationship list used as a path''
      else if has_coupled_independent_bom_paths cypher then Some ''independent paths coupled in one MATCH''
      else if required_outputs = [] then None
      else (case return_projection cypher of
          None \<Rightarrow> Some ''no RETURN clause''
        | Some projection \<Rightarrow>
            (let missing = filter (\<lambda>a. \<not> alias_projected projection a) required_outputs in
             if missing = [] then None else Some (''missing aliases: '' @ joined '', '' missing))))"

definition make_cypher_agent :: "generator \<Rightarrow> (nat \<Rightarrow> string \<Rightarrow> py_exception + pyval)
    \<Rightarrow> (py_exception \<Rightarrow> string option) \<Rightarrow> graph_schema \<Rightarrow> semantic_catalog option \<Rightarrow> retry_config" where
  "make_cypher_agent generate_cypher execute_cypher neo4j_code schema catalog =
     cypher_agent_config generate_cypher execute_cypher neo4j_code (\<lambda>q. Inr (cypher_guard schema q))
       query_contract_error catalog"

definition make_sql_agent :: "generator \<Rightarrow> (nat \<Rightarrow> string \<Rightarrow> py_exception + pyval)
    \<Rightarrow> (string \<Rightarrow> sql_statement list) \<Rightarrow> sql_schema \<Rightarrow> retry_config" where
  "make_sql_agent generate_sql execute_sql parse schema =
     sql_agent_config generate_sql execute_sql (\<lambda>q. Inr (sql_guard parse schema q))"

subsection \<open>What the contract guarantees\<close>

lemma query_contract_None:
  "query_contract_error cypher required = None \<longleftrightarrow>
     \<not> has_relationship_list_used_as_path cypher \<and> \<not> has_coupled_independent_bom_paths cypher \<and>
     (required = [] \<or> (\<exists>p. return_projection cypher = Some p \<and> (\<forall>a \<in> set required. alias_projected p a)))"
  by (auto simp: query_contract_error_def Let_def filter_empty_conv split: option.splits)

text \<open>
  What an agent promises about its database: it hands its executor only queries with some property, and it treats
  executors that agree on a query alike.  Then the other queries do not matter to any run.
\<close>

locale confined_agent =
  fixes make :: "(nat \<Rightarrow> string \<Rightarrow> py_exception + pyval) \<Rightarrow> retry_config" and admits :: "retry_state \<Rightarrow> string \<Rightarrow> bool"
  assumes checks_admit: "passes_checks (make x) st q \<Longrightarrow> admits st q"
    and replace_executor: "(make x)\<lparr>rc_execute := rc_execute (make y)\<rparr> = make y"
    and executor_cong: "x n q = y n q \<Longrightarrow> rc_execute (make x) n q = rc_execute (make y) n q"
begin

lemma run_confined:
  assumes "\<And>n q. admits st q \<Longrightarrow> x n q = y n q"
  shows "run_agent (make y) st = run_agent (make x) st"
proof -
  have "rc_execute (make x) n q = rc_execute (make y) n q" if "passes_checks (make x) st q" for n q
    using that assms checks_admit executor_cong by blast
  from run_agent_execute_cong[OF this] show ?thesis by (simp only: replace_executor)
qed

end

definition admitted :: "graph_schema \<Rightarrow> retry_state \<Rightarrow> string \<Rightarrow> bool" where
  "admitted schema st q \<longleftrightarrow> gr_allowed (cypher_guard schema q) \<and> query_contract_error q (ra_required_outputs st) = None"

definition confined_text :: "(string \<Rightarrow> sql_statement list) \<Rightarrow> sql_schema \<Rightarrow> retry_state \<Rightarrow> string \<Rightarrow> bool" where
  "confined_text parse schema st q \<longleftrightarrow> (\<exists>s. filter (\<lambda>s. \<not> blank (sq_text s)) (parse q) = [s] \<and> read_only_shape s q \<and>
     (\<forall>t \<in> set (sq_flatten s). \<not> write_token t) \<and> confined schema s)"

interpretation graph_agent: confined_agent "\<lambda>x. make_cypher_agent g x c schema catalog" "admitted schema" for g c schema catalog
  by unfold_locales (simp_all add: passes_checks_def make_cypher_agent_def cypher_agent_config_def admitted_def
    wrap_execute_cypher_def)

interpretation sql_agent: confined_agent "\<lambda>x. make_sql_agent g x parse schema" "confined_text parse schema" for g parse schema
proof unfold_locales
  fix x st q
  assume "passes_checks (make_sql_agent g x parse schema) st q"
  then have "gr_allowed (sql_guard parse schema q)"
    by (simp add: passes_checks_def make_sql_agent_def sql_agent_config_def)
  from sql_guard_confined[OF this] sql_guard_reads[OF this] show "confined_text parse schema st q"
    by (auto simp: confined_text_def)
qed (simp_all add: make_sql_agent_def sql_agent_config_def)

subsection \<open>Properties\<close>

text \<open>C24: The graph agent as production assembles it runs no query against Neo4j that the schema guard refuses, that
  couples independent variable-length BOM paths in one \<open>MATCH\<close>, that passes a relationship list to a path function,
  or whose last \<open>RETURN\<close> lacks a required alias: whatever the database does on such queries changes no run of the
  agent, whatever the model generates.\<close>

theorem graph_agent_executes_only_contracted_queries:
  assumes "\<And>n q p. gr_allowed (cypher_guard schema q) \<Longrightarrow> \<not> has_coupled_independent_bom_paths q \<Longrightarrow>
      \<not> has_relationship_list_used_as_path q \<Longrightarrow>
      ra_required_outputs st = [] \<or> (return_projection q = Some p \<and> (\<forall>a \<in> set (ra_required_outputs st). alias_projected p a)) \<Longrightarrow>
      execute n q = ex n q"
  shows "run_agent (make_cypher_agent generate ex neo4j_code schema catalog) st =
    run_agent (make_cypher_agent generate execute neo4j_code schema catalog) st"
  by (rule graph_agent.run_confined) (use assms in \<open>auto simp: admitted_def query_contract_None\<close>)

theorem graph_agent_executes_only_contracted_queries_witness:
  "run_agent (make_cypher_agent (\<lambda>st p f. Inr ''RETURN 1'') (\<lambda>n q. if q = ''DROP'' then Inr (PBool True) else Inr (PList []))
      (\<lambda>e. None) example_schema None) example_retry_state =
   run_agent (make_cypher_agent (\<lambda>st p f. Inr ''RETURN 1'') (\<lambda>n q. Inr (PList []))
      (\<lambda>e. None) example_schema None) example_retry_state"
proof (rule graph_agent_executes_only_contracted_queries)
  fix n q p
  assume a: "ra_required_outputs example_retry_state = [] \<or> (return_projection q = Some p \<and>
      (\<forall>a \<in> set (ra_required_outputs example_retry_state). alias_projected p a))"
  have "ra_required_outputs example_retry_state = [''id'']" by (simp add: example_retry_state_def)
  moreover have "return_projection ''DROP'' = None" by code_simp
  ultimately show "Inr (PList []) = (if q = ''DROP'' then Inr (PBool True) else (Inr (PList []) :: py_exception + pyval))"
    using a by auto
qed

text \<open>C23: The SQL agent as production assembles it sends PostgreSQL only single statements of a reading shape without
  a write keyword, all of whose scanned table references belong to the schema or to the statement's own \<open>WITH\<close>
  definitions: whatever the database does on any other text changes no run of the agent.\<close>

theorem sql_agent_executes_only_confined_queries:
  assumes "\<And>n q s. filter (\<lambda>s. \<not> blank (sq_text s)) (parse q) = [s] \<Longrightarrow> read_only_shape s q \<Longrightarrow>
      (\<forall>t \<in> set (sq_flatten s). \<not> write_token t) \<Longrightarrow> confined schema s \<Longrightarrow> execute n q = ex n q"
  shows "run_agent (make_sql_agent generate ex parse schema) st = run_agent (make_sql_agent generate execute parse schema) st"
  by (rule sql_agent.run_confined) (use assms in \<open>auto simp: confined_text_def\<close>)

theorem sql_agent_executes_only_confined_queries_witness:
  "run_agent (make_sql_agent (\<lambda>st p f. Inr ''q'') (\<lambda>n q. if q = ''DROP'' then Inr (PBool True) else Inr (PList []))
      (\<lambda>q. if q = ''DROP'' then [] else [example_sql]) example_tables) example_retry_state =
   run_agent (make_sql_agent (\<lambda>st p f. Inr ''q'') (\<lambda>n q. Inr (PList []))
      (\<lambda>q. if q = ''DROP'' then [] else [example_sql]) example_tables) example_retry_state"
  by (rule sql_agent_executes_only_confined_queries) (auto split: if_splits)

end
