(* ===== verification/Guard_Audit.thy ===== *)
theory Guard_Audit
  imports Main
begin

text \<open>
  The audit logger of the guards (\<open>_JsonlAuditLogger\<close> of \<open>orchestrator/guards/audit.py\<close>): its file handler is created
  on first use by double-checked locking, while any number of request threads log.  A step is one atomic action of
  one thread; creating the handler may raise.  \<open>reset_for_tests\<close>, which the tests call between requests, is left
  out, as are the two environment variables and the logging level.
\<close>

subsection \<open>Threads\<close>

text \<open>Where a thread stands in \<open>log\<close>, with the record it logs; a handler is the number of its creation.\<close>

datatype 'r audit_pc =
    Outside
  | Entering 'r
  | WaitingLock 'r
  | HoldingLock 'r
  | Creating 'r
  | Created 'r nat
  | Added 'r nat
  | Releasing 'r
  | HasLogger 'r

record 'r audit_logger =
  au_handler :: "nat option"
  au_attached :: "nat list"
  au_created :: nat
  au_lock :: "nat option"
  au_lines :: "(nat \<times> 'r) list"
  au_logged :: "'r list"
  au_pc :: "nat \<Rightarrow> 'r audit_pc"

definition initial_logger :: "'r audit_logger" where
  "initial_logger = \<lparr>au_handler = None, au_attached = [], au_created = 0, au_lock = None, au_lines = [],
     au_logged = [], au_pc = (\<lambda>_. Outside)\<rparr>"

datatype 'r audit_action = CallLog 'r | Continue | CreationFails

definition goes :: "nat \<Rightarrow> 'r audit_pc \<Rightarrow> 'r audit_logger \<Rightarrow> 'r audit_logger" where
  "goes i pc l = l\<lparr>au_pc := (au_pc l)(i := pc)\<rparr>"

text \<open>The next action of thread \<open>i\<close>; \<open>None\<close> when it has none, as while it waits for a taken lock.\<close>

definition continue_step :: "nat \<Rightarrow> 'r audit_logger \<Rightarrow> 'r audit_logger option" where
  "continue_step i l = (case au_pc l i of
     Outside \<Rightarrow> None
   | Entering r \<Rightarrow> Some (goes i (if au_handler l = None then WaitingLock r else HasLogger r) l)
   | WaitingLock r \<Rightarrow> if au_lock l = None then Some (goes i (HoldingLock r) (l\<lparr>au_lock := Some i\<rparr>)) else None
   | HoldingLock r \<Rightarrow> Some (goes i (if au_handler l = None then Creating r else Releasing r) l)
   | Creating r \<Rightarrow> Some (goes i (Created r (au_created l)) (l\<lparr>au_created := au_created l + 1\<rparr>))
   | Created r h \<Rightarrow> Some (goes i (Added r h) (l\<lparr>au_attached := au_attached l @ [h]\<rparr>))
   | Added r h \<Rightarrow> Some (goes i (Releasing r) (l\<lparr>au_handler := Some h\<rparr>))
   | Releasing r \<Rightarrow> Some (goes i (HasLogger r) (l\<lparr>au_lock := None\<rparr>))
   | HasLogger r \<Rightarrow> Some (goes i Outside
       (l\<lparr>au_lines := au_lines l @ map (\<lambda>h. (h, r)) (au_attached l), au_logged := au_logged l @ [r]\<rparr>)))"

definition audit_step :: "nat \<Rightarrow> 'r audit_action \<Rightarrow> 'r audit_logger \<Rightarrow> 'r audit_logger option" where
  "audit_step i a l = (case a of
     CallLog r \<Rightarrow> if au_pc l i = Outside then Some (goes i (Entering r) l) else None
   | Continue \<Rightarrow> continue_step i l
   | CreationFails \<Rightarrow> (case au_pc l i of
       Creating r \<Rightarrow> Some (goes i Outside (l\<lparr>au_lock := None\<rparr>))
     | _ \<Rightarrow> None))"

inductive audit_reachable :: "'r audit_logger \<Rightarrow> bool" where
  start: "audit_reachable initial_logger"
| step: "audit_reachable l \<Longrightarrow> audit_step i a l = Some l' \<Longrightarrow> audit_reachable l'"

fun audit_run :: "(nat \<times> 'r audit_action) list \<Rightarrow> 'r audit_logger \<Rightarrow> 'r audit_logger option" where
  "audit_run [] l = Some l"
| "audit_run ((i, a) # xs) l = (case audit_step i a l of None \<Rightarrow> None | Some l' \<Rightarrow> audit_run xs l')"

lemma audit_run_reachable: "audit_run xs l = Some l' \<Longrightarrow> audit_reachable l \<Longrightarrow> audit_reachable l'"
  by (induction xs l rule: audit_run.induct) (auto split: option.splits intro: audit_reachable.step)

subsection \<open>The invariant\<close>

fun critical :: "'r audit_pc \<Rightarrow> bool" where
  "critical (HoldingLock r) = True"
| "critical (Creating r) = True"
| "critical (Created r h) = True"
| "critical (Added r h) = True"
| "critical (Releasing r) = True"
| "critical _ = False"

text \<open>What a thread's position tells about the handler.\<close>

fun pc_ok :: "'r audit_pc \<Rightarrow> nat option \<Rightarrow> nat list \<Rightarrow> bool" where
  "pc_ok (Creating r) handler attached = (handler = None \<and> attached = [])"
| "pc_ok (Created r h) handler attached = (handler = None \<and> attached = [])"
| "pc_ok (Added r h) handler attached = (handler = None \<and> attached = [h])"
| "pc_ok (Releasing r) handler attached = (handler \<noteq> None)"
| "pc_ok (HasLogger r) handler attached = (handler \<noteq> None)"
| "pc_ok _ handler attached = True"

fun adding :: "'r audit_pc \<Rightarrow> bool" where
  "adding (Added r h) = True"
| "adding _ = False"

definition lock_inv :: "'r audit_logger \<Rightarrow> bool" where
  "lock_inv l \<longleftrightarrow> (\<forall>i. critical (au_pc l i) \<longleftrightarrow> au_lock l = Some i)"

definition handler_inv :: "'r audit_logger \<Rightarrow> bool" where
  "handler_inv l \<longleftrightarrow> (\<forall>i. pc_ok (au_pc l i) (au_handler l) (au_attached l)) \<and>
     (case au_handler l of Some h \<Rightarrow> au_attached l = [h]
      | None \<Rightarrow> (\<forall>i. \<not> adding (au_pc l i)) \<longrightarrow> au_attached l = [])"

definition lines_inv :: "'r audit_logger \<Rightarrow> bool" where
  "lines_inv l \<longleftrightarrow> (\<forall>x \<in> set (au_lines l). au_handler l = Some (fst x)) \<and> map snd (au_lines l) = au_logged l"

definition audit_inv :: "'r audit_logger \<Rightarrow> bool" where
  "audit_inv l \<longleftrightarrow> lock_inv l \<and> handler_inv l \<and> lines_inv l"

lemma audit_inv_initial: "audit_inv initial_logger"
  by (simp add: audit_inv_def lock_inv_def handler_inv_def lines_inv_def initial_logger_def)

lemma adding_critical: "adding pc \<Longrightarrow> critical pc"
  by (cases pc) auto

lemma goes_simps [simp]:
  "au_pc (goes i pc l) = (au_pc l)(i := pc)" "au_handler (goes i pc l) = au_handler l"
  "au_attached (goes i pc l) = au_attached l" "au_lock (goes i pc l) = au_lock l"
  "au_lines (goes i pc l) = au_lines l" "au_logged (goes i pc l) = au_logged l"
  by (simp_all add: goes_def)

lemma lock_step:
  assumes "lock_inv l" and "audit_step i a l = Some l'"
  shows "lock_inv l'"
  unfolding lock_inv_def
proof
  fix j
  have "critical (au_pc l i) \<longleftrightarrow> au_lock l = Some i" "critical (au_pc l j) \<longleftrightarrow> au_lock l = Some j"
    using assms(1) by (simp_all add: lock_inv_def)
  with assms(2) show "critical (au_pc l' j) \<longleftrightarrow> au_lock l' = Some j"
    unfolding audit_step_def continue_step_def
    by (cases "au_pc l i"; cases a) (auto split: if_splits)
qed

lemma handler_step:
  assumes "lock_inv l" and "handler_inv l" and "audit_step i a l = Some l'"
  shows "handler_inv l'"
proof -
  have quiet: "pc_ok (au_pc l j) h att" if "j \<noteq> i" "critical (au_pc l i)" "au_handler l \<noteq> None \<longrightarrow> h \<noteq> None" for j h att
  proof -
    have "\<not> critical (au_pc l j)" using assms(1) that by (auto simp: lock_inv_def)
    moreover have "pc_ok (au_pc l j) (au_handler l) (au_attached l)" using assms(2) by (simp add: handler_inv_def)
    ultimately show ?thesis using that(3) by (cases "au_pc l j") auto
  qed
  have alone: "\<not> adding (au_pc l j)" if "j \<noteq> i" "critical (au_pc l i)" for j
    using assms(1) that adding_critical[of "au_pc l j"] by (auto simp: lock_inv_def)
  have none: "\<not> adding (au_pc l j)" if "critical (au_pc l i)" "\<not> adding (au_pc l i)" for j
    using alone that by (cases "j = i") auto
  have here: "pc_ok (au_pc l i) (au_handler l) (au_attached l)" using assms(2) by (simp add: handler_inv_def)
  have ok: "\<forall>j. pc_ok (au_pc l j) (au_handler l) (au_attached l)"
    and old: "case au_handler l of Some h \<Rightarrow> au_attached l = [h]
      | None \<Rightarrow> \<not> adding (au_pc l i) \<and> (\<forall>j. j \<noteq> i \<longrightarrow> \<not> adding (au_pc l j)) \<longrightarrow> au_attached l = []"
    using assms(2) by (auto simp: handler_inv_def split: option.splits)
  show ?thesis
    using ok old assms(3) quiet alone none here unfolding audit_step_def continue_step_def handler_inv_def
    by (cases "au_pc l i"; cases a; cases "au_handler l") (auto split: if_splits)
qed

lemma lines_step:
  assumes "handler_inv l" and "lines_inv l" and "audit_step i a l = Some l'" and "lock_inv l"
  shows "lines_inv l'"
proof -
  have here: "pc_ok (au_pc l i) (au_handler l) (au_attached l)" using assms(1) by (simp add: handler_inv_def)
  have att: "au_attached l = [h]" if "au_handler l = Some h" for h
    using assms(1) that by (simp add: handler_inv_def)
  show ?thesis
    using assms(2,3) here att unfolding audit_step_def continue_step_def lines_inv_def
    by (cases "au_pc l i"; cases a; cases "au_handler l") (auto split: if_splits)
qed

lemma audit_inv_reachable: "audit_reachable l \<Longrightarrow> audit_inv l"
proof (induction rule: audit_reachable.induct)
  case (step l i a l')
  then show ?case
    unfolding audit_inv_def using lock_step handler_step lines_step by blast
qed (rule audit_inv_initial)

lemma attached_le_one: "handler_inv l \<Longrightarrow> length (au_attached l) \<le> 1"
proof (cases "au_handler l")
  case None
  assume inv: "handler_inv l"
  show ?thesis
  proof (cases "\<exists>i. adding (au_pc l i)")
    case True
    then obtain i r h where "au_pc l i = Added r h" by (metis adding.elims(2))
    moreover have "pc_ok (au_pc l i) (au_handler l) (au_attached l)" using inv by (simp add: handler_inv_def)
    ultimately show ?thesis by simp
  next
    case False
    with inv None show ?thesis by (simp add: handler_inv_def)
  qed
qed (simp add: handler_inv_def)

lemma holder_can_step:
  assumes "lock_inv l" and "au_lock l = Some j"
  shows "\<exists>l'. audit_step j Continue l = Some l'"
proof -
  have "critical (au_pc l j)" using assms by (simp add: lock_inv_def)
  then show ?thesis by (cases "au_pc l j") (auto simp: audit_step_def continue_step_def)
qed

subsection \<open>Properties\<close>

text \<open>C34: However the threads interleave and however often the creation of the file handler fails, the logger never
  has two handlers, at most one thread is between acquiring and releasing the lock, every completed call of \<open>log\<close>
  has written its record exactly once, in the order of the calls' completion, and a thread that holds the lock can
  always go on, so the lock is never lost.\<close>

theorem audit_records_written_once:
  assumes "audit_reachable l"
  shows "length (au_attached l) \<le> 1 \<and> map snd (au_lines l) = au_logged l \<and>
    (\<forall>i j. critical (au_pc l i) \<longrightarrow> critical (au_pc l j) \<longrightarrow> i = j) \<and>
    (\<forall>j. au_lock l = Some j \<longrightarrow> (\<exists>l'. audit_step j Continue l = Some l'))"
proof -
  have inv: "lock_inv l" "handler_inv l" "lines_inv l"
    using audit_inv_reachable[OF assms] by (simp_all add: audit_inv_def)
  show ?thesis
    using attached_le_one[OF inv(2)] holder_can_step[OF inv(1)] inv(1,3)
    by (auto simp: lines_inv_def lock_inv_def)
qed

text \<open>Two threads that both find no handler: the second sees the first one's handler under the lock.\<close>

definition example_schedule :: "(nat \<times> string audit_action) list" where
  "example_schedule = [(0, CallLog ''a''), (1, CallLog ''b''), (0, Continue), (1, Continue), (0, Continue),
     (0, Continue), (0, Continue), (0, Continue), (0, Continue), (0, Continue), (1, Continue), (1, Continue),
     (1, Continue), (1, Continue), (0, Continue)]"

theorem audit_records_written_once_witness:
  "\<exists>l. audit_run example_schedule initial_logger = Some l \<and> au_lines l = [(0, ''b''), (0, ''a'')] \<and>
     length (au_attached l) \<le> 1 \<and> map snd (au_lines l) = au_logged l"
proof -
  let ?l = "the (audit_run example_schedule initial_logger)"
  have run: "audit_run example_schedule initial_logger = Some ?l"
    by (simp add: example_schedule_def initial_logger_def audit_step_def continue_step_def goes_def)
  have lines: "au_lines ?l = [(0, ''b''), (0, ''a'')]"
    by (simp add: example_schedule_def initial_logger_def audit_step_def continue_step_def goes_def)
  from audit_records_written_once[OF audit_run_reachable[OF run audit_reachable.start]] run lines
  show ?thesis by blast
qed

end
