(* ===== verification/Entity_Names.thy ===== *)
theory Entity_Names
  imports Semantic_Catalog "HOL-Library.Product_Lexorder"
begin

text \<open>
  Where names occur in a question, and which of them name an entity (the text functions of
  \<open>orchestrator/nodes/resolve_entity.py\<close>).  The strings of the model have code points below 256; they are in NFC,
  and contain no Hangul, so the branch of \<open>_is_exact_type_alias\<close> for Korean labels is not reached.
\<close>

subsection \<open>Case folding with positions\<close>

definition is_ascii_word_character :: "char \<Rightarrow> bool" where
  "is_ascii_word_character c \<longleftrightarrow> is_letter_or_underscore c \<or> is_digit c"

fun fold_spans :: "nat \<Rightarrow> string \<Rightarrow> (nat \<times> nat) list" where
  "fold_spans i [] = []"
| "fold_spans i (c # cs) = replicate (length (casefold [c])) (i, Suc i) @ fold_spans (Suc i) cs"

definition casefold_with_spans :: "string \<Rightarrow> string \<times> (nat \<times> nat) list" where
  "casefold_with_spans s = (casefold s, fold_spans 0 s)"

definition whole_character_match :: "(nat \<times> nat) list \<Rightarrow> nat \<Rightarrow> nat \<Rightarrow> bool" where
  "whole_character_match spans a b \<longleftrightarrow>
     (a = 0 \<or> spans ! (a - 1) \<noteq> spans ! a) \<and> (b = length spans \<or> spans ! (b - 1) \<noteq> spans ! b)"

text \<open>The starts of all occurrences, from left to right, as the loop over \<open>str.find\<close> with \<open>offset = start + 1\<close>
  finds them for a non-empty text.\<close>

fun occurrences :: "nat \<Rightarrow> string \<Rightarrow> string \<Rightarrow> nat list" where
  "occurrences i name [] = []"
| "occurrences i name (c # s) =
     (if take (length name) (c # s) = name then [i] else []) @ occurrences (Suc i) name s"

definition literal_span_ok :: "string \<Rightarrow> (nat \<times> nat) list \<Rightarrow> string \<Rightarrow> nat \<Rightarrow> bool" where
  "literal_span_ok folded_query positions folded_name a = (let b = a + length folded_name in
     \<not> (0 < a \<and> is_ascii_word_character (hd folded_name) \<and> is_ascii_word_character (folded_query ! (a - 1))) \<and>
     \<not> (b < length folded_query \<and> is_ascii_word_character (last folded_name) \<and>
        is_ascii_word_character (folded_query ! b)) \<and>
     whole_character_match positions a b)"

definition literal_name_spans :: "string \<Rightarrow> string \<Rightarrow> (nat \<times> nat) list" where
  "literal_name_spans query name = (if name = [] then [] else
     let (folded_query, positions) = casefold_with_spans query; folded_name = casefold name in
     map (\<lambda>a. (fst (positions ! a), snd (positions ! (a + length folded_name - 1))))
       (filter (literal_span_ok folded_query positions folded_name) (occurrences 0 folded_name folded_query)))"

subsection \<open>Names up to white space and commas\<close>

text \<open>\<open>re.sub(r"\s*,\s*", ",", s)\<close>\<close>

function tighten_commas :: "string \<Rightarrow> string" where
  "tighten_commas [] = []"
| "tighten_commas (c # s) =
     (if c = CHR '','' then c # tighten_commas (dropWhile is_space s)
      else if is_space c \<and> take 1 (dropWhile is_space s) = '','' then tighten_commas (dropWhile is_space s)
      else c # tighten_commas s)"
  by pat_completeness auto
termination
  by (relation "measure length") (auto simp: less_Suc_eq_le length_dropWhile_le)

definition normalized_name_comparison :: "bool \<Rightarrow> string \<Rightarrow> string" where
  "normalized_name_comparison remove_commas value = (let normalized = casefold value in
     squeeze (if remove_commas then map (\<lambda>c. if c = CHR '','' then CHR '' '' else c) normalized
       else tighten_commas normalized))"

type_synonym placed = "(char \<times> nat \<times> nat) list"

definition place_character :: "bool \<Rightarrow> char \<times> nat \<times> nat \<Rightarrow> placed \<Rightarrow> placed" where
  "place_character remove_commas x acc = (case x of (c, a, b) \<Rightarrow>
     if is_space c \<or> (remove_commas \<and> c = CHR '','')
     then if acc = [] \<or> (\<not> remove_commas \<and> fst (last acc) = CHR '','') then acc
       else if fst (last acc) = CHR '' '' then butlast acc @ [(CHR '' '', fst (snd (last acc)), b)]
       else acc @ [(CHR '' '', a, b)]
     else if c = CHR '','' \<and> acc \<noteq> [] \<and> fst (last acc) = CHR '' '' then butlast acc @ [(c, a, b)]
     else acc @ [(c, a, b)])"

definition place_characters :: "bool \<Rightarrow> string \<Rightarrow> placed" where
  "place_characters remove_commas query = (case casefold_with_spans query of (folded, spans) \<Rightarrow>
     let acc = fold (place_character remove_commas) (zip folded spans) [] in
     if acc \<noteq> [] \<and> fst (last acc) = CHR '' '' then butlast acc else acc)"

definition normalized_span :: "string \<Rightarrow> string \<Rightarrow> (nat \<times> nat) list \<Rightarrow> nat \<Rightarrow> nat \<Rightarrow> (nat \<times> nat) option" where
  "normalized_span query name positions len m =
     (if \<not> whole_character_match positions m (m + len) then None
      else let a = fst (positions ! m); b = snd (positions ! (m + len - 1)) in
        if (0 < a \<and> is_ascii_word_character (hd name) \<and> is_ascii_word_character (query ! (a - 1))) \<or>
           (b < length query \<and> is_ascii_word_character (last name) \<and> is_ascii_word_character (query ! b))
        then None else Some (a, b))"

definition normalized_name_spans :: "string \<Rightarrow> string \<Rightarrow> bool \<Rightarrow> (nat \<times> nat) list" where
  "normalized_name_spans query name remove_commas =
     (let target = normalized_name_comparison remove_commas name in
      if target = [] then []
      else let acc = place_characters remove_commas query in
        somes (map (normalized_span query name (map snd acc) (length target)) (occurrences 0 target (map fst acc))))"

subsection \<open>Candidate names\<close>

definition starts_name :: "char \<Rightarrow> bool" where
  "starts_name c \<longleftrightarrow> is_ascii_upper c \<or> is_ascii_lower c \<or> is_digit c"

definition continues_name :: "char \<Rightarrow> bool" where
  "continues_name c \<longleftrightarrow> starts_name c \<or> c \<in> set '' ,.&()+/_-'' \<or> code c \<in> {9, 39}"

function name_runs :: "string \<Rightarrow> string list" where
  "name_runs [] = []"
| "name_runs (c # s) = (if starts_name c
     then (c # takeWhile continues_name s) # name_runs (dropWhile continues_name s)
     else name_runs s)"
  by pat_completeness auto
termination
  by (relation "measure length") (auto simp: less_Suc_eq_le length_dropWhile_le)

definition rstrip_marks :: "string \<Rightarrow> string" where
  "rstrip_marks s = rev (dropWhile (\<lambda>c. c \<in> set ''.,;:!?'') (rev s))"

definition literal_name_candidates :: "string \<Rightarrow> string list" where
  "literal_name_candidates query = fold (\<lambda>run candidates. let value = strip run in
     if value = [] \<or> \<not> list_ex (\<lambda>c. is_ascii_upper c \<or> is_ascii_lower c) value then candidates
     else fold (\<lambda>x acc. if x \<noteq> [] \<and> x \<notin> set acc then acc @ [x] else acc) [value, rstrip_marks value] candidates)
     (name_runs query) []"

subsection \<open>Occurrences are exact\<close>

definition fold_char :: "char \<Rightarrow> string" where
  "fold_char c = casefold [c]"

lemma casefold_Nil [simp]: "casefold [] = []"
  by (simp add: casefold_def)

lemma casefold_Cons: "casefold (c # s) = fold_char c @ casefold s"
  by (simp add: casefold_def fold_char_def)

lemma casefold_append: "casefold (s @ t) = casefold s @ casefold t"
  by (simp add: casefold_def)

lemma fold_char_nonempty [simp]: "fold_char c \<noteq> []"
  by (simp add: casefold_def fold_char_def Let_def)

lemma casefold_Nil_iff [simp]: "casefold s = [] \<longleftrightarrow> s = []"
  by (cases s) (auto simp: casefold_Cons)

lemma fold_spans_Cons: "fold_spans i (c # cs) = replicate (length (fold_char c)) (i, Suc i) @ fold_spans (Suc i) cs"
  by (simp add: fold_char_def)

lemma length_fold_spans [simp]: "length (fold_spans i s) = length (casefold s)"
  by (induction s arbitrary: i) (auto simp: casefold_Cons fold_spans_Cons simp del: fold_spans.simps(2))

text \<open>Where the fold of a character begins.\<close>

definition fold_offset :: "string \<Rightarrow> nat \<Rightarrow> nat" where
  "fold_offset s i = length (casefold (take i s))"

lemma fold_offset_0 [simp]: "fold_offset s 0 = 0"
  by (simp add: fold_offset_def)

lemma fold_offset_Suc: "i < length s \<Longrightarrow> fold_offset s (Suc i) = fold_offset s i + length (fold_char (s ! i))"
  by (simp add: fold_offset_def take_Suc_conv_app_nth casefold_append casefold_Cons)

lemma fold_offset_Cons [simp]: "fold_offset (c # s) (Suc i) = length (fold_char c) + fold_offset s i"
  by (simp add: fold_offset_def casefold_Cons)

lemma fold_offset_all: "fold_offset s (length s) = length (casefold s)"
  by (simp add: fold_offset_def)

lemma fold_offset_less: "i < j \<Longrightarrow> j \<le> length s \<Longrightarrow> fold_offset s i < fold_offset s j"
proof (induction j)
  case (Suc j)
  have step: "fold_offset s j < fold_offset s (Suc j)" using Suc.prems by (simp add: fold_offset_Suc)
  show ?case
  proof (cases "i = j")
    case False
    then have "fold_offset s i < fold_offset s j" using Suc by simp
    with step show ?thesis by simp
  qed (use step in simp)
qed simp

lemma fold_offset_less_iff:
  "i \<le> length s \<Longrightarrow> j \<le> length s \<Longrightarrow> fold_offset s i < fold_offset s j \<longleftrightarrow> i < j"
  by (metis fold_offset_less linorder_neqE_nat not_less_iff_gr_or_eq)

lemma fold_spans_nth:
  "i < length s \<Longrightarrow> fold_offset s i \<le> k \<Longrightarrow> k < fold_offset s (Suc i) \<Longrightarrow> fold_spans m s ! k = (m + i, Suc (m + i))"
proof (induction s arbitrary: i k m)
  case (Cons c s)
  show ?case
  proof (cases i)
    case 0
    with Cons.prems show ?thesis by (simp add: fold_spans_Cons nth_append del: fold_spans.simps(2))
  next
    case (Suc j)
    with Cons.prems Cons.IH[of j "k - length (fold_char c)" "Suc m"] show ?thesis
      by (simp add: fold_spans_Cons nth_append del: fold_spans.simps(2)) linarith?
  qed
qed simp

lemma fold_locate: "k < length (casefold s) \<Longrightarrow> \<exists>i < length s. fold_offset s i \<le> k \<and> k < fold_offset s (Suc i)"
proof (induction s arbitrary: k)
  case (Cons c s)
  show ?case
  proof (cases "k < length (fold_char c)")
    case True
    then show ?thesis by (intro exI[of _ 0]) simp
  next
    case False
    have "k - length (fold_char c) < length (casefold s)"
      using Cons.prems False by (simp add: casefold_Cons)
    from Cons.IH[OF this] obtain i where
      "i < length s" "fold_offset s i \<le> k - length (fold_char c)" "k - length (fold_char c) < fold_offset s (Suc i)"
      by blast
    with False show ?thesis by (intro exI[of _ "Suc i"]) auto
  qed
qed simp

lemma span_changes:
  assumes "0 < k" and "k < length (casefold s)"
  shows "fold_spans 0 s ! (k - 1) \<noteq> fold_spans 0 s ! k \<longleftrightarrow> (\<exists>i \<le> length s. k = fold_offset s i)"
proof -
  obtain i where i: "i < length s" "fold_offset s i \<le> k" "k < fold_offset s (Suc i)"
    using fold_locate[OF assms(2)] by blast
  have here: "fold_spans 0 s ! k = (i, Suc i)" using fold_spans_nth[OF i, of 0] by simp
  show ?thesis
  proof (cases "k = fold_offset s i")
    case True
    then obtain j where j: "i = Suc j" using assms(1) by (cases i) auto
    have "j < length s" "fold_offset s j \<le> k - 1" "k - 1 < fold_offset s (Suc j)"
      using i(1) True assms(1) fold_offset_less[of j i s] by (auto simp: j)
    from fold_spans_nth[OF this, of 0] here have "fold_spans 0 s ! (k - 1) \<noteq> fold_spans 0 s ! k" by (simp add: j)
    moreover have "i \<le> length s" using i(1) by simp
    ultimately show ?thesis using True by blast
  next
    case False
    then have "fold_offset s i \<le> k - 1" "k - 1 < fold_offset s (Suc i)" using i(2,3) by auto
    from fold_spans_nth[OF i(1) this, of 0] here have "fold_spans 0 s ! (k - 1) = fold_spans 0 s ! k" by simp
    moreover have "k \<noteq> fold_offset s j" if "j \<le> length s" for j
    proof
      assume "k = fold_offset s j"
      with i False have "fold_offset s i < fold_offset s j" "fold_offset s j < fold_offset s (Suc i)" by auto
      with i(1) that show False by (simp add: fold_offset_less_iff)
    qed
    ultimately show ?thesis by blast
  qed
qed

lemma whole_match_iff:
  assumes "a < b" and "b \<le> length (casefold s)"
  shows "whole_character_match (fold_spans 0 s) a b \<longleftrightarrow>
    (\<exists>i j. i < j \<and> j \<le> length s \<and> a = fold_offset s i \<and> b = fold_offset s j)"
proof -
  have "(a = 0 \<or> fold_spans 0 s ! (a - 1) \<noteq> fold_spans 0 s ! a) \<longleftrightarrow> (\<exists>i \<le> length s. a = fold_offset s i)"
    using span_changes[of a s] assms by (cases "a = 0") (auto intro: exI[of _ 0])
  moreover have "(b = length (casefold s) \<or> fold_spans 0 s ! (b - 1) \<noteq> fold_spans 0 s ! b) \<longleftrightarrow>
      (\<exists>j \<le> length s. b = fold_offset s j)"
    using span_changes[of b s] assms fold_offset_all[of s] by (cases "b = length (casefold s)") auto
  ultimately have "whole_character_match (fold_spans 0 s) a b \<longleftrightarrow>
      (\<exists>i \<le> length s. a = fold_offset s i) \<and> (\<exists>j \<le> length s. b = fold_offset s j)"
    by (simp add: whole_character_match_def)
  also have "\<dots> \<longleftrightarrow> (\<exists>i j. i < j \<and> j \<le> length s \<and> a = fold_offset s i \<and> b = fold_offset s j)"
  proof
    assume "(\<exists>i \<le> length s. a = fold_offset s i) \<and> (\<exists>j \<le> length s. b = fold_offset s j)"
    then obtain i j where ij: "i \<le> length s" "a = fold_offset s i" "j \<le> length s" "b = fold_offset s j" by blast
    then have "i < j" using assms(1) by (simp add: fold_offset_less_iff)
    with ij show "\<exists>i j. i < j \<and> j \<le> length s \<and> a = fold_offset s i \<and> b = fold_offset s j" by blast
  next
    assume "\<exists>i j. i < j \<and> j \<le> length s \<and> a = fold_offset s i \<and> b = fold_offset s j"
    then obtain i j where ij: "i < j" "j \<le> length s" "a = fold_offset s i" "b = fold_offset s j" by blast
    then have "i \<le> length s" by simp
    with ij show "(\<exists>i \<le> length s. a = fold_offset s i) \<and> (\<exists>j \<le> length s. b = fold_offset s j)" by blast
  qed
  finally show ?thesis .
qed

lemma set_occurrences:
  "name \<noteq> [] \<Longrightarrow> k \<in> set (occurrences m name s) \<longleftrightarrow>
     m \<le> k \<and> k - m + length name \<le> length s \<and> take (length name) (drop (k - m) s) = name"
proof (induction s arbitrary: m)
  case (Cons c s)
  have "k \<in> set (occurrences m name (c # s)) \<longleftrightarrow>
      (k = m \<and> take (length name) (c # s) = name) \<or> k \<in> set (occurrences (Suc m) name s)" by auto
  also have "\<dots> \<longleftrightarrow> m \<le> k \<and> k - m + length name \<le> length (c # s) \<and> take (length name) (drop (k - m) (c # s)) = name"
  proof (cases "k = m")
    case True
    have "length name \<le> length (c # s)" if "take (length name) (c # s) = name"
      using that by (metis length_take min.cobounded1 min.commute)
    with True Cons show ?thesis by auto
  next
    case False
    with Cons show ?thesis by (auto simp: drop_Cons' Suc_le_eq)
  qed
  finally show ?case .
qed auto

lemma casefold_slice:
  assumes "i < j" and "j \<le> length s"
  shows "take (fold_offset s j - fold_offset s i) (drop (fold_offset s i) (casefold s)) = casefold (take (j - i) (drop i s))"
proof -
  have "s = take i s @ take (j - i) (drop i s) @ drop j s"
    using assms by (metis append_take_drop_id drop_drop le_add_diff_inverse2 less_imp_le_nat)
  then have split: "casefold s = casefold (take i s) @ casefold (take (j - i) (drop i s)) @ casefold (drop j s)"
    by (metis casefold_append)
  have "take j s = take i s @ take (j - i) (drop i s)"
    using assms(1) by (metis le_add_diff_inverse less_imp_le_nat take_add)
  then have "fold_offset s j = fold_offset s i + length (casefold (take (j - i) (drop i s)))"
    by (simp add: fold_offset_def casefold_append)
  then show ?thesis by (simp add: split fold_offset_def)
qed

lemma casefold_split: "i < length s \<Longrightarrow> casefold s = casefold (take i s) @ fold_char (s ! i) @ casefold (drop (Suc i) s)"
  by (metis casefold_append casefold_Cons id_take_nth_drop)

lemma fold_at_start: "i < length s \<Longrightarrow> casefold s ! fold_offset s i = hd (fold_char (s ! i))"
  by (subst casefold_split[of i s]) (auto simp: fold_offset_def nth_append hd_conv_nth)

lemma fold_before: "0 < i \<Longrightarrow> i \<le> length s \<Longrightarrow> casefold s ! (fold_offset s i - 1) = last (fold_char (s ! (i - 1)))"
proof -
  assume i: "0 < i" "i \<le> length s"
  then obtain k where k: "i = Suc k" "k < length s" by (cases i) auto
  have off: "fold_offset s i - 1 = length (casefold (take k s)) + (length (fold_char (s ! k)) - 1)"
    using fold_offset_Suc[OF k(2)] by (simp add: k(1) fold_offset_def Suc_le_eq)
  have "length (fold_char (s ! k)) - 1 < length (fold_char (s ! k))" by simp
  then show ?thesis
    unfolding off using k by (subst casefold_split[of k s]) (auto simp: nth_append last_conv_nth)
qed

lemma span_ends:
  assumes "i < j" and "j \<le> length s"
  shows "fold_spans 0 s ! fold_offset s i = (i, Suc i)" "fold_spans 0 s ! (fold_offset s j - 1) = (j - 1, j)"
proof -
  have "fold_offset s i < fold_offset s (Suc i)" using assms fold_offset_less[of i "Suc i" s] by simp
  then show "fold_spans 0 s ! fold_offset s i = (i, Suc i)" using fold_spans_nth[of i s "fold_offset s i" 0] assms by simp
  obtain k where k: "j = Suc k" using assms(1) by (cases j) auto
  have "fold_offset s k < fold_offset s j" using assms(2) fold_offset_less[of k j s] by (simp add: k)
  then show "fold_spans 0 s ! (fold_offset s j - 1) = (j - 1, j)"
    using fold_spans_nth[of k s "fold_offset s j - 1" 0] assms(2) by (simp add: k)
qed

text \<open>A name stands at a span of the question: it equals that text up to case, and neither end cuts an ASCII word.\<close>

definition stands_at :: "string \<Rightarrow> string \<Rightarrow> nat \<Rightarrow> nat \<Rightarrow> bool" where
  "stands_at query name a b \<longleftrightarrow> a < b \<and> b \<le> length query \<and> casefold (take (b - a) (drop a query)) = casefold name \<and>
     \<not> (0 < a \<and> is_ascii_word_character (hd (casefold name)) \<and>
        is_ascii_word_character (last (fold_char (query ! (a - 1))))) \<and>
     \<not> (b < length query \<and> is_ascii_word_character (last (casefold name)) \<and>
        is_ascii_word_character (hd (fold_char (query ! b))))"

lemma literal_span_iff:
  assumes "name \<noteq> []" and "i < j" and "j \<le> length query"
    and "fold_offset query j = fold_offset query i + length (casefold name)"
  shows "fold_offset query i \<in> set (filter (literal_span_ok (casefold query) (fold_spans 0 query) (casefold name))
       (occurrences 0 (casefold name) (casefold query))) \<longleftrightarrow> stands_at query name i j"
proof -
  have len: "fold_offset query j \<le> length (casefold query)"
    using assms(3) fold_offset_all[of query] fold_offset_less[of j "length query" query] by (cases "j = length query") auto
  have occ: "fold_offset query i \<in> set (occurrences 0 (casefold name) (casefold query)) \<longleftrightarrow>
      casefold (take (j - i) (drop i query)) = casefold name"
    using set_occurrences[of "casefold name" "fold_offset query i" 0 "casefold query"] assms len
      casefold_slice[OF assms(2,3)] by (simp add: assms(4))
  have whole: "whole_character_match (fold_spans 0 query) (fold_offset query i) (fold_offset query j)"
    using whole_match_iff[of "fold_offset query i" "fold_offset query j" query] len fold_offset_less[OF assms(2,3)]
      assms(2,3) by blast
  have pos: "0 < fold_offset query i \<longleftrightarrow> 0 < i"
    using fold_offset_less_iff[of 0 query i] assms(2,3) by simp
  have fin: "fold_offset query j < length (casefold query) \<longleftrightarrow> j < length query"
    using fold_offset_less_iff[of j query "length query"] assms(3) by (simp add: fold_offset_all)
  have before: "casefold query ! (fold_offset query i - 1) = last (fold_char (query ! (i - 1)))" if "0 < i"
    using fold_before[of i query] that assms(2,3) by simp
  have after: "casefold query ! fold_offset query j = hd (fold_char (query ! j))" if "j < length query"
    using fold_at_start[OF that] .
  show ?thesis
    unfolding set_filter mem_Collect_eq occ stands_at_def literal_span_ok_def Let_def assms(4)[symmetric] pos fin
    using whole before after assms(2,3) by auto
qed

lemma set_literal_name_spans:
  "(a, b) \<in> set (literal_name_spans query name) \<longleftrightarrow> name \<noteq> [] \<and> stands_at query name a b"
proof (cases "name = []")
  case False
  let ?fq = "casefold query" and ?fn = "casefold name" and ?P = "fold_spans 0 query"
  let ?hits = "set (filter (literal_span_ok ?fq ?P ?fn) (occurrences 0 ?fn ?fq))"
  have spans: "set (literal_name_spans query name) =
      (\<lambda>k. (fst (?P ! k), snd (?P ! (k + length ?fn - 1)))) ` ?hits"
    using False by (simp add: literal_name_spans_def casefold_with_spans_def Let_def)
  have hit: "\<exists>i j. i < j \<and> j \<le> length query \<and> k = fold_offset query i \<and>
      fold_offset query j = fold_offset query i + length ?fn" if "k \<in> ?hits" for k
  proof -
    have le: "k + length ?fn \<le> length ?fq" using that False set_occurrences[of ?fn k 0 ?fq] by simp
    have w: "whole_character_match ?P k (k + length ?fn)" using that by (simp add: literal_span_ok_def Let_def)
    have lt: "k < k + length ?fn" using False by simp
    from iffD1[OF whole_match_iff[OF lt le] w] obtain i j where
      ij: "i < j" "j \<le> length query" "k = fold_offset query i" "k + length ?fn = fold_offset query j" by blast
    show ?thesis by (rule exI[of _ i], rule exI[of _ j]) (use ij in simp)
  qed
  show ?thesis
  proof
    assume "(a, b) \<in> set (literal_name_spans query name)"
    then obtain k where k: "k \<in> ?hits" "a = fst (?P ! k)" "b = snd (?P ! (k + length ?fn - 1))"
      unfolding spans by auto
    from hit[OF k(1)] obtain i j where ij: "i < j" "j \<le> length query" "k = fold_offset query i"
      "fold_offset query j = fold_offset query i + length ?fn" by blast
    have "a = i" "b = j" using k(2,3) span_ends[OF ij(1,2)] by (simp_all add: ij(3) flip: ij(4))
    with literal_span_iff[OF False ij(1,2,4)] k(1) ij(3) False show "name \<noteq> [] \<and> stands_at query name a b" by simp
  next
    assume "name \<noteq> [] \<and> stands_at query name a b"
    then have s: "stands_at query name a b" by simp
    then have ab: "a < b" "b \<le> length query" "casefold (take (b - a) (drop a query)) = ?fn"
      by (simp_all add: stands_at_def)
    have "fold_offset query a < fold_offset query b" using fold_offset_less[OF ab(1,2)] .
    moreover have "fold_offset query b \<le> length ?fq"
      using ab(2) fold_offset_all[of query] fold_offset_less[of b "length query" query] by (cases "b = length query") auto
    ultimately have off: "fold_offset query b = fold_offset query a + length ?fn"
      using arg_cong[OF casefold_slice[OF ab(1,2)], of length] ab(3) by simp
    from literal_span_iff[OF False ab(1,2) off] s have "fold_offset query a \<in> ?hits" by blast
    then have "(fst (?P ! fold_offset query a), snd (?P ! (fold_offset query a + length ?fn - 1))) \<in> set (literal_name_spans query name)"
      unfolding spans by (rule imageI)
    with span_ends[OF ab(1,2)] off show "(a, b) \<in> set (literal_name_spans query name)" by simp
  qed
qed (simp add: literal_name_spans_def)

subsection \<open>Entity types\<close>

record named_entity_type =
  ne_type :: string
  ne_table :: string
  ne_id_column :: string
  ne_name_column :: string
  ne_id_field :: string
  ne_name_field :: string
  ne_aliases :: "string list"

text \<open>What the code reads of a node of the graph schema: the source column of each property, the table.\<close>

record entity_node =
  en_properties :: "(string, string option) dict"
  en_source :: "(string \<times> string) option"
  en_unique_key :: "string option"
  en_aliases :: "string list"

text \<open>\<open>re.match(r"^[A-Za-z_][A-Za-z0-9_]*$", s)\<close>: the dollar also matches before a final newline.\<close>

definition drop_newline :: "string \<Rightarrow> string" where
  "drop_newline s = (if s \<noteq> [] \<and> code (last s) = 10 then butlast s else s)"

definition column_pattern :: "string \<Rightarrow> bool" where
  "column_pattern s \<longleftrightarrow> safe_identifier (drop_newline s)"

definition table_pattern :: "string \<Rightarrow> bool" where
  "table_pattern s = (case split_once CHR ''.'' (drop_newline s) of
     None \<Rightarrow> False | Some (schema, table) \<Rightarrow> safe_identifier schema \<and> safe_identifier table)"

text \<open>\<open>node_name[0].lower() + node_name[1:]\<close> of a non-empty name.\<close>

definition lower_first :: "string \<Rightarrow> string" where
  "lower_first s = (if code (hd s) = 223 then s else casefold [hd s] @ tl s)"

definition named_entity_type_of :: "string \<times> entity_node \<Rightarrow> named_entity_type option" where
  "named_entity_type_of x = (case x of (node_name, node) \<Rightarrow>
     (case (map_of (en_properties node) ''name'', en_source node, en_unique_key node) of
        (Some name_column, Some (schema, table), Some unique_key) \<Rightarrow>
          (case (map_of (en_properties node) unique_key, name_column) of
             (Some (Some id_column), Some name_column) \<Rightarrow>
               (let full = schema @ ''.'' @ table; entity_type = lower_first node_name in
                if table_pattern full \<and> column_pattern id_column \<and> column_pattern name_column
                then Some \<lparr>ne_type = entity_type, ne_table = full, ne_id_column = id_column,
                  ne_name_column = name_column, ne_id_field = unique_key, ne_name_field = entity_type @ ''Name'',
                  ne_aliases = en_aliases node\<rparr>
                else None)
           | _ \<Rightarrow> None)
      | _ \<Rightarrow> None))"

definition list_named_entity_types :: "(string, entity_node) dict \<Rightarrow> named_entity_type list" where
  "list_named_entity_types nodes = somes (map named_entity_type_of nodes)"

text \<open>The alias of the category is a Korean label.\<close>

definition SQL_NAMED_ENTITY_TYPES :: "string \<Rightarrow> named_entity_type list" where
  "SQL_NAMED_ENTITY_TYPES category_label = [\<lparr>ne_type = ''productCategory'', ne_table = ''production.productcategory'',
     ne_id_column = ''productcategoryid'', ne_name_column = ''name'', ne_id_field = ''productCategoryId'',
     ne_name_field = ''productCategoryName'', ne_aliases = [category_label]\<rparr>]"

definition list_resolvable_entity_types :: "string \<Rightarrow> (string, entity_node) dict \<Rightarrow> named_entity_type list" where
  "list_resolvable_entity_types category_label nodes = (let types = list_named_entity_types nodes in
     types @ filter (\<lambda>t. ne_type t \<notin> set (map ne_type types)) (SQL_NAMED_ENTITY_TYPES category_label))"

subsection \<open>Selecting literal names\<close>

record literal_match =
  lm_start :: nat
  lm_end :: nat
  lm_config :: named_entity_type
  lm_entity :: row

definition lm_span :: "literal_match \<Rightarrow> nat \<times> nat" where
  "lm_span m = (lm_start m, lm_end m)"

definition same_entity :: "row \<Rightarrow> row \<Rightarrow> bool" where
  "same_entity a b = py_eq (PDict a) (PDict b)"

definition same_identity :: "literal_match \<Rightarrow> literal_match \<Rightarrow> bool" where
  "same_identity l m \<longleftrightarrow> ne_type (lm_config l) = ne_type (lm_config m) \<and>
     list_all2 (\<lambda>x y. fst x = fst y \<and> py_eq (snd x) (snd y)) (lm_entity l) (lm_entity m)"

type_synonym span_group = "(nat \<times> nat) \<times> literal_match list"

definition add_match :: "literal_match \<Rightarrow> span_group list \<Rightarrow> span_group list" where
  "add_match m groups = AList.update (lm_span m) (dict_get groups (lm_span m) [] @ [m]) groups"

definition overlaps :: "nat \<times> nat \<Rightarrow> nat \<times> nat \<Rightarrow> bool" where
  "overlaps s t \<longleftrightarrow> fst s < snd t \<and> fst t < snd s"

fun pick_groups :: "span_group list \<Rightarrow> (nat \<times> nat) list \<Rightarrow> literal_match list \<Rightarrow> bool
    \<Rightarrow> (nat \<times> nat) list \<times> literal_match list \<times> bool" where
  "pick_groups [] occupied selected ambiguous = (occupied, selected, ambiguous)"
| "pick_groups ((sp, candidates) # groups) occupied selected ambiguous =
     (if list_ex (overlaps sp) occupied then pick_groups groups occupied selected ambiguous
      else if list_all (same_identity (hd candidates)) candidates
      then pick_groups groups (occupied @ [sp]) (selected @ [hd candidates]) ambiguous
      else pick_groups groups (occupied @ [sp]) selected True)"

definition group_key :: "span_group \<Rightarrow> int \<times> nat" where
  "group_key g = (int (fst (fst g)) - int (snd (fst g)), fst (fst g))"

definition unique_entities :: "literal_match list \<Rightarrow> literal_match list" where
  "unique_entities ms = fold (\<lambda>m acc. if list_ex (\<lambda>i. same_entity (lm_entity i) (lm_entity m)) acc then acc else acc @ [m]) ms []"

definition select_literal_entities :: "literal_match list \<Rightarrow> literal_match list \<times> bool" where
  "select_literal_entities matches =
     (case pick_groups (sort_key group_key (fold add_match matches [])) [] [] False of
        (occupied, selected, ambiguous) \<Rightarrow> (unique_entities (sort_key lm_start selected), ambiguous))"

subsubsection \<open>Groups\<close>

definition groups_ok :: "literal_match set \<Rightarrow> span_group list \<Rightarrow> bool" where
  "groups_ok M gs \<longleftrightarrow> (\<forall>(s, ms) \<in> set gs. ms \<noteq> [] \<and> (\<forall>m \<in> set ms. m \<in> M \<and> lm_span m = s))"

lemma groups_ok_add:
  assumes "groups_ok M gs" and "m \<in> M"
  shows "groups_ok M (add_match m gs)"
proof -
  have upd: "groups_ok M (AList.update (lm_span m) v gs)"
    if "v \<noteq> []" "\<forall>x \<in> set v. x \<in> M \<and> lm_span x = lm_span m" for v
    using assms(1) that
  proof (induction gs)
    case (Cons g gs)
    then show ?case by (cases g) (auto simp: groups_ok_def)
  qed (auto simp: groups_ok_def)
  have new: "\<forall>x \<in> set (dict_get gs (lm_span m) [] @ [m]). x \<in> M \<and> lm_span x = lm_span m"
  proof (cases "map_of gs (lm_span m)")
    case (Some ms)
    have "\<forall>x \<in> set ms. x \<in> M \<and> lm_span x = lm_span m"
      using bspec[OF assms(1)[unfolded groups_ok_def] map_of_SomeD[OF Some]] by simp
    with Some assms(2) show ?thesis by (simp add: dict_get_def ball_Un)
  qed (simp add: dict_get_def assms(2))
  show ?thesis unfolding add_match_def by (rule upd[OF _ new]) simp
qed

lemma add_match_spans: "fst ` set (add_match m gs) = insert (lm_span m) (fst ` set gs)"
  unfolding add_match_def by (rule update_key_set)

lemma groups_of_matches:
  "groups_ok M gs \<Longrightarrow> set ms \<subseteq> M \<Longrightarrow> groups_ok M (fold add_match ms gs) \<and>
     fst ` set (fold add_match ms gs) = fst ` set gs \<union> lm_span ` set ms"
  by (induction ms arbitrary: gs) (auto simp: groups_ok_add add_match_spans)

subsubsection \<open>Greedy selection\<close>

definition span_length :: "nat \<times> nat \<Rightarrow> int" where
  "span_length s = int (snd s) - int (fst s)"

definition apart :: "nat \<times> nat \<Rightarrow> nat \<times> nat \<Rightarrow> bool" where
  "apart s t \<longleftrightarrow> \<not> overlaps s t"

lemma overlaps_sym: "overlaps s t \<longleftrightarrow> overlaps t s"
  by (auto simp: overlaps_def)

lemma pick_groups_selected:
  assumes "pick_groups gs occ sel amb = (occ', sel', amb')" and "groups_ok M gs" and "set sel \<subseteq> M"
    and "sorted_wrt apart (map lm_span sel)" and "lm_span ` set sel \<subseteq> set occ"
  shows "set sel' \<subseteq> M \<and> sorted_wrt apart (map lm_span sel') \<and> lm_span ` set sel' \<subseteq> set occ'"
  using assms
proof (induction gs occ sel amb rule: pick_groups.induct)
  case (2 s ms gs occ sel amb)
  have ms: "ms \<noteq> []" "\<forall>m \<in> set ms. m \<in> M \<and> lm_span m = s" "groups_ok M gs"
    using 2(5) by (auto simp: groups_ok_def)
  then have h: "hd ms \<in> M" "lm_span (hd ms) = s" by auto
  show ?case
  proof (cases "list_ex (overlaps s) occ")
    case True
    with 2 ms(3) show ?thesis by simp
  next
    case False
    then have free: "\<forall>m \<in> set sel. apart (lm_span m) s"
      using 2(8) overlaps_sym[of s] by (auto simp: list_ex_iff apart_def)
    show ?thesis
    proof (cases "list_all (same_identity (hd ms)) ms")
      case True
      have "sorted_wrt apart (map lm_span (sel @ [hd ms]))"
        using 2(7) free h(2) by (auto simp: sorted_wrt_append)
      with 2(2)[OF False True] 2(4,6,8) False True ms(3) h show ?thesis by auto
    next
      case u: False
      with 2(3)[OF False u] 2(4,6-8) False ms(3) show ?thesis by auto
    qed
  qed
qed auto

lemma pick_groups_cover:
  assumes "pick_groups gs occ sel amb = (occ', sel', amb')" and "sorted_wrt (\<lambda>g h. span_length (fst h) \<le> span_length (fst g)) gs"
    and "\<forall>(s, ms) \<in> set gs. fst s < snd s" and "\<forall>oc \<in> set occ. \<forall>g \<in> set gs. span_length (fst g) \<le> span_length oc"
  shows "set occ \<subseteq> set occ' \<and> (\<forall>g \<in> set gs. \<exists>oc \<in> set occ'. overlaps (fst g) oc \<and> span_length (fst g) \<le> span_length oc)"
  using assms
proof (induction gs occ sel amb rule: pick_groups.induct)
  case (2 s ms gs occ sel amb)
  have rest: "sorted_wrt (\<lambda>g h. span_length (fst h) \<le> span_length (fst g)) gs" "\<forall>(s, ms) \<in> set gs. fst s < snd s"
    "\<forall>g \<in> set gs. span_length (fst g) \<le> span_length s" "overlaps s s"
    using 2(5,6) by (auto simp: overlaps_def)
  show ?case
  proof (cases "list_ex (overlaps s) occ")
    case True
    then obtain oc where oc: "oc \<in> set occ" "overlaps s oc" by (auto simp: list_ex_iff)
    have "span_length s \<le> span_length oc" using 2(7) oc(1) by fastforce
    moreover have ih: "set occ \<subseteq> set occ' \<and> (\<forall>g \<in> set gs. \<exists>oc \<in> set occ'. overlaps (fst g) oc \<and> span_length (fst g) \<le> span_length oc)"
      using 2(1)[OF True _ rest(1,2)] 2(4,7) True by simp
    ultimately show ?thesis using oc by auto
  next
    case False
    have next_occ: "\<forall>oc \<in> set (occ @ [s]). \<forall>g \<in> set gs. span_length (fst g) \<le> span_length oc"
      using 2(7) rest(3) by auto
    have "set (occ @ [s]) \<subseteq> set occ' \<and> (\<forall>g \<in> set gs. \<exists>oc \<in> set occ'. overlaps (fst g) oc \<and> span_length (fst g) \<le> span_length oc)"
    proof (cases "list_all (same_identity (hd ms)) ms")
      case True
      with 2(2)[OF False True _ rest(1,2) next_occ] 2(4) False show ?thesis by simp
    next
      case u: False
      with 2(3)[OF False u _ rest(1,2) next_occ] 2(4) False show ?thesis by simp
    qed
    then show ?thesis using rest(4) by auto
  qed
qed auto

lemma pick_groups_ambiguous: "pick_groups gs occ sel True = (occ', sel', amb') \<Longrightarrow> amb'"
  by (induction gs occ sel True rule: pick_groups.induct) (auto split: if_splits)

lemma pick_groups_unambiguous:
  assumes "pick_groups gs occ sel amb = (occ', sel', amb')" and "\<not> amb'" and "groups_ok M gs"
    and "set occ \<subseteq> lm_span ` set sel"
  shows "set occ' \<subseteq> lm_span ` set sel'"
  using assms
proof (induction gs occ sel amb rule: pick_groups.induct)
  case (2 s ms gs occ sel amb)
  have gs: "groups_ok M gs" and "ms \<noteq> []" "\<forall>m \<in> set ms. lm_span m = s" using 2(6) by (auto simp: groups_ok_def)
  then have h: "lm_span (hd ms) = s" by simp
  show ?case
  proof (cases "list_ex (overlaps s) occ")
    case True
    with 2(1)[OF True _ 2(5) gs 2(7)] 2(4) show ?thesis by simp
  next
    case False
    show ?thesis
    proof (cases "list_all (same_identity (hd ms)) ms")
      case True
      have "set (occ @ [s]) \<subseteq> lm_span ` set (sel @ [hd ms])" using 2(7) h by auto
      with 2(2)[OF False True _ 2(5) gs] 2(4) False True show ?thesis by simp
    next
      case u: False
      with 2(4,5) False pick_groups_ambiguous[of gs "occ @ [s]" sel occ' sel' amb'] show ?thesis by simp
    qed
  qed
qed auto

lemma unique_entities_gen:
  fixes ms :: "literal_match list"
  defines "step \<equiv> \<lambda>m acc. if list_ex (\<lambda>i. same_entity (lm_entity i) (lm_entity m)) acc then acc else acc @ [m]"
  shows "sorted_wrt R (acc @ ms) \<Longrightarrow> sorted_wrt (\<lambda>x y. \<not> same_entity (lm_entity x) (lm_entity y)) acc \<Longrightarrow>
     r = fold step ms acc \<Longrightarrow> sorted_wrt R r \<and> set acc \<subseteq> set r \<and> set r \<subseteq> set acc \<union> set ms \<and>
       sorted_wrt (\<lambda>x y. \<not> same_entity (lm_entity x) (lm_entity y)) r \<and>
       (\<forall>m \<in> set ms. \<exists>i \<in> set r. i = m \<or> same_entity (lm_entity i) (lm_entity m))"
proof (induction ms arbitrary: acc)
  case (Cons m ms)
  show ?case
  proof (cases "list_ex (\<lambda>i. same_entity (lm_entity i) (lm_entity m)) acc")
    case True
    then obtain i where i: "i \<in> set acc" "same_entity (lm_entity i) (lm_entity m)" by (auto simp: list_ex_iff)
    have "sorted_wrt R (acc @ ms)" using Cons.prems(1) by (auto simp: sorted_wrt_append)
    moreover have "r = fold step ms acc" using Cons.prems(3) True by (simp add: step_def)
    ultimately have "sorted_wrt R r \<and> set acc \<subseteq> set r \<and> set r \<subseteq> set acc \<union> set ms \<and>
       sorted_wrt (\<lambda>x y. \<not> same_entity (lm_entity x) (lm_entity y)) r \<and>
       (\<forall>m \<in> set ms. \<exists>i \<in> set r. i = m \<or> same_entity (lm_entity i) (lm_entity m))"
      by (rule Cons.IH[OF _ Cons.prems(2)])
    with i show ?thesis by auto
  next
    case False
    have "sorted_wrt R ((acc @ [m]) @ ms)" using Cons.prems(1) by simp
    moreover have "sorted_wrt (\<lambda>x y. \<not> same_entity (lm_entity x) (lm_entity y)) (acc @ [m])"
      using Cons.prems(2) False by (auto simp: sorted_wrt_append list_ex_iff)
    moreover have "r = fold step ms (acc @ [m])" using Cons.prems(3) False by (simp add: step_def)
    ultimately have "sorted_wrt R r \<and> set (acc @ [m]) \<subseteq> set r \<and> set r \<subseteq> set (acc @ [m]) \<union> set ms \<and>
       sorted_wrt (\<lambda>x y. \<not> same_entity (lm_entity x) (lm_entity y)) r \<and>
       (\<forall>m \<in> set ms. \<exists>i \<in> set r. i = m \<or> same_entity (lm_entity i) (lm_entity m))"
      by (rule Cons.IH)
    then show ?thesis by auto
  qed
qed simp

lemma unique_entities_facts:
  assumes "sorted_wrt R ms"
  shows "sorted_wrt R (unique_entities ms)" "set (unique_entities ms) \<subseteq> set ms"
    "sorted_wrt (\<lambda>x y. \<not> same_entity (lm_entity x) (lm_entity y)) (unique_entities ms)"
    "m \<in> set ms \<Longrightarrow> \<exists>i \<in> set (unique_entities ms). i = m \<or> same_entity (lm_entity i) (lm_entity m)"
  using unique_entities_gen[of R "[]" ms "unique_entities ms"] assms by (auto simp: unique_entities_def)

lemma apart_sorted:
  assumes "sorted_wrt apart (map lm_span sel)" and "\<forall>m \<in> set sel. lm_start m < lm_end m"
  shows "sorted_wrt (\<lambda>x y. lm_end x \<le> lm_start y) (sort_key lm_start sel)"
proof -
  let ?t = "sort_key lm_start sel"
  have sym: "apart a b \<Longrightarrow> apart b a" for a b using overlaps_sym by (simp add: apart_def)
  have "distinct sel \<and> (\<forall>x \<in> set sel. \<forall>y \<in> set sel. x \<noteq> y \<longrightarrow> apart (lm_span x) (lm_span y))"
    using assms
  proof (induction sel)
    case (Cons x sel)
    have "x \<notin> set sel" using Cons.prems by (auto simp: apart_def overlaps_def lm_span_def)
    then show ?case using Cons sym by auto
  qed simp
  then have t: "distinct ?t" "\<forall>x \<in> set ?t. \<forall>y \<in> set ?t. x \<noteq> y \<longrightarrow> apart (lm_span x) (lm_span y)" by auto
  show ?thesis
    unfolding sorted_wrt_iff_nth_less
  proof (intro allI impI)
    fix i j
    assume ij: "i < j" "j < length ?t"
    have mem: "?t ! i \<in> set ?t" "?t ! j \<in> set ?t" using ij by (simp_all del: set_sort)
    have "?t ! i \<noteq> ?t ! j" using t(1) ij nth_eq_iff_index_eq[OF t(1), of i j] by simp
    with t(2) mem have "apart (lm_span (?t ! i)) (lm_span (?t ! j))" by blast
    moreover have "lm_start (?t ! i) \<le> lm_start (?t ! j)"
      using sorted_nth_mono[OF sorted_sort_key, of i j lm_start sel] ij by simp
    moreover have "lm_start (?t ! i) < lm_end (?t ! i)" "lm_start (?t ! j) < lm_end (?t ! j)"
      using mem assms(2) by auto
    ultimately show "lm_end (?t ! i) \<le> lm_start (?t ! j)" by (auto simp: apart_def overlaps_def lm_span_def)
  qed
qed

lemma select_literal_facts:
  assumes "select_literal_entities matches = (sel, ambiguous)" and "\<forall>m \<in> set matches. lm_start m < lm_end m"
  shows "set sel \<subseteq> set matches" "sorted_wrt (\<lambda>x y. lm_end x \<le> lm_start y) sel"
    "sorted_wrt (\<lambda>x y. \<not> same_entity (lm_entity x) (lm_entity y)) sel"
    "\<not> ambiguous \<Longrightarrow> m \<in> set matches \<Longrightarrow> \<exists>k \<in> set matches. overlaps (lm_span m) (lm_span k) \<and>
       span_length (lm_span m) \<le> span_length (lm_span k) \<and>
       (\<exists>s \<in> set sel. s = k \<or> same_entity (lm_entity s) (lm_entity k))"
proof -
  let ?gs = "sort_key group_key (fold add_match matches [])"
  obtain occ s0 amb where pick: "pick_groups ?gs [] [] False = (occ, s0, amb)" by (metis prod_cases3)
  have sel: "sel = unique_entities (sort_key lm_start s0)" "ambiguous = amb"
    using assms(1) pick by (auto simp: select_literal_entities_def)
  have "groups_ok (set matches) []" by (simp add: groups_ok_def)
  from groups_of_matches[OF this order_refl]
  have gs: "groups_ok (set matches) ?gs" "fst ` set ?gs = lm_span ` set matches" by (auto simp: groups_ok_def)
  have s0: "set s0 \<subseteq> set matches" "sorted_wrt apart (map lm_span s0)"
    using pick_groups_selected[OF pick gs(1)] by auto
  have ends: "\<forall>m \<in> set s0. lm_start m < lm_end m" using s0(1) assms(2) by auto
  note u = unique_entities_facts[OF apart_sorted[OF s0(2) ends], folded sel(1)]
  show "set sel \<subseteq> set matches" using u(2) s0(1) by auto
  show "sorted_wrt (\<lambda>x y. lm_end x \<le> lm_start y) sel" by (rule u(1))
  show "sorted_wrt (\<lambda>x y. \<not> same_entity (lm_entity x) (lm_entity y)) sel" by (rule u(3))
  assume na: "\<not> ambiguous" and m: "m \<in> set matches"
  have desc: "sorted_wrt (\<lambda>g h. span_length (fst h) \<le> span_length (fst g)) ?gs"
  proof (rule sorted_wrt_mono_rel[of _ "\<lambda>g h. group_key g \<le> group_key h"])
    show "sorted_wrt (\<lambda>g h. group_key g \<le> group_key h) ?gs"
      using sorted_sort_key[of group_key "fold add_match matches []"] by (simp add: sorted_map)
  qed (auto simp: group_key_def span_length_def less_eq_prod_def)
  have pos: "\<forall>(s, ms) \<in> set ?gs. fst s < snd s"
  proof
    fix g
    assume "g \<in> set ?gs"
    then have "fst g \<in> lm_span ` set matches" using gs(2) by blast
    then show "case g of (s, ms) \<Rightarrow> fst s < snd s" using assms(2) by (auto simp: lm_span_def split: prod.splits)
  qed
  have "lm_span m \<in> fst ` set ?gs" using gs(2) m by blast
  then obtain g where g: "g \<in> set ?gs" "fst g = lm_span m" by (metis imageE)
  from pick_groups_cover[OF pick desc pos] g obtain oc where
    oc: "oc \<in> set occ" "overlaps (lm_span m) oc" "span_length (lm_span m) \<le> span_length oc" by fastforce
  have "set occ \<subseteq> lm_span ` set s0"
    using pick_groups_unambiguous[OF pick _ gs(1)] na sel(2) by simp
  then obtain k where k: "k \<in> set s0" "oc = lm_span k" using oc(1) by blast
  then have "\<exists>s \<in> set sel. s = k \<or> same_entity (lm_entity s) (lm_entity k)" using u(4)[of k] by simp
  with k oc(2,3) s0(1) show "\<exists>k \<in> set matches. overlaps (lm_span m) (lm_span k) \<and>
       span_length (lm_span m) \<le> span_length (lm_span k) \<and>
       (\<exists>s \<in> set sel. s = k \<or> same_entity (lm_entity s) (lm_entity k))" by blast
qed

subsection \<open>Properties\<close>

text \<open>C33: The spans that the code reports for a name are exactly the whole-character stretches of the question that
  equal the name up to case folding (a character that folds to two, as the German sharp s, is never cut) and
  neither begin nor stop inside an ASCII word.\<close>

theorem literal_spans_are_exact:
  "(a, b) \<in> set (literal_name_spans query name) \<longleftrightarrow> name \<noteq> [] \<and> a < b \<and> b \<le> length query \<and>
     casefold (take (b - a) (drop a query)) = casefold name \<and>
     \<not> (0 < a \<and> is_ascii_word_character (hd (casefold name)) \<and>
        is_ascii_word_character (last (casefold [query ! (a - 1)]))) \<and>
     \<not> (b < length query \<and> is_ascii_word_character (last (casefold name)) \<and>
        is_ascii_word_character (hd (casefold [query ! b])))"
  unfolding set_literal_name_spans stands_at_def fold_char_def by (rule refl)

text \<open>C32: The literal names selected from a question never overlap, stand in the order of the question, and name
  pairwise different entities.  When no span is ambiguous, every match overlaps (or is) a match at least as long
  whose entity was selected: a shorter name inside a longer one never displaces it.\<close>

theorem selected_literals_are_maximal:
  assumes "select_literal_entities matches = (sel, ambiguous)" and "\<forall>m \<in> set matches. lm_start m < lm_end m"
  shows "set sel \<subseteq> set matches \<and> sorted_wrt (\<lambda>x y. lm_end x \<le> lm_start y) sel \<and>
    sorted_wrt (\<lambda>x y. \<not> same_entity (lm_entity x) (lm_entity y)) sel \<and>
    (\<not> ambiguous \<longrightarrow> (\<forall>m \<in> set matches. \<exists>k \<in> set matches. overlaps (lm_span m) (lm_span k) \<and>
       span_length (lm_span m) \<le> span_length (lm_span k) \<and>
       (\<exists>s \<in> set sel. s = k \<or> same_entity (lm_entity s) (lm_entity k))))"
  using select_literal_facts[OF assms] by blast

definition example_type :: named_entity_type where
  "example_type = \<lparr>ne_type = ''product'', ne_table = ''a.b'', ne_id_column = ''id'', ne_name_column = ''name'',
     ne_id_field = ''productId'', ne_name_field = ''productName'', ne_aliases = []\<rparr>"

definition example_matches :: "literal_match list" where
  "example_matches = [\<lparr>lm_start = 1, lm_end = 4, lm_config = example_type, lm_entity = [(''productId'', PInt 1)]\<rparr>,
     \<lparr>lm_start = 0, lm_end = 7, lm_config = example_type, lm_entity = [(''productId'', PInt 2)]\<rparr>,
     \<lparr>lm_start = 9, lm_end = 12, lm_config = example_type, lm_entity = [(''productId'', PInt 1)]\<rparr>]"

theorem selected_literals_are_maximal_witness:
  "select_literal_entities example_matches = (drop 1 example_matches, False) \<and>
   sorted_wrt (\<lambda>x y. lm_end x \<le> lm_start y) (drop 1 example_matches)"
proof -
  have e: "select_literal_entities example_matches = (drop 1 example_matches, False)" by code_simp
  have "\<forall>m \<in> set example_matches. lm_start m < lm_end m" by (simp add: example_matches_def)
  from selected_literals_are_maximal[OF e this] e show ?thesis by blast
qed

end
