(* ===== verification/Resolve_Entity.thy ===== *)
theory Resolve_Entity
  imports Entity_Names Query_Failures
begin

text \<open>
  The entity resolver (\<open>orchestrator/nodes/resolve_entity.py\<close>).  The answer of the language model (its tool calls, with
  the arguments as \<open>json.loads\<close> reads them, \<open>None\<close> when it raises) and the three database queries are arguments.
  Queries that the code gathers concurrently are made in list order; when several of them raise, which exception
  is reported depends on the schedule.
\<close>

subsection \<open>The environment\<close>

record tool_call =
  tc_name :: string
  tc_arguments :: "pyval option"

record resolve_env =
  rv_extract :: "string \<Rightarrow> py_exception + tool_call list"
  rv_by_names :: "named_entity_type \<Rightarrow> string list \<Rightarrow> py_exception + (pyval \<times> pyval) list"
  rv_similar :: "named_entity_type \<Rightarrow> string \<Rightarrow> py_exception + (pyval \<times> pyval \<times> pyval) list"
  rv_exists :: "named_entity_type \<Rightarrow> pyval \<Rightarrow> pyval \<Rightarrow> py_exception + bool"

record similar_candidate =
  cd_id :: pyval
  cd_name :: pyval
  cd_type :: string
  cd_score :: pyval
  cd_entity :: row

datatype resolve_error =
    EntityExtractionError
  | EntityAmbiguousError "similar_candidate list" string
  | EntityNotFoundError string
  | Raised py_exception

definition raised :: "py_exception + 'a \<Rightarrow> resolve_error + 'a" where
  "raised r = (case r of Inl e \<Rightarrow> Inl (Raised e) | Inr x \<Rightarrow> Inr x)"

definition entity_of :: "named_entity_type \<Rightarrow> pyval \<Rightarrow> pyval \<Rightarrow> row" where
  "entity_of config ident name = AList.update (ne_name_field config) name [(ne_id_field config, ident)]"

subsection \<open>Settings\<close>

record entity_resolution_settings =
  similarity_threshold :: rat
  candidate_limit :: int

datatype settings_error = ThresholdNotNumber | LimitNotInteger | ThresholdRange | LimitRange

text \<open>The environment values as \<open>float\<close> and \<open>int\<close> read them, \<open>None\<close> when they raise; a NaN fails the range check.\<close>

definition load_entity_resolution_settings :: "xnum option \<Rightarrow> int option \<Rightarrow> settings_error + entity_resolution_settings" where
  "load_entity_resolution_settings threshold limit = (case threshold of
     None \<Rightarrow> Inl ThresholdNotNumber
   | Some x \<Rightarrow> (case limit of
       None \<Rightarrow> Inl LimitNotInteger
     | Some n \<Rightarrow> (case x of
         XNum t \<Rightarrow> if \<not> (0 \<le> t \<and> t \<le> 1) then Inl ThresholdRange
           else if \<not> (1 \<le> n \<and> n \<le> 100) then Inl LimitRange
           else Inr \<lparr>similarity_threshold = t, candidate_limit = n\<rparr>
       | _ \<Rightarrow> Inl ThresholdRange)))"

subsection \<open>Extraction\<close>

definition same_keys :: "row \<Rightarrow> string list \<Rightarrow> bool" where
  "same_keys d ks \<longleftrightarrow> set (dict_keys d) = set ks"

definition extract_item :: "string list \<Rightarrow> pyval \<Rightarrow> (string \<times> string) list \<Rightarrow> resolve_error + (string \<times> string) list" where
  "extract_item allowed_types item acc = (case item of
     PDict d \<Rightarrow> if \<not> same_keys d [''entityType'', ''entityName''] then Inl EntityExtractionError
       else (case (map_of d ''entityType'', map_of d ''entityName'') of
           (Some (PStr t), Some (PStr n)) \<Rightarrow>
             if t \<notin> set allowed_types \<or> blank n then Inl EntityExtractionError
             else Inr (if (t, strip n) \<in> set acc then acc else acc @ [(t, strip n)])
         | _ \<Rightarrow> Inl EntityExtractionError)
   | _ \<Rightarrow> Inl EntityExtractionError)"

definition extract_call :: "string list \<Rightarrow> tool_call \<Rightarrow> (string \<times> string) list \<Rightarrow> resolve_error + (string \<times> string) list" where
  "extract_call allowed_types tc acc =
     (if tc_name tc \<noteq> ''extract_entities'' then Inl EntityExtractionError
      else (case tc_arguments tc of
          Some (PDict d) \<Rightarrow> if \<not> same_keys d [''entities''] then Inl EntityExtractionError
            else (case map_of d ''entities'' of
                Some (PList items) \<Rightarrow> rfold (extract_item allowed_types) items acc
              | _ \<Rightarrow> Inl EntityExtractionError)
        | _ \<Rightarrow> Inl EntityExtractionError))"

definition extract_entities :: "string list \<Rightarrow> tool_call list \<Rightarrow> resolve_error + (string \<times> string) list" where
  "extract_entities allowed_types calls = rfold (extract_call allowed_types) calls []"

definition entity_type_config :: "string \<Rightarrow> named_entity_type list \<Rightarrow> resolve_error + named_entity_type" where
  "entity_type_config t types = (case find (\<lambda>c. ne_type c = t) types of
     Some c \<Rightarrow> Inr c | None \<Rightarrow> Inl EntityExtractionError)"

subsection \<open>Lookups\<close>

type_synonym lookup = "string \<times> string \<times> named_entity_type"

definition type_alias_labels :: "named_entity_type list \<Rightarrow> string list list \<Rightarrow> string list" where
  "type_alias_labels types node_aliases =
     map normalized_term (concat (map (\<lambda>t. ne_type t # ne_aliases t) types @ node_aliases))"

definition is_exact_type_alias :: "string \<Rightarrow> string list \<Rightarrow> bool" where
  "is_exact_type_alias name type_aliases \<longleftrightarrow> normalized_term name \<in> set type_aliases"

definition ends_with :: "string \<Rightarrow> string \<Rightarrow> bool" where
  "ends_with suf s \<longleftrightarrow> length suf \<le> length s \<and> drop (length s - length suf) s = suf"

fun strip_alias :: "string \<Rightarrow> string list \<Rightarrow> string" where
  "strip_alias normalized [] = normalized"
| "strip_alias normalized (a # as) =
     (if take (length (casefold a) + 1) (casefold normalized) = casefold a @ '' '' then strip (drop (length a) normalized)
      else if ends_with ('' '' @ casefold a) (casefold normalized)
      then strip (if a = [] then [] else take (length normalized - length a) normalized)
      else strip_alias normalized as)"

definition strip_edge_type_alias :: "string \<Rightarrow> named_entity_type \<Rightarrow> string" where
  "strip_edge_type_alias name config =
     strip_alias (strip name) (sort_key (\<lambda>a. - int (length a)) (ne_aliases config @ [ne_type config]))"

definition is_digits :: "string \<Rightarrow> bool" where
  "is_digits s \<longleftrightarrow> s \<noteq> [] \<and> list_all (\<lambda>c. is_digit c \<or> code c \<in> {178, 179, 185}) s"

definition add_lookup :: "named_entity_type list \<Rightarrow> string list \<Rightarrow> string \<times> string \<Rightarrow> lookup list \<Rightarrow> resolve_error + lookup list" where
  "add_lookup types type_aliases x acc = (case x of (t, extracted_name) \<Rightarrow>
     rbind (entity_type_config t types) (\<lambda>config.
       if is_exact_type_alias extracted_name type_aliases then Inr acc
       else let name = strip_edge_type_alias extracted_name config in
         if name = [] \<or> is_exact_type_alias name type_aliases \<or> is_digits name then Inr acc
         else Inr (acc @ [(t, name, config)])))"

subsection \<open>Database\<close>

type_synonym by_name = "(string, row list) dict"

definition add_row :: "named_entity_type \<Rightarrow> pyval \<times> pyval \<Rightarrow> by_name \<Rightarrow> by_name" where
  "add_row config r acc = (case r of
     (ident, PStr name) \<Rightarrow> AList.update name (dict_get acc name [] @ [entity_of config ident (PStr name)]) acc
   | _ \<Rightarrow> acc)"

definition find_entities_by_names :: "resolve_env \<Rightarrow> named_entity_type \<Rightarrow> string list \<Rightarrow> resolve_error + by_name" where
  "find_entities_by_names env config names = (if names = [] then Inr []
     else rbind (raised (rv_by_names env config names)) (\<lambda>rows. Inr (fold (add_row config) rows [])))"

definition literal_matches :: "string \<Rightarrow> string list \<Rightarrow> named_entity_type \<Rightarrow> by_name \<Rightarrow> literal_match list" where
  "literal_matches query candidates config groups = concat (map (\<lambda>(name, entities).
     if name \<notin> set candidates then []
     else concat (map (\<lambda>e. map (\<lambda>(a, b). \<lparr>lm_start = a, lm_end = b, lm_config = config, lm_entity = e\<rparr>)
       (literal_name_spans query name)) entities)) groups)"

definition find_similar_entities :: "resolve_env \<Rightarrow> named_entity_type \<Rightarrow> string \<Rightarrow> resolve_error + similar_candidate list" where
  "find_similar_entities env config name = (case rv_similar env config name of
     Inl e \<Rightarrow> if exc_instance e [''UndefinedFunction''] then Inr [] else Inl (Raised e)
   | Inr rows \<Rightarrow> Inr (map (\<lambda>(ident, n, score). \<lparr>cd_id = ident, cd_name = n, cd_type = ne_type config, cd_score = score,
       cd_entity = entity_of config ident n\<rparr>) rows))"

definition lookup_is_inside_selected_literal :: "string \<Rightarrow> string \<Rightarrow> string \<Rightarrow> literal_match list \<Rightarrow> bool" where
  "lookup_is_inside_selected_literal query t name selected =
     (let containers = map lm_span (filter (\<lambda>m. ne_type (lm_config m) = t) selected) in
      if containers = [] then False
      else let spans = literal_name_spans query name;
        spans = (if spans = [] then normalized_name_spans query name False else spans);
        spans = (if spans = [] then normalized_name_spans query name True else spans) in
        spans \<noteq> [] \<and> list_all (\<lambda>(a, b). list_ex (\<lambda>(ca, cb). ca \<le> a \<and> b \<le> cb) containers) spans)"

subsection \<open>Confirmed entities\<close>

record confirmed_entity =
  ce_entity :: row
  ce_for_name :: string
  ce_config :: named_entity_type

definition confirmed_entity_config :: "pyval \<Rightarrow> named_entity_type list \<Rightarrow> named_entity_type option" where
  "confirmed_entity_config v types = (case v of
     PDict d \<Rightarrow> find (\<lambda>c. same_keys d [ne_id_field c, ne_name_field c] \<and>
       (case (map_of d (ne_id_field c), map_of d (ne_name_field c)) of
          (Some (PInt _), Some (PStr n)) \<Rightarrow> n \<noteq> [] | _ \<Rightarrow> False)) types
   | _ \<Rightarrow> None)"

fun normalize_confirmed_entities :: "pyval \<Rightarrow> row list" where
  "normalize_confirmed_entities (PDict d) = [d]"
| "normalize_confirmed_entities (PList vs) = somes (map (\<lambda>v. case v of PDict d \<Rightarrow> Some d | _ \<Rightarrow> None) vs)"
| "normalize_confirmed_entities _ = []"

definition parse_confirmed_entity :: "row \<Rightarrow> named_entity_type list \<Rightarrow> confirmed_entity option" where
  "parse_confirmed_entity raw types = (if \<not> same_keys raw [''entity'', ''forName''] then None
     else (case (map_of raw ''forName'', map_of raw ''entity'') of
         (Some (PStr n), Some (PDict d)) \<Rightarrow> if n = [] then None
           else map_option (\<lambda>c. \<lparr>ce_entity = d, ce_for_name = n, ce_config = c\<rparr>) (confirmed_entity_config (PDict d) types)
       | _ \<Rightarrow> None))"

definition confirmed_entity_exists :: "resolve_env \<Rightarrow> confirmed_entity \<Rightarrow> resolve_error + bool" where
  "confirmed_entity_exists env c = raised (rv_exists env (ce_config c)
     (dict_get (ce_entity c) (ne_id_field (ce_config c)) PNone) (dict_get (ce_entity c) (ne_name_field (ce_config c)) PNone))"

definition add_confirmed :: "resolve_env \<Rightarrow> named_entity_type list \<Rightarrow> row \<Rightarrow> confirmed_entity list
    \<Rightarrow> resolve_error + confirmed_entity list" where
  "add_confirmed env types raw acc = (case parse_confirmed_entity raw types of
     None \<Rightarrow> Inr acc
   | Some c \<Rightarrow> rbind (confirmed_entity_exists env c) (\<lambda>found.
       Inr (if found \<and> \<not> list_ex (\<lambda>k. same_entity (ce_entity k) (ce_entity c)) acc then acc @ [c] else acc)))"

definition confirmed_entity_covers_lookup :: "confirmed_entity list \<Rightarrow> string \<Rightarrow> string \<Rightarrow> bool" where
  "confirmed_entity_covers_lookup valid t name = list_ex (\<lambda>c. ce_for_name c = name \<and> ne_type (ce_config c) = t) valid"

subsection \<open>The node\<close>

definition append_unique :: "row list \<Rightarrow> row list \<Rightarrow> row list" where
  "append_unique target values = fold (\<lambda>v acc. if list_ex (\<lambda>x. same_entity v x) acc then acc else acc @ [v]) values target"

definition entity_name :: "row \<Rightarrow> string" where
  "entity_name e = (case find (\<lambda>(k, v). ends_with ''Name'' k \<and> is_str v) e of
     None \<Rightarrow> [] | Some (k, v) \<Rightarrow> str_of v)"

definition question_position :: "string \<Rightarrow> nat \<times> row \<Rightarrow> nat \<times> nat" where
  "question_position query x = (case x of (index, e) \<Rightarrow>
     let name = entity_name e;
       found = (if name = [] then [] else occurrences 0 (casefold name) (casefold query)) in
     (if found = [] then length query + index else hd found, index))"

definition sort_entities_by_question :: "string \<Rightarrow> row list \<Rightarrow> row list" where
  "sort_entities_by_question query entities = map snd (sort_key (question_position query) (enumerate 0 entities))"

definition collapse_entities :: "row list \<Rightarrow> pyval" where
  "collapse_entities es = (case es of [] \<Rightarrow> PNone | [e] \<Rightarrow> PDict e | _ \<Rightarrow> PList (map PDict es))"

definition names_for :: "string list \<Rightarrow> lookup list \<Rightarrow> named_entity_type \<Rightarrow> string list" where
  "names_for literal_names lookups config = fromkeys (literal_names @
     map (\<lambda>(_, name, _). name) (filter (\<lambda>(_, _, c). ne_type c = ne_type config) lookups))"

definition find_groups :: "resolve_env \<Rightarrow> string list \<Rightarrow> lookup list \<Rightarrow> named_entity_type list
    \<Rightarrow> resolve_error + (named_entity_type \<times> by_name) list" where
  "find_groups env literal_names lookups types = rmap (\<lambda>c.
     rbind (find_entities_by_names env c (names_for literal_names lookups c)) (\<lambda>g. Inr (c, g)))
     (filter (\<lambda>c. names_for literal_names lookups c \<noteq> []) types)"

definition groups_by_type :: "(named_entity_type \<times> by_name) list \<Rightarrow> (string, by_name) dict" where
  "groups_by_type groups = fold (\<lambda>(c, g) acc. AList.update (ne_type c) g acc) groups []"

definition all_literal_matches :: "string \<Rightarrow> string list \<Rightarrow> (named_entity_type \<times> by_name) list \<Rightarrow> literal_match list" where
  "all_literal_matches query literal_names groups = concat (map (\<lambda>(c, g).
     literal_matches query literal_names c (dict_get (groups_by_type groups) (ne_type c) [])) groups)"

definition exact_result :: "(named_entity_type \<times> by_name) list \<Rightarrow> lookup \<Rightarrow> row option" where
  "exact_result groups l = (case l of (t, name, config) \<Rightarrow>
     (case dict_get (dict_get (groups_by_type groups) (ne_type config) []) name [] of [] \<Rightarrow> None | e # _ \<Rightarrow> Some e))"

text \<open>The first missing lookup that no confirmed entity answers decides the error.\<close>

fun judge_missing :: "confirmed_entity list \<Rightarrow> (lookup \<times> similar_candidate list) list \<Rightarrow> resolve_error + unit" where
  "judge_missing valid [] = Inr ()"
| "judge_missing valid (((t, name, config), candidates) # rest) =
     (if confirmed_entity_covers_lookup valid t name then judge_missing valid rest
      else if candidates \<noteq> [] then Inl (EntityAmbiguousError candidates name)
      else Inl (EntityNotFoundError name))"

definition finish_resolution :: "resolve_env \<Rightarrow> string \<Rightarrow> confirmed_entity list \<Rightarrow> (named_entity_type \<times> by_name) list
    \<Rightarrow> literal_match list \<Rightarrow> lookup list \<Rightarrow> resolve_error + pyval" where
  "finish_resolution env query valid groups selected lookups =
     (if lookups = [] \<and> selected = [] then Inr (collapse_entities (map ce_entity valid))
      else let missing = filter (\<lambda>l. exact_result groups l = None) lookups in
        rbind (rmap (\<lambda>l. case l of (t, name, config) \<Rightarrow>
          rbind (find_similar_entities env config name) (\<lambda>cs. Inr (l, cs))) missing) (\<lambda>judged.
        rbind (judge_missing valid judged) (\<lambda>_.
          let discovered = append_unique (append_unique [] (somes (map (exact_result groups) lookups)))
            (map lm_entity selected) in
          Inr (collapse_entities (append_unique (map ce_entity valid) (sort_entities_by_question query discovered))))))"

definition resolve_lookups :: "resolve_env \<Rightarrow> named_entity_type list \<Rightarrow> string list \<Rightarrow> string \<Rightarrow> confirmed_entity list
    \<Rightarrow> lookup list \<Rightarrow> resolve_error + pyval" where
  "resolve_lookups env types type_aliases query valid lookups =
     (let literal_names = filter (\<lambda>n. \<not> is_exact_type_alias n type_aliases) (literal_name_candidates query) in
      rbind (find_groups env literal_names lookups types) (\<lambda>groups.
        let selected = fst (select_literal_entities (all_literal_matches query literal_names groups)) in
        finish_resolution env query valid groups selected
          (filter (\<lambda>(t, name, _). \<not> lookup_is_inside_selected_literal query t name selected) lookups)))"

definition resolve_entity :: "resolve_env \<Rightarrow> named_entity_type list \<Rightarrow> string list list \<Rightarrow> string \<Rightarrow> pyval \<Rightarrow> resolve_error + pyval" where
  "resolve_entity env types node_aliases query confirmed =
     (let type_aliases = type_alias_labels types node_aliases in
      rbind (rfold (add_confirmed env types) (normalize_confirmed_entities confirmed) []) (\<lambda>valid.
      rbind (raised (rv_extract env query)) (\<lambda>calls.
      rbind (extract_entities (map ne_type types) calls) (\<lambda>extractions.
      rbind (rfold (add_lookup types type_aliases) extractions []) (\<lambda>lookups.
        resolve_lookups env types type_aliases query valid lookups)))))"

subsection \<open>Where resolved entities come from\<close>

definition from_database :: "resolve_env \<Rightarrow> named_entity_type list \<Rightarrow> row \<Rightarrow> bool" where
  "from_database env types e \<longleftrightarrow> (\<exists>config names rows ident name. config \<in> set types \<and>
     rv_by_names env config names = Inr rows \<and> (ident, PStr name) \<in> set rows \<and> e = entity_of config ident (PStr name))"

definition from_confirmation :: "resolve_env \<Rightarrow> named_entity_type list \<Rightarrow> pyval \<Rightarrow> confirmed_entity \<Rightarrow> bool" where
  "from_confirmation env types confirmed c \<longleftrightarrow> (\<exists>raw \<in> set (normalize_confirmed_entities confirmed).
     parse_confirmed_entity raw types = Some c) \<and> confirmed_entity_exists env c = Inr True"

fun entities_in :: "pyval \<Rightarrow> row list" where
  "entities_in (PDict e) = [e]"
| "entities_in (PList vs) = somes (map (\<lambda>v. case v of PDict d \<Rightarrow> Some d | _ \<Rightarrow> None) vs)"
| "entities_in _ = []"

lemma somes_map_Some [simp]: "somes (map (\<lambda>x. Some (f x)) xs) = map f xs"
  by (induction xs) auto

lemma entities_in_collapse [simp]: "entities_in (collapse_entities es) = es"
  by (auto simp: collapse_entities_def comp_def split: list.splits)

lemma set_append_unique: "set (append_unique target vs) \<subseteq> set target \<union> set vs"
proof -
  have "set (fold (\<lambda>v acc. if list_ex (same_entity v) acc then acc else acc @ [v]) vs target) \<subseteq> set target \<union> set vs" for target
  proof (induction vs arbitrary: target)
    case (Cons v vs)
    show ?case using Cons.IH[of target] Cons.IH[of "target @ [v]"] by (cases "list_ex (same_entity v) target") auto
  qed simp
  then show ?thesis by (simp add: append_unique_def)
qed

lemma dict_get_member: "x \<in> set (dict_get d k []) \<Longrightarrow> \<exists>v. (k, v) \<in> set d \<and> x \<in> set v"
  by (cases "map_of d k") (auto simp: dict_get_def dest: map_of_SomeD)

lemma set_sort_entities: "set (sort_entities_by_question query es) = set es"
proof -
  have "snd ` set (enumerate 0 es) = set es" by (simp only: set_map[symmetric] map_snd_enumerate)
  then show ?thesis by (simp add: sort_entities_by_question_def)
qed

lemma by_name_rows:
  "(\<forall>g \<in> set acc. \<forall>e \<in> set (snd g). P e) \<Longrightarrow> (\<forall>ident name. (ident, PStr name) \<in> set rows \<longrightarrow> P (entity_of config ident (PStr name))) \<Longrightarrow>
     \<forall>g \<in> set (fold (add_row config) rows acc). \<forall>e \<in> set (snd g). P e"
proof (induction rows arbitrary: acc)
  case (Cons r rows)
  have upd: "\<forall>g \<in> set (AList.update k v acc). \<forall>e \<in> set (snd g). P e" if "\<forall>e \<in> set v. P e" for k v
    using Cons.prems(1) that by (induction acc) auto
  have get: "\<forall>e \<in> set (dict_get acc k []). P e" for k
    using Cons.prems(1) dict_get_member[of _ acc k] by fastforce
  have "\<forall>g \<in> set (add_row config r acc). \<forall>e \<in> set (snd g). P e"
  proof (cases r)
    case (Pair ident v)
    show ?thesis
    proof (cases v)
      case (PStr name)
      then have "P (entity_of config ident (PStr name))" using Cons.prems(2) Pair by simp
      with get have "\<forall>e \<in> set (dict_get acc name [] @ [entity_of config ident (PStr name)]). P e" by simp
      from upd[OF this] show ?thesis by (simp add: add_row_def PStr Pair)
    qed (use Cons.prems(1) Pair in \<open>simp_all add: add_row_def\<close>)
  qed
  from Cons.IH[OF this] Cons.prems(2) show ?case by simp
qed simp

lemma find_entities_from_database:
  assumes "find_entities_by_names env config names = Inr g" and "config \<in> set types" and "x \<in> set g" and "e \<in> set (snd x)"
  shows "from_database env types e"
proof (cases "names = []")
  case True
  with assms show ?thesis by (simp add: find_entities_by_names_def)
next
  case False
  with assms(1) obtain rows where rows: "rv_by_names env config names = Inr rows" "g = fold (add_row config) rows []"
    by (auto simp: find_entities_by_names_def raised_def rbind_Inr_iff split: sum.splits)
  have "\<forall>g \<in> set (fold (add_row config) rows []). \<forall>e \<in> set (snd g). from_database env types e"
    by (rule by_name_rows) (use rows(1) assms(2) in \<open>auto simp: from_database_def, blast\<close>)
  with rows(2) assms(3,4) show ?thesis by blast
qed

definition groups_from_database :: "resolve_env \<Rightarrow> named_entity_type list \<Rightarrow> (named_entity_type \<times> by_name) list \<Rightarrow> bool" where
  "groups_from_database env types groups \<longleftrightarrow>
     (\<forall>p \<in> set groups. \<forall>x \<in> set (snd p). \<forall>e \<in> set (snd x). from_database env types e)"

lemma rmap_set: "rmap f xs = Inr ys \<Longrightarrow> y \<in> set ys \<Longrightarrow> \<exists>x \<in> set xs. f x = Inr y"
  by (induction xs arbitrary: ys) (auto simp: rbind_Inr_iff)

lemma find_groups_from_database:
  assumes "find_groups env literal_names lookups types = Inr groups"
  shows "groups_from_database env types groups"
  unfolding groups_from_database_def
proof (intro ballI)
  fix p x e
  assume p: "p \<in> set groups" "x \<in> set (snd p)" "e \<in> set (snd x)"
  from rmap_set[OF assms[unfolded find_groups_def] p(1)] obtain c where "c \<in> set types"
    "find_entities_by_names env c (names_for literal_names lookups c) = Inr (snd p)"
    by (auto simp: rbind_Inr_iff)
  from find_entities_from_database[OF this(2,1) p(2,3)] show "from_database env types e" .
qed

lemma groups_by_type_set:
  "(k, g) \<in> set (groups_by_type groups) \<Longrightarrow> \<exists>c. (c, g) \<in> set groups"
proof -
  have upd: "(k, g) \<in> set (AList.update k' g' acc) \<Longrightarrow> (k, g) \<in> set acc \<or> g = g'" for k' g' acc
    by (induction acc) (auto split: if_splits)
  have "(k, g) \<in> set (fold (\<lambda>(c, g) acc. AList.update (ne_type c) g acc) groups acc) \<Longrightarrow>
      (k, g) \<in> set acc \<or> (\<exists>c. (c, g) \<in> set groups)" for acc
  proof (induction groups arbitrary: acc)
    case (Cons x groups)
    then show ?case using upd by (cases x) fastforce
  qed simp
  from this[of "[]"] show "(k, g) \<in> set (groups_by_type groups) \<Longrightarrow> \<exists>c. (c, g) \<in> set groups"
    by (simp add: groups_by_type_def)
qed

lemma group_entities:
  assumes "groups_from_database env types groups" and "x \<in> set (dict_get (groups_by_type groups) t [])" and "e \<in> set (snd x)"
  shows "from_database env types e"
proof -
  from assms(2) obtain g where "(t, g) \<in> set (groups_by_type groups)" "x \<in> set g"
    using dict_get_member[OF assms(2)] by blast
  with groups_by_type_set assms(1,3) show ?thesis unfolding groups_from_database_def by fastforce
qed

lemma exact_from_database:
  assumes "groups_from_database env types groups" and "exact_result groups l = Some e"
  shows "from_database env types e"
proof -
  obtain t name config where l: "l = (t, name, config)" by (metis prod_cases3)
  let ?g = "dict_get (groups_by_type groups) (ne_type config) []"
  from assms(2) have "e \<in> set (dict_get ?g name [])"
    by (cases "dict_get ?g name []") (auto simp: exact_result_def l)
  from dict_get_member[OF this] obtain es where "(name, es) \<in> set ?g" "e \<in> set es" by blast
  from group_entities[OF assms(1) this(1)] this(2) show ?thesis by simp
qed

lemma literal_from_database:
  assumes "groups_from_database env types groups" and "m \<in> set (all_literal_matches query names groups)"
  shows "from_database env types (lm_entity m)" "lm_start m < lm_end m"
proof -
  from assms(2) obtain c g where "m \<in> set (literal_matches query names c (dict_get (groups_by_type groups) (ne_type c) []))"
    by (auto simp: all_literal_matches_def)
  then obtain name es a b where m:
    "(name, es) \<in> set (dict_get (groups_by_type groups) (ne_type c) [])" "lm_entity m \<in> set es"
    "(a, b) \<in> set (literal_name_spans query name)" "lm_start m = a" "lm_end m = b"
    unfolding literal_matches_def by (fastforce split: if_splits)
  from group_entities[OF assms(1) m(1)] m(2) show "from_database env types (lm_entity m)" by simp
  from m(3-5) show "lm_start m < lm_end m" by (simp add: set_literal_name_spans stands_at_def)
qed

lemma confirmed_from_confirmation:
  assumes "rfold (add_confirmed env types) (normalize_confirmed_entities confirmed) [] = Inr valid"
  shows "\<forall>c \<in> set valid. from_confirmation env types confirmed c"
  using assms
proof (rule rfold_invariant)
  fix raw acc acc'
  assume raw: "raw \<in> set (normalize_confirmed_entities confirmed)"
    and inv: "\<forall>c \<in> set acc. from_confirmation env types confirmed c" and step: "add_confirmed env types raw acc = Inr acc'"
  show "\<forall>c \<in> set acc'. from_confirmation env types confirmed c"
  proof (cases "parse_confirmed_entity raw types")
    case (Some c)
    with step obtain found where found: "confirmed_entity_exists env c = Inr found"
      "acc' = (if found \<and> \<not> list_ex (\<lambda>k. same_entity (ce_entity k) (ce_entity c)) acc then acc @ [c] else acc)"
      by (auto simp: add_confirmed_def rbind_Inr_iff)
    have "from_confirmation env types confirmed c" if found
      using raw Some found(1) that by (auto simp: from_confirmation_def)
    with inv found(2) show ?thesis by (auto split: if_splits)
  qed (use inv step in \<open>simp add: add_confirmed_def\<close>)
qed simp

lemma finish_entities:
  assumes "finish_resolution env query valid groups selected lookups = Inr v" and "groups_from_database env types groups"
    and "\<forall>m \<in> set selected. from_database env types (lm_entity m)" and "e \<in> set (entities_in v)"
  shows "from_database env types e \<or> e \<in> ce_entity ` set valid"
proof (cases "lookups = [] \<and> selected = []")
  case True
  with assms(1,4) show ?thesis by (auto simp: finish_resolution_def)
next
  case False
  let ?d = "append_unique (append_unique [] (somes (map (exact_result groups) lookups))) (map lm_entity selected)"
  from assms(1) False have "v = collapse_entities (append_unique (map ce_entity valid) (sort_entities_by_question query ?d))"
    by (auto simp: finish_resolution_def Let_def rbind_Inr_iff)
  with assms(4) have "e \<in> set (append_unique (map ce_entity valid) (sort_entities_by_question query ?d))" by simp
  then have "e \<in> ce_entity ` set valid \<or> e \<in> set ?d"
    using set_append_unique[of "map ce_entity valid" "sort_entities_by_question query ?d"]
    by (auto simp: set_sort_entities)
  moreover have "e \<in> lm_entity ` set selected \<or> e \<in> set (somes (map (exact_result groups) lookups))" if "e \<in> set ?d"
    using that set_append_unique[of "append_unique [] (somes (map (exact_result groups) lookups))" "map lm_entity selected"]
      set_append_unique[of "[]" "somes (map (exact_result groups) lookups)"] by auto
  ultimately show ?thesis
    using assms(3) exact_from_database[OF assms(2)] by (auto simp: set_somes)
qed

lemma resolve_entity_sources:
  assumes "resolve_entity env types node_aliases query confirmed = Inr v" and "e \<in> set (entities_in v)"
  shows "from_database env types e \<or> (\<exists>c. from_confirmation env types confirmed c \<and> ce_entity c = e)"
proof -
  let ?ta = "type_alias_labels types node_aliases"
  let ?ln = "filter (\<lambda>n. \<not> is_exact_type_alias n ?ta) (literal_name_candidates query)"
  from assms(1) obtain valid lookups where
    valid: "rfold (add_confirmed env types) (normalize_confirmed_entities confirmed) [] = Inr valid"
    and res: "resolve_lookups env types ?ta query valid lookups = Inr v"
    by (auto simp: resolve_entity_def Let_def rbind_Inr_iff)
  from res obtain groups where groups: "find_groups env ?ln lookups types = Inr groups"
    and fin: "finish_resolution env query valid groups
        (fst (select_literal_entities (all_literal_matches query ?ln groups)))
        (filter (\<lambda>(t, name, _). \<not> lookup_is_inside_selected_literal query t name
          (fst (select_literal_entities (all_literal_matches query ?ln groups)))) lookups) = Inr v"
    by (auto simp: resolve_lookups_def Let_def rbind_Inr_iff)
  let ?m = "all_literal_matches query ?ln groups"
  note db = find_groups_from_database[OF groups]
  have ends: "\<forall>m \<in> set ?m. lm_start m < lm_end m" using literal_from_database(2)[OF db] by blast
  have "set (fst (select_literal_entities ?m)) \<subseteq> set ?m"
    using select_literal_facts(1)[OF prod.collapse[symmetric] ends] .
  then have "\<forall>m \<in> set (fst (select_literal_entities ?m)). from_database env types (lm_entity m)"
    using literal_from_database(1)[OF db] by blast
  from finish_entities[OF fin db this assms(2)] confirmed_from_confirmation[OF valid] show ?thesis by auto
qed

lemma rmap_total: "(\<And>x. x \<in> set xs \<Longrightarrow> \<exists>y. f x = Inr y) \<Longrightarrow> \<exists>ys. rmap f xs = Inr ys"
proof (induction xs)
  case (Cons x xs)
  then obtain y ys where "f x = Inr y" "rmap f xs = Inr ys" by (metis list.set_intros)
  then show ?case by (simp add: rbind_def)
qed simp

lemma judge_missing_first:
  assumes "rmap (\<lambda>l. case l of (t, name, config) \<Rightarrow>
      rbind (find_similar_entities env config name) (\<lambda>cs. Inr (l, cs))) missing = Inr judged"
  shows "judge_missing valid judged =
    (case find (\<lambda>(t, name, config). \<not> confirmed_entity_covers_lookup valid t name) missing of
       None \<Rightarrow> Inr ()
     | Some (t, name, config) \<Rightarrow> Inl (case projr (find_similar_entities env config name) of
         [] \<Rightarrow> EntityNotFoundError name | cs \<Rightarrow> EntityAmbiguousError cs name))"
  using assms
proof (induction missing arbitrary: judged)
  case (Cons l missing)
  obtain t name config where l: "l = (t, name, config)" by (metis prod_cases3)
  from Cons.prems obtain cs rest where cs: "find_similar_entities env config name = Inr cs"
    and rest: "rmap (\<lambda>l. case l of (t, name, config) \<Rightarrow>
      rbind (find_similar_entities env config name) (\<lambda>cs. Inr (l, cs))) missing = Inr rest" "judged = (l, cs) # rest"
    by (auto simp: l rbind_Inr_iff)
  with Cons.IH[OF rest(1)] show ?case by (auto simp: l split: list.splits)
qed simp

lemma find_filter: "find P (filter Q xs) = find (\<lambda>x. Q x \<and> P x) xs"
  by (induction xs) auto

lemma finish_resolution_cases:
  assumes "\<And>t name config. (t, name, config) \<in> set lookups \<Longrightarrow> \<exists>cs. find_similar_entities env config name = Inr cs"
  shows "case find (\<lambda>(t, name, config). exact_result groups (t, name, config) = None \<and>
      \<not> confirmed_entity_covers_lookup valid t name) lookups of
    None \<Rightarrow> \<exists>v. finish_resolution env query valid groups selected lookups = Inr v
  | Some (t, name, config) \<Rightarrow> finish_resolution env query valid groups selected lookups =
      Inl (case projr (find_similar_entities env config name) of
        [] \<Rightarrow> EntityNotFoundError name | cs \<Rightarrow> EntityAmbiguousError cs name)"
proof (cases "lookups = []")
  case True
  then show ?thesis by (cases "selected = []") (simp_all add: finish_resolution_def rbind_def Let_def)
next
  case False
  let ?missing = "filter (\<lambda>l. exact_result groups l = None) lookups"
  have "\<exists>judged. rmap (\<lambda>l. case l of (t, name, config) \<Rightarrow>
      rbind (find_similar_entities env config name) (\<lambda>cs. Inr (l, cs))) ?missing = Inr judged"
  proof (rule rmap_total)
    fix l
    assume "l \<in> set ?missing"
    moreover obtain t name config where l: "l = (t, name, config)" by (metis prod_cases3)
    ultimately have "(t, name, config) \<in> set lookups" by simp
    from assms[OF this] obtain cs where "find_similar_entities env config name = Inr cs" by blast
    then show "\<exists>y. (case l of (t, name, config) \<Rightarrow> rbind (find_similar_entities env config name) (\<lambda>cs. Inr (l, cs))) = Inr y"
      by (simp add: l rbind_def)
  qed
  then obtain judged where judged: "rmap (\<lambda>l. case l of (t, name, config) \<Rightarrow>
      rbind (find_similar_entities env config name) (\<lambda>cs. Inr (l, cs))) ?missing = Inr judged" by blast
  have eq: "find (\<lambda>(t, name, config). \<not> confirmed_entity_covers_lookup valid t name) ?missing =
      find (\<lambda>(t, name, config). exact_result groups (t, name, config) = None \<and>
        \<not> confirmed_entity_covers_lookup valid t name) lookups"
    unfolding find_filter by (rule arg_cong[of _ _ "\<lambda>P. find P lookups"]) auto
  show ?thesis
    using False judged judge_missing_first[OF judged, of valid]
    unfolding eq by (auto simp: finish_resolution_def Let_def rbind_def split: option.splits sum.splits)
qed

subsection \<open>Properties\<close>

text \<open>Every entity that the resolver returns is real: it is a row that the equality query on one of the resolvable
  tables returned, or an entity the client confirmed, of the exact shape of a resolvable type, whose identifier
  and name the database holds together.  A similarity match alone never becomes an entity.\<close>

theorem resolved_entities_are_real:
  assumes "resolve_entity env types node_aliases query confirmed = Inr v"
  shows "\<forall>e \<in> set (entities_in v). from_database env types e \<or>
    (\<exists>c. from_confirmation env types confirmed c \<and> ce_entity c = e)"
  using resolve_entity_sources[OF assms] by blast

definition example_resolve_env :: resolve_env where
  "example_resolve_env = \<lparr>
     rv_extract = (\<lambda>q. Inr [\<lparr>tc_name = ''extract_entities'', tc_arguments = Some (PDict [(''entities'',
       PList [PDict [(''entityType'', PStr ''product''), (''entityName'', PStr ''Ab'')]])])\<rparr>]),
     rv_by_names = (\<lambda>c ns. Inr (if ''Ab'' \<in> set ns then [(PInt 7, PStr ''Ab'')] else [])),
     rv_similar = (\<lambda>c n. Inr [(PInt 7, PStr ''Ab'', PInt 1)]), rv_exists = (\<lambda>c i n. Inr True)\<rparr>"

lemma example_resolved: "resolve_entity example_resolve_env [example_type] [] ''Ab'' PNone =
    Inr (PDict [(''productId'', PInt 7), (''productName'', PStr ''Ab'')])"
  by code_simp

theorem resolved_entities_are_real_witness:
  "from_database example_resolve_env [example_type] [(''productId'', PInt 7), (''productName'', PStr ''Ab'')] \<or>
   (\<exists>c. from_confirmation example_resolve_env [example_type] PNone c \<and>
      ce_entity c = [(''productId'', PInt 7), (''productName'', PStr ''Ab'')])"
  using bspec[OF resolved_entities_are_real[OF example_resolved], of "[(''productId'', PInt 7), (''productName'', PStr ''Ab'')]"]
  by (simp only: entities_in.simps list.set insertI1 simp_thms)



end
