(* ===== verification/Evaluation_Gates.thy ===== *)
theory Evaluation_Gates
  imports Py_Text "HOL-Library.Product_Lexorder"
begin

text \<open>
  The stability policy of the evaluation (\<open>evaluation/stability_policy.py\<close>) and the regression gate that compares a
  later evaluation with it (\<open>build_change_regression_gate\<close> of \<open>evaluation/gates.py\<close>).  A record of an evaluation is
  the dictionary of the artifact.  Reading the file, its digest and the clock are arguments.
\<close>

subsection \<open>Records by case\<close>

definition add_to_group :: "'k \<Rightarrow> 'v \<Rightarrow> ('k, 'v list) dict \<Rightarrow> ('k, 'v list) dict" where
  "add_to_group k v d = AList.update k (dict_get d k [] @ [v]) d"

definition field :: "row \<Rightarrow> string \<Rightarrow> pyval" where
  "field r k = dict_get r k PNone"

subsection \<open>The policy\<close>

definition EXPECTED_CASE_COUNT :: nat where "EXPECTED_CASE_COUNT = 90"

definition EXPECTED_RUNS :: "int list" where "EXPECTED_RUNS = [1, 2, 3]"

datatype policy_error =
    Unreadable
  | WrongShape
  | WrongRecordCount
  | DirtyWorktree
  | NotOrchestrator
  | EmptyText string
  | UnknownCommit
  | CommitMismatch
  | NoSnapshot
  | RecordNotObject
  | CaseNotOrchestrator string
  | IncompleteRun string
  | WrongCaseCount
  | WrongRuns string
  | CaseIncomplete string
  | ContractDiffers string
  | CaseSetMismatch
  | EscapingError string

definition non_empty_string :: "pyval \<Rightarrow> string \<Rightarrow> policy_error + string" where
  "non_empty_string v label = (case v of
     PStr s \<Rightarrow> if blank s then Inl (EmptyText label) else Inr s
   | _ \<Rightarrow> Inl (EmptyText label))"

fun is_bool :: "pyval \<Rightarrow> bool" where
  "is_bool (PBool _) = True"
| "is_bool _ = False"

definition classify :: "row list \<Rightarrow> string" where
  "classify records = (let results = map (\<lambda>r. field r ''queryPipelinePass'') records in
     if length results \<noteq> length EXPECTED_RUNS \<or> \<not> list_all is_bool results then ''INCOMPLETE''
     else if list_all (\<lambda>v. v = PBool True) results then ''CONSISTENT_PASS''
     else if \<not> list_ex (\<lambda>v. v = PBool True) results then ''CONSISTENT_FAIL''
     else ''VARIABLE'')"

definition OUTCOMES :: "string list" where
  "OUTCOMES = [''CONSISTENT_PASS'', ''VARIABLE'', ''CONSISTENT_FAIL'']"

text \<open>\<open>int(v)\<close>\<close>

fun int_of_value :: "pyval \<Rightarrow> int option" where
  "int_of_value (PInt n) = Some n"
| "int_of_value (PBool b) = Some (if b then 1 else 0)"
| "int_of_value (PFloat (FFin v _ _)) = Some (if 0 \<le> v then \<lfloor>v\<rfloor> else \<lceil>v\<rceil>)"
| "int_of_value (PStr s) = int_of_string s"
| "int_of_value _ = None"

definition group_record :: "pyval \<Rightarrow> (string, row list) dict \<Rightarrow> policy_error + (string, row list) dict" where
  "group_record v groups = (case v of
     PDict r \<Rightarrow> rbind (non_empty_string (field r ''caseId'') ''case ID'') (\<lambda>case_id.
       if \<not> py_eq (field r ''executionMode'') (PStr ''orchestrator'') then Inl (CaseNotOrchestrator case_id)
       else if py_eq (field r ''status'') (PStr ''ERROR'') then Inl (IncompleteRun case_id)
       else Inr (add_to_group case_id r groups))
   | _ \<Rightarrow> Inl RecordNotObject)"

definition run_of :: "row \<Rightarrow> int option" where
  "run_of r = int_of_value (dict_get r ''run'' (PInt 0))"

definition all_equal :: "pyval list \<Rightarrow> bool" where
  "all_equal vs = list_all (py_eq (hd vs)) vs"

definition case_policy :: "string \<times> row list \<Rightarrow> policy_error + (string \<times> pyval)" where
  "case_policy x = (case x of (case_id, records) \<Rightarrow>
     if list_ex (\<lambda>r. run_of r = None) records then Inl (EscapingError ''int'')
     else let ordered = sort_key (\<lambda>r. the (run_of r)) records;
         contracts = map (\<lambda>r. field r ''contractId'') ordered; suites = map (\<lambda>r. field r ''suite'') ordered;
         outcome = classify ordered in
       if \<not> py_eq_list (map (\<lambda>r. field r ''run'') ordered) (map PInt EXPECTED_RUNS) then Inl (WrongRuns case_id)
       else if outcome \<notin> set OUTCOMES then Inl (CaseIncomplete case_id)
       else if \<not> list_all hashable (contracts @ suites) then Inl (EscapingError ''hash'')
       else if \<not> all_equal contracts \<or> \<not> all_equal suites then Inl (ContractDiffers case_id)
       else Inr (case_id, PDict [(''contractId'', hd contracts), (''suite'', hd suites), (''outcome'', PStr outcome),
         (''passCount'', PInt (int (length (filter (\<lambda>r. field r ''queryPipelinePass'' = PBool True) ordered))))]))"

definition is_dict :: "pyval \<Rightarrow> bool" where
  "is_dict v = (case v of PDict _ \<Rightarrow> True | _ \<Rightarrow> False)"

definition dict_of :: "pyval \<Rightarrow> row" where
  "dict_of v = (case v of PDict d \<Rightarrow> d | _ \<Rightarrow> [])"

text \<open>\<open>document["summary"]\<close>, \<open>document["cases"]\<close> and \<open>summary["metrics"]\<close>\<close>

definition open_artifact :: "pyval option \<Rightarrow> policy_error + (row \<times> pyval \<times> pyval)" where
  "open_artifact document = (case document of
     Some (PDict d) \<Rightarrow> (case (map_of d ''summary'', map_of d ''cases'') of
         (Some (PDict summary), Some cases) \<Rightarrow> (case map_of summary ''metrics'' of
             Some metrics \<Rightarrow> Inr (summary, cases, metrics) | None \<Rightarrow> Inl Unreadable)
       | _ \<Rightarrow> Inl Unreadable)
   | _ \<Rightarrow> Inl Unreadable)"

definition check_summary :: "row \<Rightarrow> pyval \<Rightarrow> string option \<Rightarrow> policy_error + (string \<times> string \<times> string \<times> string)" where
  "check_summary summary metrics expected_commit =
     (if \<not> (field summary ''workingTreeDirty'' = PBool False) then Inl DirtyWorktree
      else if \<not> is_dict metrics \<or> \<not> py_eq (field (dict_of metrics) ''executionMode'') (PStr ''orchestrator'') then Inl NotOrchestrator
      else rbind (non_empty_string (field summary ''commit'') ''baseline commit'') (\<lambda>commit.
        if commit = ''unknown'' then Inl UnknownCommit
        else if (case expected_commit of None \<Rightarrow> False | Some c \<Rightarrow> commit \<noteq> c) then Inl CommitMismatch
        else rbind (non_empty_string (field summary ''model'') ''model'') (\<lambda>model.
          rbind (non_empty_string (field summary ''reasoningEffort'') ''reasoning effort'') (\<lambda>effort.
          if \<not> is_dict (field summary ''snapshot'') then Inl NoSnapshot
          else rbind (non_empty_string (field (dict_of (field summary ''snapshot'')) ''sha256'') ''snapshot SHA-256'') (\<lambda>sha.
            Inr (commit, model, effort, sha))))))"

text \<open>The policy over \<open>n\<close> cases; the code has \<open>n = 90\<close>.\<close>

definition policy_of :: "nat \<Rightarrow> string \<Rightarrow> string \<Rightarrow> pyval option \<Rightarrow> string option \<Rightarrow> policy_error + row" where
  "policy_of n sha now document expected_commit =
     rbind (open_artifact document) (\<lambda>(summary, cases, metrics). case cases of
       PList records \<Rightarrow>
         if length records \<noteq> n * length EXPECTED_RUNS then Inl WrongRecordCount
         else rbind (check_summary summary metrics expected_commit) (\<lambda>(commit, model, effort, snapshot_sha).
         rbind (rfold group_record records []) (\<lambda>groups.
         if length groups \<noteq> n then Inl WrongCaseCount
         else rbind (rmap case_policy (sort_key fst groups)) (\<lambda>policies.
         if \<not> (case map_of summary ''evaluationSet'' of None \<Rightarrow> True | Some v \<Rightarrow> is_dict v) then Inl (EscapingError ''get'')
         else if \<not> py_eq (field (dict_of (field summary ''evaluationSet'')) ''caseIds'') (PList (map PStr (sort (map fst groups))))
         then Inl CaseSetMismatch
         else Inr [(''policyVersion'', PInt 1), (''generatedAt'', PStr now),
           (''baseline'', PDict [(''commit'', PStr commit), (''artifactSha256'', PStr sha), (''model'', PStr model),
              (''reasoningEffort'', PStr effort), (''snapshotSha256'', PStr snapshot_sha),
              (''executionMode'', PStr ''orchestrator''), (''workingTreeDirty'', PBool False),
              (''caseCount'', PInt (int n)), (''runs'', PInt (int (length EXPECTED_RUNS)))]),
           (''cases'', PDict policies),
           (''ratchetPassCaseIds'', PList (map PStr (map fst (filter (\<lambda>(_, p). field (dict_of p) ''outcome'' = PStr ''CONSISTENT_PASS'') policies))))])))
     | _ \<Rightarrow> Inl WrongShape)"

definition build_stability_policy :: "string \<Rightarrow> string \<Rightarrow> pyval option \<Rightarrow> string option \<Rightarrow> policy_error + row" where
  "build_stability_policy sha now document expected_commit = policy_of EXPECTED_CASE_COUNT sha now document expected_commit"

subsection \<open>The gate\<close>

datatype gate_status = PASS | FAIL | RERUN_REQUIRED | NOT_EVALUATED

record change_gate =
  cg_status :: gate_status
  cg_compatibility_errors :: "string list"
  cg_regressions :: "(string \<times> string) list"
  cg_rerun_required :: "string list"

text \<open>What the loaders hand over: the compatibility errors they found and the raw values.\<close>

record loaded_policy =
  lp_compatibility_errors :: "string list"
  lp_cases :: pyval

record ratchet_baseline =
  rb_compatibility_errors :: "string list"
  rb_pass_case_ids :: pyval

definition records_by_case :: "row list \<Rightarrow> (string, row list) dict" where
  "records_by_case records = fold (\<lambda>r groups. case field r ''caseId'' of
     PStr c \<Rightarrow> add_to_group c r groups | _ \<Rightarrow> groups) records []"

definition ratchet_ids :: "ratchet_baseline option \<Rightarrow> string list" where
  "ratchet_ids baseline = (case baseline of
     None \<Rightarrow> []
   | Some b \<Rightarrow> (case rb_pass_case_ids b of PList vs \<Rightarrow> map str_of (filter is_str vs) | _ \<Rightarrow> []))"

definition compatibility_errors :: "row list \<Rightarrow> loaded_policy \<Rightarrow> ratchet_baseline option \<Rightarrow> string list" where
  "compatibility_errors records policy baseline =
     lp_compatibility_errors policy @
     (if is_dict (lp_cases policy) then [] else [''stability policy cases are invalid'']) @
     (if set (map fst (records_by_case records)) = set (map fst (dict_of (lp_cases policy))) then []
      else [''stability policy case set mismatch'']) @
     (case baseline of None \<Rightarrow> [] | Some b \<Rightarrow> rb_compatibility_errors b)"

definition outcome_of :: "row \<Rightarrow> string \<Rightarrow> pyval" where
  "outcome_of cases c = (case map_of cases c of Some (PDict p) \<Rightarrow> field p ''outcome'' | _ \<Rightarrow> PNone)"

definition judge_case :: "row \<Rightarrow> string list \<Rightarrow> string \<times> row list \<Rightarrow> (string \<times> string) list \<times> string list" where
  "judge_case cases ratchet x = (case x of (c, records) \<Rightarrow>
     let outcomes = map (\<lambda>r. field r ''queryPipelinePass'') records in
     if list_ex (\<lambda>r. py_eq (field r ''status'') (PStr ''ERROR'')) records \<or> \<not> list_all is_bool outcomes
     then ([(c, ''INCOMPLETE_OR_INFRASTRUCTURE_ERROR'')], [])
     else let failures = length (filter (\<lambda>v. v = PBool False) outcomes); baseline = outcome_of cases c;
         found = (if baseline = PStr ''CONSISTENT_PASS'' \<and> failures \<noteq> 0 then ([(c, ''G0_CONSISTENT_PASS_REGRESSION'')], [])
           else if baseline = PStr ''VARIABLE'' \<and> failures \<noteq> 0
           then if 3 \<le> length outcomes \<and> failures = length outcomes then ([(c, ''G0_VARIABLE_BECAME_CONSISTENT_FAIL'')], [])
             else if length outcomes < 3 then ([], [c]) else ([], [])
           else ([], [])) in
       (fst found @ (if c \<in> set ratchet \<and> failures \<noteq> 0 then [(c, ''RATCHET_PASS_REGRESSION'')] else []), snd found))"

definition build_change_regression_gate :: "row list \<Rightarrow> loaded_policy option \<Rightarrow> ratchet_baseline option \<Rightarrow> change_gate" where
  "build_change_regression_gate records policy baseline = (case policy of
     None \<Rightarrow> \<lparr>cg_status = NOT_EVALUATED, cg_compatibility_errors = [''stability policy unavailable''],
       cg_regressions = [], cg_rerun_required = []\<rparr>
   | Some p \<Rightarrow>
       (let errors = compatibility_errors records p baseline;
          judged = map (judge_case (dict_of (lp_cases p)) (ratchet_ids baseline)) (sort_key fst (records_by_case records));
          regressions = sort (remdups (concat (map fst judged))); rerun = concat (map snd judged) in
        \<lparr>cg_status = (if errors \<noteq> [] \<or> regressions \<noteq> [] then FAIL else if rerun \<noteq> [] then RERUN_REQUIRED else PASS),
         cg_compatibility_errors = sort (remdups errors), cg_regressions = regressions,
         cg_rerun_required = sort (remdups rerun)\<rparr>))"

subsection \<open>Grouped records\<close>

lemma map_of_update: "map_of (AList.update k v d) k' = (if k' = k then Some v else map_of d k')"
  by (simp add: update_conv')

lemma group_get: "dict_get (add_to_group k v d) k' [] = dict_get d k' [] @ (if k' = k then [v] else [])"
  by (auto simp: add_to_group_def dict_get_def map_of_update)

lemma group_keys: "fst ` set (add_to_group k v d) = insert k (fst ` set d)"
  by (simp add: add_to_group_def update_key_set)

lemma group_ok [simp]: "dict_ok d \<Longrightarrow> dict_ok (add_to_group k v d)"
  by (simp add: add_to_group_def)

definition of_case :: "string \<Rightarrow> row list \<Rightarrow> row list" where
  "of_case c records = filter (\<lambda>r. field r ''caseId'' = PStr c) records"

definition case_ids :: "row list \<Rightarrow> string set" where
  "case_ids records = {c. \<exists>r \<in> set records. field r ''caseId'' = PStr c}"

lemma records_by_case_gen:
  defines "step \<equiv> \<lambda>r groups. case field r ''caseId'' of PStr c \<Rightarrow> add_to_group c r groups | _ \<Rightarrow> groups"
  shows "dict_ok d \<Longrightarrow> dict_ok (fold step records d) \<and> fst ` set (fold step records d) = fst ` set d \<union> case_ids records \<and>
    dict_get (fold step records d) c [] = dict_get d c [] @ of_case c records"
proof (induction records arbitrary: d)
  case (Cons r records)
  have "case_ids (r # records) = (case field r ''caseId'' of PStr c \<Rightarrow> {c} | _ \<Rightarrow> {}) \<union> case_ids records"
    by (auto simp: case_ids_def split: pyval.splits)
  moreover have "dict_ok (step r d) \<and> fst ` set (step r d) = fst ` set d \<union> (case field r ''caseId'' of PStr c \<Rightarrow> {c} | _ \<Rightarrow> {}) \<and>
      dict_get (step r d) c [] = dict_get d c [] @ (if field r ''caseId'' = PStr c then [r] else [])"
    using Cons.prems by (auto simp: step_def group_get group_keys split: pyval.splits)
  ultimately show ?case using Cons.IH[of "step r d"] by (auto simp: of_case_def)
qed (simp add: case_ids_def of_case_def)

lemma records_by_case_facts:
  "dict_ok (records_by_case records)" "fst ` set (records_by_case records) = case_ids records"
  "dict_get (records_by_case records) c [] = of_case c records"
  using records_by_case_gen[of "[]" records c] by (auto simp: records_by_case_def dict_get_def)

lemma records_by_case_member:
  "(c, rs) \<in> set (records_by_case records) \<longleftrightarrow> c \<in> case_ids records \<and> rs = of_case c records"
proof -
  have "(c, rs) \<in> set (records_by_case records) \<longleftrightarrow> map_of (records_by_case records) c = Some rs"
    using records_by_case_facts(1)[of records] by (simp add: dict_ok_def)
  moreover have "c \<in> case_ids records \<longleftrightarrow> map_of (records_by_case records) c \<noteq> None"
    unfolding records_by_case_facts(2)[symmetric] by (simp add: map_of_eq_None_iff)
  ultimately show ?thesis
    using records_by_case_facts(3)[of records c] by (auto simp: dict_get_def)
qed

subsection \<open>When the gate passes\<close>

lemma py_eq_text: "py_eq v (PStr s) \<longleftrightarrow> v = PStr s"
  by (cases v rule: numeric.cases) auto

lemma incomplete_iff:
  "list_ex (\<lambda>r. py_eq (field r ''status'') (PStr ''ERROR'')) rs \<or> \<not> list_all is_bool (map (\<lambda>r. field r ''queryPipelinePass'') rs) \<longleftrightarrow>
     \<not> (\<forall>r \<in> set rs. field r ''status'' \<noteq> PStr ''ERROR'' \<and> is_bool (field r ''queryPipelinePass''))"
  unfolding py_eq_text list_ex_iff list_all_iff by auto

definition passes :: "row \<Rightarrow> bool" where
  "passes r \<longleftrightarrow> field r ''queryPipelinePass'' = PBool True"

definition complete :: "row \<Rightarrow> bool" where
  "complete r \<longleftrightarrow> field r ''status'' \<noteq> PStr ''ERROR'' \<and> is_bool (field r ''queryPipelinePass'')"

text \<open>What the policy demands of the records of one case.\<close>

definition case_demand :: "row \<Rightarrow> string list \<Rightarrow> string \<Rightarrow> row list \<Rightarrow> bool" where
  "case_demand cases ratchet c rs \<longleftrightarrow> (\<forall>r \<in> set rs. complete r) \<and>
     (outcome_of cases c = PStr ''CONSISTENT_PASS'' \<or> c \<in> set ratchet \<longrightarrow> (\<forall>r \<in> set rs. passes r)) \<and>
     (outcome_of cases c = PStr ''VARIABLE'' \<longrightarrow> (\<forall>r \<in> set rs. passes r) \<or> (3 \<le> length rs \<and> (\<exists>r \<in> set rs. passes r)))"

lemma failures_zero:
  assumes "\<forall>r \<in> set rs. is_bool (field r ''queryPipelinePass'')"
  shows "length (filter (\<lambda>v. v = PBool False) (map (\<lambda>r. field r ''queryPipelinePass'') rs)) = 0 \<longleftrightarrow> (\<forall>r \<in> set rs. passes r)"
    "length (filter (\<lambda>v. v = PBool False) (map (\<lambda>r. field r ''queryPipelinePass'') rs)) = length rs \<longleftrightarrow> (\<forall>r \<in> set rs. \<not> passes r)"
proof -
  have b: "field r ''queryPipelinePass'' = PBool False \<longleftrightarrow> \<not> passes r" if "r \<in> set rs" for r
    using assms that by (cases "field r ''queryPipelinePass''") (auto simp: passes_def)
  have f: "length (filter (\<lambda>v. v = PBool False) (map (\<lambda>r. field r ''queryPipelinePass'') rs)) = length (filter (\<lambda>r. \<not> passes r) rs)"
    using b by (simp add: filter_map comp_def cong: filter_cong)
  show "length (filter (\<lambda>v. v = PBool False) (map (\<lambda>r. field r ''queryPipelinePass'') rs)) = 0 \<longleftrightarrow> (\<forall>r \<in> set rs. passes r)"
    unfolding f by (simp add: filter_empty_conv)
  show "length (filter (\<lambda>v. v = PBool False) (map (\<lambda>r. field r ''queryPipelinePass'') rs)) = length rs \<longleftrightarrow> (\<forall>r \<in> set rs. \<not> passes r)"
    unfolding f using length_filter_less[of _ rs "\<lambda>r. \<not> passes r"] by (auto simp: filter_id_conv) (metis less_irrefl)
qed

lemma judge_case_clear: "judge_case cases ratchet (c, rs) = ([], []) \<longleftrightarrow> case_demand cases ratchet c rs"
proof (cases "\<forall>r \<in> set rs. complete r")
  case True
  then have b: "\<forall>r \<in> set rs. is_bool (field r ''queryPipelinePass'')" by (simp add: complete_def)
  show ?thesis
    unfolding judge_case_def case_demand_def Let_def prod.case incomplete_iff complete_def[symmetric]
    using True failures_zero[OF b] by (auto simp del: length_0_conv)
next
  case False
  then show ?thesis
    unfolding judge_case_def case_demand_def Let_def prod.case incomplete_iff complete_def[symmetric] by auto
qed

lemma judged_clear:
  "concat (map fst (map f xs)) = [] \<and> concat (map snd (map f xs)) = [] \<longleftrightarrow> (\<forall>x \<in> set xs. f x = ([], []))"
  by (auto simp: concat_eq_Nil_conv prod_eq_iff)

lemma gate_status_PASS:
  fixes regressions :: "(string \<times> string) list"
  shows "(if errors \<noteq> [] \<or> sort (remdups regressions) \<noteq> [] then FAIL else if rerun \<noteq> [] then RERUN_REQUIRED else PASS) = PASS \<longleftrightarrow>
     errors = [] \<and> regressions = [] \<and> rerun = []"
proof -
  have "sort (remdups regressions) = [] \<longleftrightarrow> regressions = []" by (metis set_empty set_remdups set_sort)
  then show ?thesis by auto
qed

definition gate_demand :: "row list \<Rightarrow> loaded_policy \<Rightarrow> ratchet_baseline option \<Rightarrow> bool" where
  "gate_demand records p baseline \<longleftrightarrow> lp_compatibility_errors p = [] \<and> is_dict (lp_cases p) \<and>
     (case baseline of None \<Rightarrow> True | Some b \<Rightarrow> rb_compatibility_errors b = []) \<and>
     case_ids records = set (map fst (dict_of (lp_cases p))) \<and>
     (\<forall>c \<in> case_ids records. case_demand (dict_of (lp_cases p)) (ratchet_ids baseline) c (of_case c records))"

lemma gate_passes: "cg_status (build_change_regression_gate records (Some p) baseline) = PASS \<longleftrightarrow> gate_demand records p baseline"
proof -
  let ?f = "judge_case (dict_of (lp_cases p)) (ratchet_ids baseline)"
  let ?judged = "map ?f (sort_key fst (records_by_case records))"
  have clear: "concat (map fst ?judged) = [] \<and> concat (map snd ?judged) = [] \<longleftrightarrow>
      (\<forall>c \<in> case_ids records. case_demand (dict_of (lp_cases p)) (ratchet_ids baseline) c (of_case c records))"
  proof -
    have "(\<forall>x \<in> set (records_by_case records). ?f x = ([], [])) \<longleftrightarrow>
        (\<forall>c rs. (c, rs) \<in> set (records_by_case records) \<longrightarrow> ?f (c, rs) = ([], []))" by auto
    then show ?thesis unfolding judged_clear set_sort by (simp add: judge_case_clear records_by_case_member) blast
  qed
  have "cg_status (build_change_regression_gate records (Some p) baseline) = PASS \<longleftrightarrow>
      compatibility_errors records p baseline = [] \<and> concat (map fst ?judged) = [] \<and> concat (map snd ?judged) = []"
    unfolding build_change_regression_gate_def Let_def option.case change_gate.select_convs by (rule gate_status_PASS)
  also have "\<dots> \<longleftrightarrow> compatibility_errors records p baseline = [] \<and>
      (\<forall>c \<in> case_ids records. case_demand (dict_of (lp_cases p)) (ratchet_ids baseline) c (of_case c records))"
    using clear by blast
  finally show ?thesis
    using records_by_case_facts(2)[of records] by (auto simp: gate_demand_def compatibility_errors_def split: option.splits)
qed

subsection \<open>A policy and the records it was built from\<close>

lemma group_record_Inr:
  assumes "group_record v d = Inr d'"
  shows "\<exists>r c. v = PDict r \<and> field r ''caseId'' = PStr c \<and> field r ''status'' \<noteq> PStr ''ERROR'' \<and> d' = add_to_group c r d"
  using assms unfolding group_record_def py_eq_text
  by (auto simp: result_simps non_empty_string_def split: pyval.splits if_splits)

lemma grouped_records:
  assumes "rfold group_record records d = Inr groups"
  shows "groups = fold (\<lambda>r groups. case field r ''caseId'' of PStr c \<Rightarrow> add_to_group c r groups | _ \<Rightarrow> groups)
      (map dict_of records) d \<and> (\<forall>r \<in> set (map dict_of records). field r ''status'' \<noteq> PStr ''ERROR'')"
  using assms
proof (induction records arbitrary: d)
  case (Cons v records)
  then obtain d' where d': "group_record v d = Inr d'" "rfold group_record records d' = Inr groups"
    by (auto simp: rbind_Inr_iff)
  from group_record_Inr[OF d'(1)] Cons(1)[OF d'(2)] show ?case by (auto simp: dict_of_def)
qed simp

lemma classify_outcome:
  assumes "classify rs \<in> set OUTCOMES"
  shows "length rs = 3" "\<forall>r \<in> set rs. is_bool (field r ''queryPipelinePass'')"
    "classify rs = ''CONSISTENT_PASS'' \<Longrightarrow> \<forall>r \<in> set rs. passes r" "classify rs = ''VARIABLE'' \<Longrightarrow> \<exists>r \<in> set rs. passes r"
  using assms by (auto simp: classify_def OUTCOMES_def EXPECTED_RUNS_def Let_def list_all_iff list_ex_iff passes_def split: if_splits)

lemma case_policy_Inr:
  assumes "case_policy (c, rs) = Inr x"
  shows "\<exists>p. x = (c, PDict p) \<and> length rs = 3 \<and>
    (\<forall>r \<in> set rs. is_bool (field r ''queryPipelinePass'')) \<and>
    (field p ''outcome'' = PStr ''CONSISTENT_PASS'' \<longrightarrow> (\<forall>r \<in> set rs. passes r)) \<and>
    (field p ''outcome'' = PStr ''VARIABLE'' \<longrightarrow> (\<exists>r \<in> set rs. passes r))"
proof -
  let ?o = "sort_key (\<lambda>r. the (run_of r)) rs"
  from assms have o: "classify ?o \<in> set OUTCOMES" and x: "\<exists>p. x = (c, PDict p) \<and> field p ''outcome'' = PStr (classify ?o)"
    by (auto simp: case_policy_def Let_def field_def dict_get_def split: if_splits)
  from x obtain p where "x = (c, PDict p)" "field p ''outcome'' = PStr (classify ?o)" by blast
  with classify_outcome[OF o] show ?thesis by (intro exI[of _ p]) simp
qed

text \<open>A policy and its protected cases as the loaders hand them over when they find no compatibility error.\<close>

definition policy_loaded :: "row \<Rightarrow> loaded_policy" where
  "policy_loaded pol = \<lparr>lp_compatibility_errors = [], lp_cases = field pol ''cases''\<rparr>"

definition policy_ratchet :: "row \<Rightarrow> ratchet_baseline" where
  "policy_ratchet pol = \<lparr>rb_compatibility_errors = [], rb_pass_case_ids = field pol ''ratchetPassCaseIds''\<rparr>"

lemma policies_keys: "rmap case_policy gs = Inr policies \<Longrightarrow> map fst policies = map fst gs"
proof (induction gs arbitrary: policies)
  case (Cons x gs)
  then obtain y ys where y: "case_policy x = Inr y" "rmap case_policy gs = Inr ys" "policies = y # ys"
    by (auto simp: rbind_Inr_iff)
  from case_policy_Inr[of "fst x" "snd x" y] y(1) have "fst y = fst x" by auto
  with Cons(1)[OF y(2)] y(3) show ?case by simp
qed simp

lemma policies_demand:
  assumes policies: "rmap case_policy (sort_key fst (records_by_case records)) = Inr policies"
    and status: "\<forall>r \<in> set records. field r ''status'' \<noteq> PStr ''ERROR''"
    and ratchet: "\<And>c. c \<in> set ratchet \<Longrightarrow> \<exists>p. (c, p) \<in> set policies \<and> field (dict_of p) ''outcome'' = PStr ''CONSISTENT_PASS''"
    and c: "c \<in> case_ids records"
  shows "case_demand policies ratchet c (of_case c records)"
proof -
  have l: "list_all2 (\<lambda>x y. case_policy x = Inr y) (sort_key fst (records_by_case records)) policies"
    using policies by (simp add: rmap_Inr_iff)
  note keys = policies_keys[OF policies]
  have "distinct (map fst (records_by_case records))" using records_by_case_facts(1) by (simp add: dict_ok_def)
  then have d: "distinct (map fst policies)" unfolding keys by (simp add: distinct_map inj_on_def)
  have "(c, of_case c records) \<in> set (sort_key fst (records_by_case records))" using c by (simp add: records_by_case_member)
  from list_all2_memberD1[OF l this] obtain y where y: "y \<in> set policies" "case_policy (c, of_case c records) = Inr y" by blast
  from case_policy_Inr[OF y(2)] obtain p where
    p: "y = (c, PDict p)" "length (of_case c records) = 3" "\<forall>r \<in> set (of_case c records). is_bool (field r ''queryPipelinePass'')"
      "field p ''outcome'' = PStr ''CONSISTENT_PASS'' \<longrightarrow> (\<forall>r \<in> set (of_case c records). passes r)"
      "field p ''outcome'' = PStr ''VARIABLE'' \<longrightarrow> (\<exists>r \<in> set (of_case c records). passes r)"
    by blast
  have m: "map_of policies c = Some (PDict p)" using y(1) p(1) d by simp
  then have o: "outcome_of policies c = field p ''outcome''" by (simp add: outcome_of_def)
  have "field p ''outcome'' = PStr ''CONSISTENT_PASS''" if "c \<in> set ratchet"
  proof -
    from ratchet[OF that] obtain q where q: "(c, q) \<in> set policies" "field (dict_of q) ''outcome'' = PStr ''CONSISTENT_PASS''" by blast
    from map_of_is_SomeI[OF d q(1)] m have "q = PDict p" by simp
    with q(2) show ?thesis by (simp add: dict_of_def)
  qed
  moreover have "\<forall>r \<in> set (of_case c records). complete r" using status p(3) by (auto simp: of_case_def complete_def)
  ultimately show ?thesis using p(2,4,5) by (auto simp: case_demand_def o)
qed

lemma policy_accepts_its_records:
  assumes "policy_of n sha now (Some (PDict d)) commit = Inr pol" and "map_of d ''cases'' = Some (PList records)"
  shows "cg_status (build_change_regression_gate (map dict_of records) (Some (policy_loaded pol)) (Some (policy_ratchet pol))) = PASS"
proof -
  let ?rs = "map dict_of records"
  from assms obtain groups policies where g: "rfold group_record records [] = Inr groups"
    "rmap case_policy (sort_key fst groups) = Inr policies" "field pol ''cases'' = PDict policies"
    "field pol ''ratchetPassCaseIds'' = PList (map PStr (map fst (filter (\<lambda>(_, p). field (dict_of p) ''outcome'' = PStr ''CONSISTENT_PASS'') policies)))"
    by (auto simp: policy_of_def open_artifact_def result_simps field_def dict_get_def split: option.splits pyval.splits if_splits)
  from grouped_records[OF g(1)] have gr: "groups = records_by_case ?rs" and status: "\<forall>r \<in> set ?rs. field r ''status'' \<noteq> PStr ''ERROR''"
    by (simp_all add: records_by_case_def)
  have ids: "ratchet_ids (Some (policy_ratchet pol)) =
      map fst (filter (\<lambda>(_, p). field (dict_of p) ''outcome'' = PStr ''CONSISTENT_PASS'') policies)"
    by (simp add: ratchet_ids_def policy_ratchet_def g(4) comp_def)
  have "set (map fst policies) = set (map fst (sort_key fst groups))" using policies_keys[OF g(2)] by simp
  then have keys: "case_ids ?rs = fst ` set policies" by (simp add: gr records_by_case_facts)
  have "\<exists>p. (c, p) \<in> set policies \<and> field (dict_of p) ''outcome'' = PStr ''CONSISTENT_PASS''"
    if "c \<in> set (ratchet_ids (Some (policy_ratchet pol)))" for c using that unfolding ids by auto
  from policies_demand[OF g(2)[unfolded gr] status this] have "\<forall>c \<in> case_ids ?rs.
      case_demand policies (ratchet_ids (Some (policy_ratchet pol))) c (of_case c ?rs)" by blast
  moreover have "lp_compatibility_errors (policy_loaded pol) = []" "lp_cases (policy_loaded pol) = PDict policies"
      "rb_compatibility_errors (policy_ratchet pol) = []" by (simp_all add: policy_loaded_def policy_ratchet_def g(3))
  ultimately show ?thesis unfolding gate_passes gate_demand_def using keys by (simp add: is_dict_def dict_of_def[of "PDict policies"])
qed

subsection \<open>Properties\<close>

text \<open>C36: The regression gate passes exactly when the policy and the ratchet baseline loaded without a compatibility
  error, the evaluation covers exactly the cases of the policy, every record is complete, every case that always passed
  before or that the ratchet protects passes in every run, and every case that varied passes in every run or, with at least
  three runs, in one of them.\<close>

theorem change_gate_passes_iff:
  "cg_status (build_change_regression_gate records policy baseline) = PASS \<longleftrightarrow>
     (\<exists>p. policy = Some p \<and> gate_demand records p baseline)"
  using gate_passes by (cases policy) (simp_all add: build_change_regression_gate_def)

text \<open>C37: The policy and the gate fit together: the gate passes on the very records a policy was built from, with the
  protected cases of that policy, whatever the number of cases.\<close>

theorem policy_passes_its_own_gate:
  assumes "policy_of n sha now (Some (PDict d)) commit = Inr pol" and "map_of d ''cases'' = Some (PList records)"
  shows "cg_status (build_change_regression_gate (map dict_of records) (Some (policy_loaded pol)) (Some (policy_ratchet pol))) = PASS"
  using assms by (rule policy_accepts_its_records)

definition example_record :: "int \<Rightarrow> bool \<Rightarrow> pyval" where
  "example_record run ok = PDict [(''caseId'', PStr ''c''), (''executionMode'', PStr ''orchestrator''), (''run'', PInt run),
     (''queryPipelinePass'', PBool ok)]"

definition example_artifact :: row where
  "example_artifact = [(''summary'', PDict [(''metrics'', PDict [(''executionMode'', PStr ''orchestrator'')]),
      (''workingTreeDirty'', PBool False), (''commit'', PStr ''k''), (''model'', PStr ''m''), (''reasoningEffort'', PStr ''e''),
      (''snapshot'', PDict [(''sha256'', PStr ''s'')]), (''evaluationSet'', PDict [(''caseIds'', PList [PStr ''c''])])]),
    (''cases'', PList [example_record 2 True, example_record 1 False, example_record 3 True])]"

theorem policy_passes_its_own_gate_witness:
  "case policy_of 1 ''h'' ''t'' (Some (PDict example_artifact)) None of
     Inl _ \<Rightarrow> False
   | Inr pol \<Rightarrow> outcome_of (dict_of (field pol ''cases'')) ''c'' = PStr ''VARIABLE'' \<and>
       cg_status (build_change_regression_gate (map dict_of [example_record 2 True, example_record 1 False, example_record 3 True])
         (Some (policy_loaded pol)) (Some (policy_ratchet pol))) = PASS"
proof -
  let ?p = "policy_of 1 ''h'' ''t'' (Some (PDict example_artifact)) None"
  have "case ?p of Inl _ \<Rightarrow> False | Inr pol \<Rightarrow> outcome_of (dict_of (field pol ''cases'')) ''c'' = PStr ''VARIABLE''"
    by code_simp
  then obtain pol where p: "?p = Inr pol" "outcome_of (dict_of (field pol ''cases'')) ''c'' = PStr ''VARIABLE''"
    by (cases ?p) auto
  have "map_of example_artifact ''cases'' =
      Some (PList [example_record 2 True, example_record 1 False, example_record 3 True])" by (simp add: example_artifact_def)
  from policy_passes_its_own_gate[OF p(1) this] show ?thesis unfolding p(1) sum.case using p(2) by blast
qed

end
