(* ===== verification/Chat_Api.thy ===== *)
theory Chat_Api
  imports Execute_Plan
begin

text \<open>
  The chat endpoint (\<open>api/chat.py\<close>): it runs the graph on a question, turns four kinds of exceptions into answers, hides
  the details of a failed tool, stores the conversation and, for a failure, a review.  The graph, the JSON encoder together with
  the validation of the response model, the texts of answers and the two database writes are fields of an environment.
  Events and metrics are left out.
\<close>

subsection \<open>The payload of the response\<close>

definition value_at :: "row \<Rightarrow> string \<Rightarrow> pyval" where
  "value_at d k = dict_get d k PNone"

text \<open>The final state of the graph as the endpoint reads it.\<close>

record graph_output =
  go_query :: string
  go_entity :: pyval
  go_tool_plan :: pyval
  go_sql_query :: pyval
  go_cypher_query :: pyval
  go_sql_result :: pyval
  go_graph_result :: pyval
  go_final_answer :: "string option"
  go_visualization :: pyval
  go_query_failure :: "query_failure option"

record http_response =
  hr_query :: string
  hr_entity :: pyval
  hr_tool_plan :: "string list option"
  hr_sql_query :: "string option"
  hr_cypher_query :: "string option"
  hr_sql_result :: "row option"
  hr_graph_result :: "row option"
  hr_final_answer :: "string option"
  hr_visualization :: pyval

record failure_review =
  fr_conversation :: int
  fr_route :: string
  fr_stage :: string
  fr_tool :: "string option"
  fr_code :: string
  fr_sql_attempts :: nat
  fr_graph_attempts :: nat

record http_env =
  he_invoke :: "string \<Rightarrow> pyval \<Rightarrow> py_exception + graph_output"
  he_failure_text :: "py_exception \<Rightarrow> query_failure \<Rightarrow> string"
  he_failed_text :: string
  he_respond :: "row \<Rightarrow> py_exception + http_response"
  he_save :: "http_response \<Rightarrow> py_exception + int"
  he_review :: "failure_review \<Rightarrow> py_exception + unit"

definition safe_failed_result :: "string \<Rightarrow> pyval \<Rightarrow> pyval" where
  "safe_failed_result failed_text v = (case v of
     PDict d \<Rightarrow> PDict [(''result'', value_at d ''result''),
       (''error'', if value_at d ''error'' \<noteq> PNone then PStr failed_text else PNone),
       (''attempts'', PList []), (''empty_reason'', value_at d ''empty_reason''),
       (''truncated'', dict_get d ''truncated'' (PBool False))]
   | _ \<Rightarrow> v)"

definition tool_failed :: "query_failure option \<Rightarrow> string \<Rightarrow> bool" where
  "tool_failed qf t = (case qf of
     None \<Rightarrow> False
   | Some f \<Rightarrow> qf_failed_tool f = None \<or> qf_failed_tool f = Some t)"

definition chat_payload :: "http_env \<Rightarrow> graph_output \<Rightarrow> row" where
  "chat_payload env r =
     (let sql_failed = tool_failed (go_query_failure r) ''sql''; graph_failed = tool_failed (go_query_failure r) ''graph'' in
      [(''query'', PStr (go_query r)), (''entity'', go_entity r), (''tool_plan'', go_tool_plan r),
       (''sql_query'', if sql_failed then PNone else go_sql_query r),
       (''cypher_query'', if graph_failed then PNone else go_cypher_query r),
       (''sql_result'', if sql_failed then safe_failed_result (he_failed_text env) (go_sql_result r) else go_sql_result r),
       (''graph_result'', if graph_failed then safe_failed_result (he_failed_text env) (go_graph_result r) else go_graph_result r),
       (''final_answer'', case go_final_answer r of None \<Rightarrow> PNone | Some t \<Rightarrow> PStr t),
       (''visualization'', go_visualization r)])"

subsection \<open>Exceptions of the graph\<close>

definition handled_failure :: "py_exception \<Rightarrow> query_failure option" where
  "handled_failure e =
     (if exc_instance e [''EntityNotFoundError''] then Some entity_not_found_failure
      else if exc_instance e [''EntityExtractionError''] then Some (query_understanding_failure ''entity_resolution'')
      else if exc_instance e [''RoutePlanError''] then Some (query_understanding_failure ''routing'')
      else if exc_instance e [''OutputPlanningError''] then Some (query_understanding_failure ''planning'')
      else None)"

definition failed_output :: "string \<Rightarrow> string \<Rightarrow> query_failure \<Rightarrow> graph_output" where
  "failed_output query answer f = \<lparr>go_query = query, go_entity = PNone, go_tool_plan = PNone, go_sql_query = PNone,
     go_cypher_query = PNone, go_sql_result = PNone, go_graph_result = PNone, go_final_answer = Some answer,
     go_visualization = PNone, go_query_failure = Some f\<rparr>"

definition chat_result :: "http_env \<Rightarrow> string \<Rightarrow> pyval \<Rightarrow> py_exception + graph_output" where
  "chat_result env query confirmed = (case he_invoke env query confirmed of
     Inr r \<Rightarrow> Inr r
   | Inl e \<Rightarrow> (case handled_failure e of None \<Rightarrow> Inl e | Some f \<Rightarrow> Inr (failed_output query (he_failure_text env e f) f)))"

subsection \<open>The report of a run\<close>

definition planned_tools :: "http_response \<Rightarrow> string list" where
  "planned_tools resp = map lower (case hr_tool_plan resp of None \<Rightarrow> [] | Some ts \<Rightarrow> ts)"

definition route_label :: "string list \<Rightarrow> string" where
  "route_label plan = (if 1 < length (remdups plan) then ''HYBRID''
     else case plan of
       [] \<Rightarrow> ''UNKNOWN''
     | t # _ \<Rightarrow> if t = ''sql'' then ''SQL'' else if t = ''graph'' then ''GRAPH'' else ''UNKNOWN'')"

definition tool_results :: "http_response \<Rightarrow> (string \<times> row option) list" where
  "tool_results resp = [(''sql'', hr_sql_result resp), (''graph'', hr_graph_result resp)]"

definition executed_tools :: "http_response \<Rightarrow> string list" where
  "executed_tools resp = map fst (filter (\<lambda>(_, v). v \<noteq> None) (tool_results resp))"

definition failed_tools :: "http_response \<Rightarrow> string list" where
  "failed_tools resp = map fst (filter (\<lambda>(_, v). case v of None \<Rightarrow> False | Some d \<Rightarrow> py_truthy (value_at d ''error'')) (tool_results resp))"

definition successful_tools :: "http_response \<Rightarrow> string list" where
  "successful_tools resp = filter (\<lambda>t. t \<notin> set (failed_tools resp)) (executed_tools resp)"

text \<open>The response model makes \<open>attempts\<close> a list.\<close>

definition attempt_count :: "row option \<Rightarrow> nat" where
  "attempt_count v = (case v of None \<Rightarrow> 0
   | Some d \<Rightarrow> (case dict_get d ''attempts'' (PList []) of PList xs \<Rightarrow> length xs | _ \<Rightarrow> 0))"

datatype final_status = InfrastructureFailure | PolicyBlocked | InternalFailure | PartialSuccess | RepairExhausted
  | Recovered | FirstAttemptSuccess

definition final_status :: "query_failure option \<Rightarrow> http_response \<Rightarrow> final_status" where
  "final_status qf resp = (case (qf, executed_tools resp) of
     (Some f, []) \<Rightarrow> if qf_kind f = Infrastructure then InfrastructureFailure
       else if qf_category f = ''POLICY_BLOCKED'' then PolicyBlocked else InternalFailure
   | _ \<Rightarrow> if failed_tools resp \<noteq> [] \<and> successful_tools resp \<noteq> [] then PartialSuccess
       else if failed_tools resp \<noteq> [] then RepairExhausted
       else if 1 < attempt_count (hr_sql_result resp) \<or> 1 < attempt_count (hr_graph_result resp) then Recovered
       else FirstAttemptSuccess)"

definition review_due :: "query_failure option \<Rightarrow> http_response \<Rightarrow> bool" where
  "review_due qf resp \<longleftrightarrow> qf \<noteq> None \<and> final_status qf resp \<notin> {Recovered, FirstAttemptSuccess}"

definition review_of :: "int \<Rightarrow> query_failure \<Rightarrow> http_response \<Rightarrow> failure_review" where
  "review_of conversation f resp = \<lparr>fr_conversation = conversation, fr_route = route_label (planned_tools resp),
     fr_stage = qf_stage f, fr_tool = qf_failed_tool f, fr_code = qf_code f,
     fr_sql_attempts = min (attempt_count (hr_sql_result resp)) 3,
     fr_graph_attempts = min (attempt_count (hr_graph_result resp)) 3\<rparr>"

subsection \<open>The endpoint\<close>

text \<open>What has been committed when the endpoint returns; an exception of storing is logged and swallowed.\<close>

record stored =
  sd_conversation :: "http_response option"
  sd_review :: "failure_review option"

definition store_chat :: "http_env \<Rightarrow> query_failure option \<Rightarrow> http_response \<Rightarrow> stored" where
  "store_chat env qf resp = (case he_save env resp of
     Inl _ \<Rightarrow> \<lparr>sd_conversation = None, sd_review = None\<rparr>
   | Inr conversation \<Rightarrow> \<lparr>sd_conversation = Some resp, sd_review = (case qf of
       None \<Rightarrow> None
     | Some f \<Rightarrow> if \<not> review_due qf resp then None
         else (case he_review env (review_of conversation f resp) of
           Inl _ \<Rightarrow> None | Inr _ \<Rightarrow> Some (review_of conversation f resp)))\<rparr>)"

definition chat :: "http_env \<Rightarrow> string \<Rightarrow> pyval \<Rightarrow> py_exception + http_response \<times> stored" where
  "chat env query confirmed = rbind (chat_result env query confirmed) (\<lambda>r.
     rbind (he_respond env (chat_payload env r)) (\<lambda>resp. Inr (resp, store_chat env (go_query_failure r) resp)))"

subsection \<open>What a reader of the response sees\<close>

text \<open>All that the response may show of the result of a failed tool.\<close>

definition visible :: "pyval \<Rightarrow> (pyval \<times> bool \<times> pyval \<times> pyval) + pyval" where
  "visible v = (case v of
     PDict d \<Rightarrow> Inl (value_at d ''result'', value_at d ''error'' \<noteq> PNone, value_at d ''empty_reason'',
       dict_get d ''truncated'' (PBool False))
   | _ \<Rightarrow> Inr v)"

definition same_tool :: "bool \<Rightarrow> pyval \<Rightarrow> pyval \<Rightarrow> pyval \<Rightarrow> pyval \<Rightarrow> bool" where
  "same_tool failed query query' result result' \<longleftrightarrow>
     (if failed then visible result = visible result' else query = query' \<and> result = result')"

definition same_visible :: "graph_output \<Rightarrow> graph_output \<Rightarrow> bool" where
  "same_visible r r' \<longleftrightarrow> go_query r = go_query r' \<and> go_entity r = go_entity r' \<and> go_tool_plan r = go_tool_plan r' \<and>
     go_final_answer r = go_final_answer r' \<and> go_visualization r = go_visualization r' \<and>
     go_query_failure r = go_query_failure r' \<and>
     same_tool (tool_failed (go_query_failure r) ''sql'') (go_sql_query r) (go_sql_query r') (go_sql_result r) (go_sql_result r') \<and>
     same_tool (tool_failed (go_query_failure r) ''graph'') (go_cypher_query r) (go_cypher_query r') (go_graph_result r) (go_graph_result r')"

lemma safe_visible: "visible v = visible w \<Longrightarrow> safe_failed_result t v = safe_failed_result t w"
  by (auto simp: visible_def safe_failed_result_def split: pyval.splits)

lemma same_payload: "same_visible r r' \<Longrightarrow> chat_payload env r = chat_payload env r'"
  by (auto simp: same_visible_def same_tool_def chat_payload_def Let_def intro: safe_visible split: if_splits)

definition attempts_in :: "pyval \<Rightarrow> nat" where
  "attempts_in v = (case v of PDict d \<Rightarrow> attempt_count (Some d) | _ \<Rightarrow> 0)"

text \<open>The response model keeps the number of attempts of a result.\<close>

definition keeps_attempts :: "http_env \<Rightarrow> bool" where
  "keeps_attempts env \<longleftrightarrow> (\<forall>p resp. he_respond env p = Inr resp \<longrightarrow>
     attempt_count (hr_sql_result resp) = attempts_in (value_at p ''sql_result'') \<and>
     attempt_count (hr_graph_result resp) = attempts_in (value_at p ''graph_result''))"

lemma safe_attempts: "attempts_in (safe_failed_result t v) = 0"
  by (auto simp: attempts_in_def safe_failed_result_def attempt_count_def dict_get_def split: pyval.splits)

lemma payload_results:
  "value_at (chat_payload env r) ''sql_result'' = (if tool_failed (go_query_failure r) ''sql''
     then safe_failed_result (he_failed_text env) (go_sql_result r) else go_sql_result r)"
  "value_at (chat_payload env r) ''graph_result'' = (if tool_failed (go_query_failure r) ''graph''
     then safe_failed_result (he_failed_text env) (go_graph_result r) else go_graph_result r)"
  "value_at (chat_payload env r) ''sql_query'' = (if tool_failed (go_query_failure r) ''sql'' then PNone else go_sql_query r)"
  "value_at (chat_payload env r) ''cypher_query'' = (if tool_failed (go_query_failure r) ''graph'' then PNone else go_cypher_query r)"
  by (simp_all add: value_at_def chat_payload_def dict_get_def Let_def)

lemma stored_review:
  assumes "chat env query confirmed = Inr (resp, s)" and "sd_review s = Some rv"
  shows "\<exists>r conversation f. go_query_failure r = Some f \<and> he_respond env (chat_payload env r) = Inr resp \<and>
    rv = review_of conversation f resp"
proof -
  from assms(1) obtain r where r: "he_respond env (chat_payload env r) = Inr resp" "s = store_chat env (go_query_failure r) resp"
    by (auto simp: chat_def rbind_Inr_iff)
  from assms(2) obtain conversation f where "go_query_failure r = Some f" "rv = review_of conversation f resp"
    unfolding r(2) by (auto simp: store_chat_def split: sum.splits option.splits if_splits)
  with r(1) show ?thesis by blast
qed

subsection \<open>Properties\<close>


text \<open>C39: When both tools fail on their own, only the tool of the graver failure is hidden: the query and the whole
  result of the other, with its error text and attempted queries, are in the payload of the response.\<close>

theorem second_failure_is_exposed:
  assumes "go_query_failure r = Some (prefer_failure (Some f) g)"
    and "qf_failed_tool f = Some ''sql''" and "qf_failed_tool g = Some ''graph''"
  shows "(value_at (chat_payload env r) ''sql_query'' = go_sql_query r \<and> value_at (chat_payload env r) ''sql_result'' = go_sql_result r) \<or>
    (value_at (chat_payload env r) ''cypher_query'' = go_cypher_query r \<and> value_at (chat_payload env r) ''graph_result'' = go_graph_result r)"
  using assms by (auto simp: payload_results tool_failed_def prefer_failure_def)

text \<open>C40: The review of a failed tool records no attempt: the endpoint counts the attempts of the response, from which it
  has removed them.\<close>

theorem reviews_lose_attempts:
  assumes "chat env query confirmed = Inr (resp, s)" and "sd_review s = Some rv" and "keeps_attempts env"
  shows "(fr_tool rv \<in> {None, Some ''sql''} \<longrightarrow> fr_sql_attempts rv = 0) \<and> (fr_tool rv \<in> {None, Some ''graph''} \<longrightarrow> fr_graph_attempts rv = 0)"
proof -
  from stored_review[OF assms(1,2)] obtain r conversation f where
    r: "go_query_failure r = Some f" "he_respond env (chat_payload env r) = Inr resp" "rv = review_of conversation f resp" by blast
  from assms(3) r(2) have "attempt_count (hr_sql_result resp) = attempts_in (value_at (chat_payload env r) ''sql_result'')"
    "attempt_count (hr_graph_result resp) = attempts_in (value_at (chat_payload env r) ''graph_result'')"
    unfolding keeps_attempts_def by blast+
  then show ?thesis by (auto simp: r(1,3) review_of_def payload_results tool_failed_def safe_attempts)
qed

subsection \<open>An example\<close>

definition example_failure :: "string \<Rightarrow> query_failure" where
  "example_failure t = make_query_failure ''QUERY_EXECUTION_FAILED'' ''execution'' ''INTERNAL_QUERY_FAILURE'' Internal False (Some t) False"

definition example_summary :: "string \<Rightarrow> pyval" where
  "example_summary e = PDict [(''result'', PNone), (''error'', PStr e),
     (''attempts'', PList [PDict [(''query'', PStr ''SELECT''), (''error'', PStr e)]])]"

definition example_output :: "string \<Rightarrow> graph_output" where
  "example_output e = \<lparr>go_query = ''q'', go_entity = PNone, go_tool_plan = PList [PStr ''sql'', PStr ''graph''], go_sql_query = PStr e,
     go_cypher_query = PStr ''g'', go_sql_result = example_summary e, go_graph_result = example_summary ''g'',
     go_final_answer = None, go_visualization = PNone,
     go_query_failure = Some (prefer_failure (Some (example_failure ''sql'')) (example_failure ''graph''))\<rparr>"

definition example_outcome :: "pyval \<Rightarrow> row option" where
  "example_outcome v = (case v of PDict d \<Rightarrow> Some [(''result'', value_at d ''result''), (''error'', value_at d ''error''),
     (''attempts'', dict_get d ''attempts'' (PList [])), (''empty_reason'', value_at d ''empty_reason'')] | _ \<Rightarrow> None)"

definition example_http_env :: http_env where
  "example_http_env = \<lparr>he_invoke = (\<lambda>_ _. Inr (example_output ''s'')), he_failure_text = (\<lambda>_ _. ''t''), he_failed_text = ''failed'',
     he_respond = (\<lambda>p. Inr \<lparr>hr_query = ''q'', hr_entity = PNone, hr_tool_plan = Some [''sql'', ''graph''], hr_sql_query = None,
       hr_cypher_query = None, hr_sql_result = example_outcome (value_at p ''sql_result''),
       hr_graph_result = example_outcome (value_at p ''graph_result''), hr_final_answer = None, hr_visualization = PNone\<rparr>),
     he_save = (\<lambda>_. Inr 1), he_review = (\<lambda>_. Inr ())\<rparr>"


theorem second_failure_is_exposed_witness:
  "value_at (chat_payload example_http_env (example_output ''s'')) ''sql_result'' = example_summary ''s'' \<or>
   value_at (chat_payload example_http_env (example_output ''s'')) ''graph_result'' = example_summary ''g''"
proof -
  have "go_query_failure (example_output ''s'') = Some (prefer_failure (Some (example_failure ''sql'')) (example_failure ''graph''))"
    "go_sql_result (example_output ''s'') = example_summary ''s''" "go_graph_result (example_output ''s'') = example_summary ''g''"
    by (simp_all add: example_output_def)
  moreover have "qf_failed_tool (example_failure t) = Some t" for t by (simp add: example_failure_def make_query_failure_def)
  ultimately show ?thesis using second_failure_is_exposed[of "example_output ''s''"] by metis
qed

lemma example_keeps: "keeps_attempts example_http_env"
  by (auto simp: keeps_attempts_def example_http_env_def example_outcome_def attempts_in_def attempt_count_def dict_get_def value_at_def
    split: pyval.splits)

theorem reviews_lose_attempts_witness:
  "\<exists>resp s rv. chat example_http_env ''q'' PNone = Inr (resp, s) \<and> sd_review s = Some rv \<and> fr_tool rv = Some ''sql'' \<and> fr_sql_attempts rv = 0"
proof -
  let ?c = "chat example_http_env ''q'' PNone"
  have "case ?c of Inl _ \<Rightarrow> False | Inr (_, s) \<Rightarrow> (case sd_review s of None \<Rightarrow> False | Some rv \<Rightarrow> fr_tool rv = Some ''sql'')"
    by code_simp
  then obtain resp s rv where c: "?c = Inr (resp, s)" "sd_review s = Some rv" "fr_tool rv = Some ''sql''"
    by (auto split: sum.splits option.splits)
  from reviews_lose_attempts[OF c(1,2) example_keeps] c(3) have "fr_sql_attempts rv = 0" by simp
  with c show ?thesis by blast
qed

end
