(* ===== verification/Spec2Isabelle.thy ===== *)
theory Spec2Isabelle
  imports Orchestrator Generate_Answer Query_Agents Guard_Audit Resolve_Entity Evaluation_Gates Chat_Api
begin

text \<open>
  This library models and verifies the question-answering backend of the text2cypher manufacturing repository
  (\<open>src/backend\<close>).  A user asks a question about manufacturing data.  The backend rejects write requests and off-topic
  questions, resolves the names of the question to database entities, routes it to a PostgreSQL source, a Neo4j source
  or both, plans which columns each source returns, lets a language model write the queries, checks and executes
  them, joins the results, optionally computes a bill-of-materials shortage, and writes an answer that is checked against the rows.

  \<^bold>\<open>How the parts interact.\<close>  \<open>orchestrator/graph.py\<close> composes the nodes of \<open>orchestrator/nodes\<close> to a graph: guard_request,
  classify_topic, strict_query (one attempt of an older pipeline), resolve_entity, route_query, plan_outputs,
  execute_plan, compose_results, generate_answer.  A node reads the shared state and returns fields to update; a
  query failure ends the run early.  \<open>execute_plan\<close> runs one retry agent (\<open>subgraphs/retry_agent.py\<close>) for each subquery,
  in waves given by the dependencies, and passes rows of one source as bound values to the other.

  \<^bold>\<open>Conventions.\<close>  Python values are the datatype \<open>pyval\<close>; dictionaries are association lists in insertion order; integers
  are unbounded, decimals are exact with the rounding and the signals of the decimal context written out.
  Characters are those of \<open>char\<close> (codes up to 255), so Hangul and other wide characters cannot occur in a modelled string.
  An exception is the left value of a sum.  Calls that leave the program (the chat models, the databases, the sqlparse
  parser, the JSON decoder, the environment) are fields of environment records; theorems quantify over them.  Logging and metrics
  have no effect on any result and are left out.

  \<^bold>\<open>Theories and sources\<close> (under \<open>src/backend/orchestrator\<close> unless another directory is named).

  \<^item> \<open>Py_Prelude\<close>, \<open>Py_Text\<close>, \<open>Py_Decimal\<close>: Python values with equality, truth and hashing; dictionaries and result monads;
    \<open>str\<close>, \<open>repr\<close>, \<open>json.dumps\<close> and \<open>int\<close>; \<open>decimal.Decimal\<close> with the default context.
  \<^item> \<open>Semantic_Catalog\<close>, \<open>Ontology\<close>, \<open>Schema_Models\<close>, \<open>Catalog_Builder\<close>: \<open>semantic_catalog.py\<close> and the schema models of
    \<open>agents/sql/schema/models.py\<close> and \<open>agents/cypher/schema/models.py\<close>: ontology validators, the builder and the lookups.
    A built catalog is closed: roles, shapes and transforms mention only owned aliases.
  \<^item> \<open>Planning\<close>: \<open>planning.py\<close>.  Validation accepts exactly the well-formed plans, the topological order exists exactly when
    the dependencies allow one, and validation is idempotent.
  \<^item> \<open>Request_Guard\<close>, \<open>Route_Query\<close>, \<open>Plan_Outputs\<close>: \<open>nodes/guard_request.py\<close>, \<open>nodes/classify_topic.py\<close>, \<open>nodes/route_query.py\<close>,
    \<open>nodes/plan_outputs.py\<close>.  Routes are validated after at most one repair; over a built catalog planning fails only with the model.
  \<^item> \<open>Query_Guards\<close>, \<open>Sql_Guard\<close>, \<open>Cypher_Contracts\<close>: \<open>guards/shared.py\<close>, \<open>guards/cypher_guard.py\<close>, \<open>guards/sql_guard.py\<close>,
    \<open>cypher_contracts.py\<close> and \<open>evaluation/safety.py\<close>.  Masking refines a specification by segments; labels, types and
    tables of allowed queries belong to the schema; the coupling contract rejects exactly the coupled traversals.  Two theorems
    exhibit queries that the guards allow although they should not.
  \<^item> \<open>Guard_Audit\<close>: \<open>guards/audit.py\<close>, the audit log as an interleaving of threads; every record is written once.
  \<^item> \<open>Query_Failures\<close>, \<open>Retry_Agent\<close>, \<open>Query_Execution\<close>, \<open>Query_Agents\<close>: \<open>query_failures.py\<close>, \<open>subgraphs/retry_agent.py\<close>,
    \<open>execution\<close>, \<open>subgraphs/sql_agent.py\<close>, \<open>subgraphs/cypher_agent.py\<close>.  The retry graph makes one to three attempts and executes
    only checked queries; with the production guards and contracts this bounds what the databases receive.
  \<^item> \<open>Bindings\<close>, \<open>Execute_Plan\<close>: \<open>bindings.py\<close>, \<open>nodes/execute_plan.py\<close>.  A validated plan is never stuck, each subquery has
    one outcome, the gravest failure is reported, and bindings never fail with the production agents.
  \<^item> \<open>Composition\<close>, \<open>Bom_Shortage\<close>: \<open>composition.py\<close>, \<open>bom_shortage.py\<close>.  Joining is the relational join within the row limit;
    the shortage report lists exactly the purchased components whose demand exceeds their stock.
  \<^item> \<open>Entity_Names\<close>, \<open>Resolve_Entity\<close>: \<open>entity_types.py\<close>, \<open>nodes/resolve_entity.py\<close>.  Literal spans are exactly the whole-word
    places of a name, selected names are disjoint and maximal, resolved entities exist in the database, and unresolved
    names are reported.
  \<^item> \<open>Answer_Limits\<close>, \<open>Generate_Answer\<close>: \<open>nodes/answer_limits.py\<close>, \<open>nodes/generate_answer.py\<close>, \<open>numeric_literals.py\<close>.  The
    context is bounded, structured answers are grounded in it, and the node survives every reply of the model.
  \<^item> \<open>Orchestrator\<close>: \<open>graph.py\<close>, \<open>state.py\<close>, \<open>nodes/strict_query.py\<close>, \<open>nodes/compose_results.py\<close>.  The graph as a step relation
    and as a function; what is executed, how runs end and where exceptions come from.
  \<^item> \<open>Chat_Api\<close>: the chat endpoint of \<open>api/chat.py\<close>.  A failed tool is hidden from the response and the stored records; two
    theorems show where this goes wrong: with two failures only one is hidden, and reviews lose the attempts.
  \<^item> \<open>Evaluation_Gates\<close>: \<open>evaluation/stability_policy.py\<close> and the regression gate of \<open>evaluation/gates.py\<close>.  When the gate passes, and
    that a policy passes on the records it was built from.
  \<^item> This theory: the graph with the production resolver.

  Interfaces between components are locales, interpreted on the definitions of the model: \<open>catalog_provider\<close> (the builder for
  the planner), \<open>query_agent\<close>, \<open>list_agent\<close> and \<open>plan_agents\<close> (the retry agents for the plan executor),
  \<open>confined_agent\<close> (the agents for the databases) and \<open>entity_resolver\<close> (the resolver for the graph).

  \<^bold>\<open>Bounds and termination.\<close>  No definition uses fuel.  Recursions that are not structural carry a measure: remaining input for scanners,
  remaining subqueries for the topological order and the waves, unvisited rows for the round-robin loop of sections.  The
  retry graph and the repair loops are bounded by the constants of the source (three attempts, two attempts), a run of
  the graph by nine steps.

  \<^bold>\<open>Not modelled.\<close>  Prompts, tool descriptions and calls of the chat model (\<open>agents\<close>); texts shown to the user and the rules on Korean text,
  which concern characters the model has not; the Markdown and visualization renderers (\<open>nodes/build_visualization.py\<close> and the
  renderers of \<open>nodes/generate_answer.py\<close> format Korean labels and binary floats), which are parameters of the
  answer node; the strict pipeline, an earlier copy of the orchestrator under \<open>strict_query\<close>, run as one call and a parameter
  of its node; the drivers and the parser of sqlparse; the other HTTP routes, connection pools, history, observability and dashboard, which pass
  data between the framework, the databases and the components above; the offline evaluation except its query safety check, the
  stability policy and the regression gate (it computes metrics on binary floats and renders reports); the ETL scripts.
\<close>

section \<open>Properties that span components\<close>

text \<open>The orchestrator with the production entity resolver; an exception is given by its class.\<close>

fun error_class :: "resolve_error \<Rightarrow> string" where
  "error_class EntityExtractionError = ''EntityExtractionError''"
| "error_class (EntityAmbiguousError _ _) = ''EntityAmbiguousError''"
| "error_class (EntityNotFoundError _) = ''EntityNotFoundError''"
| "error_class (Raised e) = exc_type e"

definition production_resolver :: "resolve_env \<Rightarrow> named_entity_type list \<Rightarrow> string list list \<Rightarrow> string \<Rightarrow> pyval \<Rightarrow> string + pyval" where
  "production_resolver renv types node_aliases query confirmed =
     (case resolve_entity renv types node_aliases query confirmed of Inl e \<Rightarrow> Inl (error_class e) | Inr v \<Rightarrow> Inr v)"

definition real_entity :: "resolve_env \<Rightarrow> named_entity_type list \<Rightarrow> pyval \<Rightarrow> row \<Rightarrow> bool" where
  "real_entity renv types confirmed e \<longleftrightarrow> from_database renv types e \<or>
     (\<exists>c. from_confirmation renv types confirmed c \<and> ce_entity c = e)"

lemma production_resolver_real:
  "production_resolver renv types node_aliases query confirmed = Inr v \<Longrightarrow>
     \<forall>e \<in> set (entities_in v). real_entity renv types confirmed e"
  using resolve_entity_sources unfolding production_resolver_def real_entity_def
  by (auto split: sum.splits)

lemma strict_query_fields [simp]:
  "os_entity (strict_query env s) = os_entity s" "os_confirmed (strict_query env s) = os_confirmed s"
  by (simp_all add: strict_query_def Let_def split: option.splits strict_run.splits)

text \<open>What the graph relies on in its entity resolver: the entities it returns are real, in a sense that may depend on
  the entities the user confirmed.\<close>

locale entity_resolver =
  fixes resolve :: "string \<Rightarrow> pyval \<Rightarrow> string + pyval" and real :: "pyval \<Rightarrow> row \<Rightarrow> bool"
  assumes resolved_real: "resolve query confirmed = Inr v \<Longrightarrow> \<forall>e \<in> set (entities_in v). real confirmed e"
begin

lemma entity_step:
  assumes "orch_step env (At n s) (At n' s')" and "oe_resolve env = resolve"
    and "\<forall>e \<in> set (entities_in (os_entity s)). real (os_confirmed s) e"
  shows "os_confirmed s' = os_confirmed s \<and> (\<forall>e \<in> set (entities_in (os_entity s')). real (os_confirmed s) e)"
  using assms(1)
proof (cases rule: orch_step.cases)
  case (resolve entity)
  with resolved_real assms(2) show ?thesis by simp
qed (use assms(3) in auto)

lemma reached_entities_real:
  assumes "orch_reach env (initial_orchestrator_state query confirmed) c" and "oe_resolve env = resolve" and "c = At n s"
  shows "os_confirmed s = confirmed \<and> (\<forall>e \<in> set (entities_in (os_entity s)). real confirmed e)"
  using assms(1,3)
proof (induction arbitrary: n s rule: orch_reach.induct)
  case start
  then show ?case by (auto simp: initial_orchestrator_state_def)
next
  case (step c c')
  then obtain n0 s0 where c: "c = At n0 s0" by (cases c) (auto elim: orch_step_AbortedE)
  from step(3)[OF c] entity_step[OF step(2)[unfolded c step(4)] assms(2)] show ?case by simp
qed

end

interpretation production: entity_resolver "production_resolver renv types node_aliases" "real_entity renv types"
  for renv types node_aliases
  by unfold_locales (rule production_resolver_real)

definition example_pipeline :: orchestrator_env where
  "example_pipeline = (example_system example_planner)\<lparr>oe_resolve := production_resolver example_resolve_env [example_type] []\<rparr>"

lemma example_pipeline_reaches_routing:
  defines "start \<equiv> initial_orchestrator_state ''Ab'' PNone"
  shows "\<exists>s. orch_reach example_pipeline start (At RouteQuery s) \<and>
     os_entity s = PDict [(''productId'', PInt 7), (''productName'', PStr ''Ab'')]"
proof -
  have gate: "guard_request ''Ab'' = None" "classify_topic (\<lambda>_. Inr (Some ''ON_TOPIC'')) ''Ab'' = None"
    by code_simp+
  have fields: "os_query start = ''Ab''" "os_confirmed start = PNone" "start\<lparr>os_query_failure := None\<rparr> = start"
      "os_query_failure start = None" by (simp_all add: start_def initial_orchestrator_state_def)
  have env: "oe_topic example_pipeline = (\<lambda>_. Inr (Some ''ON_TOPIC''))"
      "oe_strict example_pipeline = (\<lambda>_ _. StrictTimeout)"
      "oe_resolve example_pipeline = production_resolver example_resolve_env [example_type] []"
    by (simp_all add: example_pipeline_def example_system_def)
  have r1: "orch_reach example_pipeline start (At ClassifyTopic start)"
    using orch_reach.step[OF orch_reach.start orch_step.guard[OF refl], of example_pipeline start]
    by (simp add: fields gate route_by_query_failure_def)
  from orch_reach.step[OF this orch_step.classify[OF refl]]
  have r2: "orch_reach example_pipeline start (At StrictQuery start)"
    by (simp add: env fields gate route_by_query_failure_def)
  let ?s = "start\<lparr>os_strategy := Some ''pr61'', os_strict_attempt := Some (Some ''timeout'')\<rparr>"
  have "strict_query example_pipeline start = ?s" by (simp add: strict_query_def env strict_reason_def Let_def)
  with orch_reach.step[OF r2 orch_step.strict[OF refl]]
  have r3: "orch_reach example_pipeline start (At ResolveEntity ?s)" by (simp add: route_by_strategy_def)
  have "oe_resolve example_pipeline (os_query ?s) (os_confirmed ?s) =
      Inr (PDict [(''productId'', PInt 7), (''productName'', PStr ''Ab'')])"
    by (simp add: env fields production_resolver_def example_resolved)
  from orch_reach.step[OF r3 orch_step.resolve[OF this]] show ?thesis by fastforce
qed



end
